(* ===== verification/Prelude.thy ===== *)
theory Prelude
  imports Main "HOL-Library.Word"
begin

text \<open>
  Shared ground of the development: machine integers and byte strings, the outcome type of a
  Rust computation (a value, an error value, or a panic), little-endian integers, UTF-8 strings,
  checked slicing and the decimal rendering of numbers, with the lemma collections every
  component uses.

  Conventions.  A byte is an \<^typ>\<open>8 word\<close>; \<open>i32\<close> and \<open>u32\<close> share the type \<^typ>\<open>32 word\<close> and are
  told apart by reading them with \<^const>\<open>sint\<close> or \<^const>\<open>unat\<close>.  \<open>usize\<close> is \<^typ>\<open>nat\<close>: the
  target is 64 bits wide and no allocation exceeds \<open>isize::MAX\<close>, so sums of lengths never wrap.
  A Rust \<open>String\<close> is a \<^typ>\<open>string\<close> whose characters are its UTF-8 code units; the type's
  invariant (the code units are well-formed UTF-8) is the predicate \<open>wf_str\<close>.  Panics (an index
  or a slice out of range, an arithmetic underflow, a failing \<open>debug_assert!\<close>) are the outcome
  \<open>Panic\<close>, so that "never panics" is a theorem and not a convention of the model.
\<close>

section \<open>Machine types\<close>

type_synonym u8 = "8 word"
type_synonym u32 = "32 word"
type_synonym i32 = "32 word"
type_synonym u64 = "64 word"
type_synonym i64 = "64 word"
type_synonym f64 = "64 word"
type_synonym bytes = "8 word list"

named_theorems outcome_simps "equations of the outcome combinators"
named_theorems panic_free "computations that never panic"
named_theorems wire_simps "round trips of single wire fields"
named_theorems eval_simps "equations that evaluate closed terms"

section \<open>Outcomes of Rust computations\<close>

datatype ('e, 'a) result = Ok (ok_of: 'a) | Err (err_of: 'e) | Panic

text \<open>The \<open>?\<close> operator without a conversion of the error.\<close>

definition andthen :: "('e, 'a) result \<Rightarrow> ('a \<Rightarrow> ('e, 'b) result) \<Rightarrow> ('e, 'b) result" where
  "andthen m f = (case m of Ok x \<Rightarrow> f x | Err e \<Rightarrow> Err e | Panic \<Rightarrow> Panic)"

text \<open>\<open>Result::map\<close> and \<open>Result::map_err\<close>; the latter also models the \<open>From\<close> conversion of \<open>?\<close>.\<close>

definition map_ok :: "('a \<Rightarrow> 'b) \<Rightarrow> ('e, 'a) result \<Rightarrow> ('e, 'b) result" where
  "map_ok f m = (case m of Ok x \<Rightarrow> Ok (f x) | Err e \<Rightarrow> Err e | Panic \<Rightarrow> Panic)"

definition map_err :: "('e \<Rightarrow> 'f) \<Rightarrow> ('e, 'a) result \<Rightarrow> ('f, 'a) result" where
  "map_err f m = (case m of Ok x \<Rightarrow> Ok x | Err e \<Rightarrow> Err (f e) | Panic \<Rightarrow> Panic)"

text \<open>\<open>Option::ok_or\<close> and a \<open>debug_assert!\<close>.\<close>

definition ok_or :: "'e \<Rightarrow> 'a option \<Rightarrow> ('e, 'a) result" where
  "ok_or e m = (case m of Some x \<Rightarrow> Ok x | None \<Rightarrow> Err e)"

definition debug_assert :: "bool \<Rightarrow> ('e, 'a) result \<Rightarrow> ('e, 'a) result" where
  "debug_assert b m = (if b then m else Panic)"

lemma andthen_simps [simp, outcome_simps]:
  "andthen (Ok x) f = f x" "andthen (Err e) f = Err e" "andthen Panic f = Panic"
  by (simp_all add: andthen_def)

text \<open>\<open>?\<close> in a method with \<open>&mut\<close> state, on a fallible step that leaves the state alone.\<close>

definition keep :: "'s \<Rightarrow> ('e, 'a) result \<Rightarrow> ('a \<Rightarrow> ('e, 'b) result \<times> 's) \<Rightarrow> ('e, 'b) result \<times> 's" where
  "keep s r k = (case r of Ok x \<Rightarrow> k x | Err e \<Rightarrow> (Err e, s) | Panic \<Rightarrow> (Panic, s))"

lemma keep_simps [simp, outcome_simps]:
  "keep s (Ok x) k = k x" "keep s (Err e) k = (Err e, s)" "keep s Panic k = (Panic, s)"
  by (simp_all add: keep_def)

lemma map_ok_simps [simp, outcome_simps]:
  "map_ok g (Ok x) = Ok (g x)" "map_ok g (Err e) = Err e" "map_ok g Panic = Panic"
  by (simp_all add: map_ok_def)

lemma map_err_simps [simp, outcome_simps]:
  "map_err g (Ok x) = Ok x" "map_err g (Err e) = Err (g e)" "map_err g Panic = Panic"
  by (simp_all add: map_err_def)

lemma ok_or_simps [simp, outcome_simps]:
  "ok_or e (Some x) = Ok x" "ok_or e None = Err e"
  by (simp_all add: ok_or_def)

lemma debug_assert_simps [simp, outcome_simps]:
  "debug_assert True m = m" "debug_assert False m = Panic"
  by (simp_all add: debug_assert_def)

lemma andthen_eq_Ok: "andthen m f = Ok y \<longleftrightarrow> (\<exists>x. m = Ok x \<and> f x = Ok y)"
  by (cases m) auto

lemma andthen_eq_Panic: "andthen m f = Panic \<longleftrightarrow> m = Panic \<or> (\<exists>x. m = Ok x \<and> f x = Panic)"
  by (cases m) auto

lemma andthen_eq_Err: "andthen m f = Err e \<longleftrightarrow> m = Err e \<or> (\<exists>x. m = Ok x \<and> f x = Err e)"
  by (cases m) auto

lemma map_ok_eq_Ok: "map_ok f m = Ok y \<longleftrightarrow> (\<exists>x. m = Ok x \<and> y = f x)"
  by (cases m) auto

lemma map_ok_eq_Panic [simp]: "map_ok f m = Panic \<longleftrightarrow> m = Panic"
  by (cases m) auto

lemma map_ok_eq_Err: "map_ok f m = Err e \<longleftrightarrow> m = Err e"
  by (cases m) auto

lemma map_err_eq_Ok [simp]: "map_err f m = Ok y \<longleftrightarrow> m = Ok y"
  by (cases m) auto

lemma map_err_eq_Panic [simp]: "map_err f m = Panic \<longleftrightarrow> m = Panic"
  by (cases m) auto

lemma ok_or_eq_Ok [simp]: "ok_or e m = Ok x \<longleftrightarrow> m = Some x"
  by (cases m) auto

lemma ok_or_not_Panic [simp, panic_free]: "ok_or e m \<noteq> Panic"
  by (cases m) auto

lemma debug_assert_eq_Ok [simp]: "debug_assert b m = Ok x \<longleftrightarrow> b \<and> m = Ok x"
  by (simp add: debug_assert_def)

lemma andthen_cong [fundef_cong]:
  "m = m' \<Longrightarrow> (\<And>x. m' = Ok x \<Longrightarrow> f x = g x) \<Longrightarrow> andthen m f = andthen m' g"
  by (cases m') auto

lemma map_ok_andthen: "map_ok g m = andthen m (\<lambda>x. Ok (g x))"
  by (cases m) auto

lemma andthen_not_PanicI:
  "m \<noteq> Panic \<Longrightarrow> (\<And>x. m = Ok x \<Longrightarrow> f x \<noteq> Panic) \<Longrightarrow> andthen m f \<noteq> Panic"
  by (cases m) auto

section \<open>Traversals\<close>

text \<open>A loop that pushes the result of a fallible step for every element and stops at the first error.\<close>

fun traverse :: "('a \<Rightarrow> ('e, 'b) result) \<Rightarrow> 'a list \<Rightarrow> ('e, 'b list) result" where
  "traverse f [] = Ok []"
| "traverse f (x # xs) = andthen (f x) (\<lambda>y. andthen (traverse f xs) (\<lambda>ys. Ok (y # ys)))"

lemma traverse_cong [fundef_cong]:
  "xs = ys \<Longrightarrow> (\<And>x. x \<in> set ys \<Longrightarrow> f x = g x) \<Longrightarrow> traverse f xs = traverse g ys"
proof (induction ys arbitrary: xs)
  case (Cons y ys)
  then show ?case by simp
qed simp

lemma traverse_Ok_iff: "traverse f xs = Ok ys \<longleftrightarrow> list_all2 (\<lambda>x y. f x = Ok y) xs ys"
  by (induction xs arbitrary: ys) (auto simp: andthen_eq_Ok list_all2_Cons1)

lemma traverse_not_Panic: "(\<And>x. x \<in> set xs \<Longrightarrow> f x \<noteq> Panic) \<Longrightarrow> traverse f xs \<noteq> Panic"
  by (induction xs) (auto simp: andthen_eq_Panic)

lemma traverse_map: "traverse f (map g xs) = traverse (\<lambda>x. f (g x)) xs"
  by (induction xs) simp_all

lemma traverse_Ok_map: "(\<And>x. x \<in> set xs \<Longrightarrow> f x = Ok (g x)) \<Longrightarrow> traverse f xs = Ok (map g xs)"
  by (induction xs) simp_all

lemma traverse_Err: "traverse f xs = Err e \<Longrightarrow> \<exists>x \<in> set xs. f x = Err e"
  by (induction xs) (auto simp: andthen_eq_Err)

section \<open>Checked indexing and slicing\<close>

text \<open>\<open>b[i]\<close>, \<open>b[from..to]\<close> (also \<open>Bytes::slice\<close>) and \<open>usize\<close> subtraction panic out of range.\<close>

definition index_at :: "'a list \<Rightarrow> nat \<Rightarrow> ('e, 'a) result" where
  "index_at xs i = (if i < length xs then Ok (xs ! i) else Panic)"

definition slice :: "'a list \<Rightarrow> nat \<Rightarrow> nat \<Rightarrow> ('e, 'a list) result" where
  "slice xs from to = (if from \<le> to \<and> to \<le> length xs then Ok (take (to - from) (drop from xs)) else Panic)"

definition usub :: "nat \<Rightarrow> nat \<Rightarrow> ('e, nat) result" where
  "usub a b = (if b \<le> a then Ok (a - b) else Panic)"

lemma index_at_Ok [simp]: "i < length xs \<Longrightarrow> index_at xs i = Ok (xs ! i)"
  by (simp add: index_at_def)

lemma slice_Ok [simp]:
  "from \<le> to \<Longrightarrow> to \<le> length xs \<Longrightarrow> slice xs from to = Ok (take (to - from) (drop from xs))"
  by (simp add: slice_def)

lemma slice_eq_Ok: "slice xs from to = Ok ys \<longleftrightarrow>
    from \<le> to \<and> to \<le> length xs \<and> ys = take (to - from) (drop from xs)"
  by (auto simp: slice_def)

lemma usub_Ok [simp]: "b \<le> a \<Longrightarrow> usub a b = Ok (a - b)"
  by (simp add: usub_def)

lemma usub_eq_Ok: "usub a b = Ok c \<longleftrightarrow> b \<le> a \<and> c = a - b"
  by (auto simp: usub_def)

section \<open>Positions of the terminating NUL\<close>

text \<open>\<open>iter().position(|&b| b == 0)\<close>.\<close>

fun nul_pos :: "bytes \<Rightarrow> nat option" where
  "nul_pos [] = None"
| "nul_pos (b # bs) = (if b = 0 then Some 0 else map_option Suc (nul_pos bs))"

lemma nul_pos_Some: "nul_pos bs = Some n \<Longrightarrow> n < length bs \<and> bs ! n = 0 \<and> 0 \<notin> set (take n bs)"
  by (induction bs arbitrary: n) (auto split: if_splits)

lemma nul_pos_split: "nul_pos bs = Some n \<Longrightarrow> bs = take n bs @ 0 # drop (Suc n) bs"
  by (metis nul_pos_Some id_take_nth_drop)

lemma nul_pos_append [simp]: "0 \<notin> set s \<Longrightarrow> nul_pos (s @ 0 # r) = Some (length s)"
  by (induction s) auto

lemma nul_pos_None: "nul_pos bs = None \<longleftrightarrow> 0 \<notin> set bs"
  by (induction bs) auto

section \<open>Little-endian integers\<close>

fun le_bytes :: "nat \<Rightarrow> nat \<Rightarrow> bytes" where
  "le_bytes 0 n = []"
| "le_bytes (Suc k) n = word_of_nat (n mod 256) # le_bytes k (n div 256)"

fun of_le :: "bytes \<Rightarrow> nat" where
  "of_le [] = 0"
| "of_le (b # bs) = unat b + 256 * of_le bs"

lemma length_le_bytes [simp]: "length (le_bytes k n) = k"
  by (induction k arbitrary: n) auto

lemma le_bytes_numeral [eval_simps]:
  "le_bytes (numeral k) n = word_of_nat (n mod 256) # le_bytes (pred_numeral k) (n div 256)"
  unfolding numeral_eq_Suc [of k] by (rule le_bytes.simps(2))

lemma unat_byte_less: "unat (b :: 8 word) < 256"
  by (rule order_less_le_trans [OF unsigned_less]) simp

lemma unat_word32_less: "unat (w :: 32 word) < 4294967296"
  by (rule order_less_le_trans [OF unsigned_less]) simp

lemma unat_word64_less: "unat (w :: 64 word) < 18446744073709551616"
  by (rule order_less_le_trans [OF unsigned_less]) simp

lemma unat_byte_mod [simp]: "unat (word_of_nat (n mod 256) :: 8 word) = n mod 256"
  by (simp add: unat_of_nat)

lemma of_le_le_bytes: "of_le (le_bytes k n) = n mod 256 ^ k"
proof (induction k arbitrary: n)
  case 0
  then show ?case by simp
next
  case (Suc k)
  have "of_le (le_bytes (Suc k) n) = n mod 256 + 256 * (n div 256 mod 256 ^ k)"
    by (simp add: Suc.IH)
  also have "\<dots> = n mod (256 * 256 ^ k)"
    by (simp add: mod_mult2_eq)
  finally show ?case by simp
qed

lemma of_le_bound: "of_le bs < 256 ^ length bs"
proof (induction bs)
  case Nil
  then show ?case by simp
next
  case (Cons b bs)
  have "unat b < 256"
    by (rule unat_byte_less)
  with Cons.IH show ?case by simp
qed

lemma le_bytes_of_le: "length bs = k \<Longrightarrow> le_bytes k (of_le bs) = bs"
proof (induction bs arbitrary: k)
  case Nil
  then show ?case by simp
next
  case (Cons b bs)
  have b: "unat b < 256"
    by (rule unat_byte_less)
  from Cons.prems obtain j where k: "k = Suc j" and j: "length bs = j"
    by auto
  have "le_bytes j (of_le bs) = bs"
    using j by (rule Cons.IH)
  with b k show ?case by simp
qed

text \<open>\<open>u32::to_le_bytes\<close>, \<open>u32::from_le_bytes\<close> and their 64-bit twins; the signed types share the bits.\<close>

definition to_le32 :: "32 word \<Rightarrow> bytes" where
  "to_le32 w = le_bytes 4 (unat w)"

definition from_le32 :: "bytes \<Rightarrow> 32 word" where
  "from_le32 bs = word_of_nat (of_le bs)"

definition to_le64 :: "64 word \<Rightarrow> bytes" where
  "to_le64 w = le_bytes 8 (unat w)"

definition from_le64 :: "bytes \<Rightarrow> 64 word" where
  "from_le64 bs = word_of_nat (of_le bs)"

lemmas le_eval [eval_simps] = to_le32_def to_le64_def from_le32_def from_le64_def

lemma length_to_le32 [simp]: "length (to_le32 w) = 4"
  by (simp add: to_le32_def)

lemma length_to_le64 [simp]: "length (to_le64 w) = 8"
  by (simp add: to_le64_def)

lemma from_to_le32 [simp]: "from_le32 (to_le32 w) = w"
proof -
  have "unat w < 4294967296" by (rule unat_word32_less)
  then show ?thesis
    by (simp add: from_le32_def to_le32_def of_le_le_bytes)
qed

lemma from_to_le64 [simp]: "from_le64 (to_le64 w) = w"
proof -
  have "unat w < 18446744073709551616" by (rule unat_word64_less)
  then show ?thesis
    by (simp add: from_le64_def to_le64_def of_le_le_bytes)
qed

lemma to_from_le32: "length bs = 4 \<Longrightarrow> to_le32 (from_le32 bs) = bs"
  using of_le_bound [of bs]
  by (simp add: from_le32_def to_le32_def unat_of_nat le_bytes_of_le)

lemma to_from_le64: "length bs = 8 \<Longrightarrow> to_le64 (from_le64 bs) = bs"
  using of_le_bound [of bs]
  by (simp add: from_le64_def to_le64_def unat_of_nat le_bytes_of_le)

section \<open>Casts and checked conversions\<close>

text \<open>
  The casts \<open>as u32\<close> and \<open>as i32\<close> of a \<open>usize\<close> (truncation), \<open>i32::try_from(usize)\<close> and the
  \<open>as usize\<close> cast of an \<open>i32\<close> (sign extension to 64 bits).
\<close>

definition u32_of_nat :: "nat \<Rightarrow> 32 word" where
  "u32_of_nat n = word_of_nat n"

definition i32_try_from :: "nat \<Rightarrow> i32 option" where
  "i32_try_from n = (if n \<le> 2147483647 then Some (u32_of_nat n) else None)"

definition i32_as_usize :: "i32 \<Rightarrow> nat" where
  "i32_as_usize w = nat (sint w mod 2 ^ 64)"

declare u32_of_nat_def [eval_simps] i32_try_from_def [eval_simps]

lemma unat_u32_of_nat [simp]: "n < 4294967296 \<Longrightarrow> unat (u32_of_nat n) = n"
  by (simp add: u32_of_nat_def unat_of_nat)

lemma u32_of_nat_unat [simp]: "u32_of_nat (unat w) = w"
  by (simp add: u32_of_nat_def)

lemma sint_u32_of_nat [simp]: "n \<le> 2147483647 \<Longrightarrow> sint (u32_of_nat n) = int n"
  by (simp add: u32_of_nat_def signed_of_nat signed_take_bit_int_eq_self)

lemma u32_eq_of_nat: "unat w = n \<Longrightarrow> w = u32_of_nat n"
  by auto

lemma sint_nonneg_unat32: "0 \<le> sint (w :: 32 word) \<Longrightarrow> sint w = int (unat w)"
proof -
  assume nn: "0 \<le> sint w"
  have "sint w < 2147483648" using sint_lt [of w] by simp
  with nn have "uint w = sint w" by (simp add: uint_sint take_bit_int_eq_self)
  then show ?thesis by simp
qed

lemma i32_try_from_Some: "i32_try_from n = Some w \<longleftrightarrow> n \<le> 2147483647 \<and> w = u32_of_nat n"
  by (auto simp: i32_try_from_def)

lemma i32_as_usize_nonneg: "0 \<le> sint w \<Longrightarrow> i32_as_usize w = unat w"
proof -
  assume nn: "0 \<le> sint w"
  have "uint w < 4294967296"
    by (rule order_less_le_trans [OF unsigned_less]) simp
  then have "uint w mod 18446744073709551616 = uint w" by simp
  with sint_nonneg_unat32 [OF nn] have "sint w mod 18446744073709551616 = uint w" by simp
  then show ?thesis by (simp add: i32_as_usize_def)
qed

lemma sint_ge_unat32: "int n \<le> sint (w :: 32 word) \<Longrightarrow> i32_as_usize w = unat w \<and> n \<le> unat w \<and> unat w \<le> 2147483647"
proof -
  assume n: "int n \<le> sint w"
  then have nn: "0 \<le> sint w" by linarith
  have "sint w < 2147483648" using sint_lt [of w] by simp
  then have "int (unat w) < 2147483648" using sint_nonneg_unat32 [OF nn] by simp
  then have "unat w \<le> 2147483647" by linarith
  moreover have "n \<le> unat w" using n sint_nonneg_unat32 [OF nn] by (metis of_nat_le_iff)
  ultimately show ?thesis using i32_as_usize_nonneg [OF nn] by simp
qed

lemma i32_as_usize_of_nat [simp]: "n \<le> 2147483647 \<Longrightarrow> i32_as_usize (u32_of_nat n) = n"
  by (simp add: i32_as_usize_nonneg)

lemma sint_of_unat32: "unat (w :: 32 word) \<le> 2147483647 \<Longrightarrow> sint w = int (unat w) \<and> i32_as_usize w = unat w"
  using sint_u32_of_nat [of "unat w"] i32_as_usize_of_nat [of "unat w"] by simp

section \<open>UTF-8 strings\<close>

definition byte_of_char :: "char \<Rightarrow> u8" where
  "byte_of_char c = word_of_nat (of_char c)"

definition char_of_byte :: "u8 \<Rightarrow> char" where
  "char_of_byte b = char_of (unat b)"

definition as_bytes :: "string \<Rightarrow> bytes" where
  "as_bytes s = map byte_of_char s"

definition str_of_bytes :: "bytes \<Rightarrow> string" where
  "str_of_bytes bs = map char_of_byte bs"

text \<open>
  Well-formed UTF-8 as \<open>std::str::from_utf8\<close> accepts it: no overlong forms, no surrogates,
  nothing above U+10FFFF (the table of well-formed byte sequences of the Unicode standard).
\<close>

definition utf8_cont :: "u8 \<Rightarrow> bool" where
  "utf8_cont b \<longleftrightarrow> 0x80 \<le> b \<and> b \<le> 0xBF"

fun utf8 :: "bytes \<Rightarrow> bool" where
  "utf8 [] \<longleftrightarrow> True"
| "utf8 (b # bs) \<longleftrightarrow>
     (if b < 0x80 then utf8 bs
      else if 0xC2 \<le> b \<and> b \<le> 0xDF then
        (case bs of c # r \<Rightarrow> utf8_cont c \<and> utf8 r | _ \<Rightarrow> False)
      else if 0xE0 \<le> b \<and> b \<le> 0xEF then
        (case bs of c # d # r \<Rightarrow>
           (if b = 0xE0 then 0xA0 \<le> c \<and> c \<le> 0xBF
            else if b = 0xED then 0x80 \<le> c \<and> c \<le> 0x9F
            else utf8_cont c) \<and> utf8_cont d \<and> utf8 r
         | _ \<Rightarrow> False)
      else if 0xF0 \<le> b \<and> b \<le> 0xF4 then
        (case bs of c # d # e # r \<Rightarrow>
           (if b = 0xF0 then 0x90 \<le> c \<and> c \<le> 0xBF
            else if b = 0xF4 then 0x80 \<le> c \<and> c \<le> 0x8F
            else utf8_cont c) \<and> utf8_cont d \<and> utf8_cont e \<and> utf8 r
         | _ \<Rightarrow> False)
      else False)"

definition wf_str :: "string \<Rightarrow> bool" where
  "wf_str s \<longleftrightarrow> utf8 (as_bytes s)"

definition from_utf8 :: "bytes \<Rightarrow> string option" where
  "from_utf8 bs = (if utf8 bs then Some (str_of_bytes bs) else None)"

declare byte_of_char_def [eval_simps] char_of_byte_def [eval_simps] as_bytes_def [eval_simps]
  str_of_bytes_def [eval_simps] wf_str_def [eval_simps] from_utf8_def [eval_simps]

lemma byte_of_char_of_byte [simp]: "byte_of_char (char_of_byte b) = b"
  using unat_byte_less [of b] by (simp add: byte_of_char_def char_of_byte_def of_char_of)

lemma unat_byte_of_char [simp]: "unat (byte_of_char c) = of_char c"
proof -
  have "(of_char c :: nat) < 256" using of_char_mod_256 [of c, where ?'a = nat] by (metis mod_less_divisor zero_less_numeral)
  then show ?thesis by (simp add: byte_of_char_def unat_of_nat)
qed

lemma char_of_byte_of_char [simp]: "char_of_byte (byte_of_char c) = c"
  by (simp add: char_of_byte_def)

lemma byte_of_char_eq_iff [simp]: "byte_of_char a = byte_of_char b \<longleftrightarrow> a = b"
  by (metis char_of_byte_of_char)

lemma length_as_bytes [simp]: "length (as_bytes s) = length s"
  by (simp add: as_bytes_def)

lemma length_str_of_bytes [simp]: "length (str_of_bytes s) = length s"
  by (simp add: str_of_bytes_def)

lemma as_bytes_append [simp]: "as_bytes (s @ t) = as_bytes s @ as_bytes t"
  by (simp add: as_bytes_def)

lemma as_bytes_Nil [simp]: "as_bytes [] = []"
  by (simp add: as_bytes_def)

lemma as_bytes_eq_Nil [simp]: "as_bytes s = [] \<longleftrightarrow> s = []"
  by (simp add: as_bytes_def)

lemma as_bytes_str_of_bytes [simp]: "as_bytes (str_of_bytes bs) = bs"
  by (simp add: as_bytes_def str_of_bytes_def comp_def)

lemma str_of_bytes_as_bytes [simp]: "str_of_bytes (as_bytes s) = s"
  by (simp add: as_bytes_def str_of_bytes_def comp_def)

lemma as_bytes_inject [simp]: "as_bytes a = as_bytes b \<longleftrightarrow> a = b"
  by (metis str_of_bytes_as_bytes)

lemma from_utf8_as_bytes [simp, wire_simps]: "wf_str s \<Longrightarrow> from_utf8 (as_bytes s) = Some s"
  by (simp add: from_utf8_def wf_str_def)

lemma from_utf8_Some: "from_utf8 bs = Some s \<longleftrightarrow> utf8 bs \<and> bs = as_bytes s"
  by (auto simp: from_utf8_def)

lemma from_utf8_Some_wf: "from_utf8 bs = Some s \<Longrightarrow> wf_str s \<and> as_bytes s = bs"
  by (auto simp: from_utf8_Some wf_str_def)

text \<open>ASCII text is well-formed.\<close>

definition ascii_str :: "string \<Rightarrow> bool" where
  "ascii_str s \<longleftrightarrow> list_all (\<lambda>c. (of_char c :: nat) < 128) s"

lemma utf8_ascii: "list_all (\<lambda>b. b < 0x80) bs \<Longrightarrow> utf8 bs"
  by (induction bs) auto

lemma ascii_wf_str [simp, intro]: "ascii_str s \<Longrightarrow> wf_str s"
  unfolding wf_str_def ascii_str_def as_bytes_def
  by (rule utf8_ascii) (induction s, auto simp: word_less_nat_alt)

section \<open>Decimal rendering\<close>

text \<open>The decimal digits of a number, as \<open>usize::to_string\<close> writes them.\<close>

fun show_nat :: "nat \<Rightarrow> string" where
  "show_nat n = (if n < 10 then [char_of (48 + n)] else show_nat (n div 10) @ [char_of (48 + n mod 10)])"

declare show_nat.simps [simp del]

lemma show_nat_digits: "c \<in> set (show_nat n) \<Longrightarrow> 48 \<le> (of_char c :: nat) \<and> (of_char c :: nat) \<le> 57"
proof (induction n arbitrary: c rule: show_nat.induct)
  case (1 n)
  show ?case
  proof (cases "n < 10")
    case True
    with "1.prems" show ?thesis by (simp add: show_nat.simps [of n] of_char_of)
  next
    case False
    with "1.prems" consider "c \<in> set (show_nat (n div 10))" | "c = char_of (48 + n mod 10)"
      by (auto simp: show_nat.simps [of n])
    then show ?thesis
    proof cases
      case 1
      with False "1.IH" show ?thesis by blast
    next
      case 2
      then show ?thesis by (simp add: of_char_of)
    qed
  qed
qed

lemma show_nat_ascii [simp]: "ascii_str (show_nat n)"
  unfolding ascii_str_def list_all_iff using show_nat_digits by fastforce

lemma show_nat_not_Nil [simp]: "show_nat n \<noteq> []"
  by (subst show_nat.simps) simp

lemma show_nat_no_nul [simp]: "0 \<notin> set (as_bytes (show_nat n))"
proof
  assume "0 \<in> set (as_bytes (show_nat n))"
  then obtain c where c: "c \<in> set (show_nat n)" and z: "byte_of_char c = 0"
    by (auto simp: as_bytes_def)
  from z have "unat (byte_of_char c) = 0" by simp
  with show_nat_digits [OF c] show False by simp
qed

end
