(* ===== verification/Protocol_IO.thy ===== *)
theory Protocol_IO
  imports Prelude
begin

text \<open>
  The protocol IO layer of \<open>mongo_common/src/io.rs\<close>: a cursor over a byte slice
  (\<open>ProtocolRead\<close>) and an append-only buffer with patchable length prefixes
  (\<open>ProtocolWrite\<close>).  A reader maps the remaining input to the value and the input after it;
  an error leaves the caller's cursor as it was, because no new cursor is returned.  The
  locale \<open>fixed_field\<close> is the contract of a fixed-width wire field, interpreted for every
  integer the protocol reads and writes.
\<close>

section \<open>Errors\<close>

datatype read_error =
    ShortInput (re_needed: nat) (re_got: nat)
  | Invalid string

datatype write_error = NulInString

section \<open>ProtocolRead\<close>

definition read_bytes :: "nat \<Rightarrow> bytes \<Rightarrow> (read_error, bytes \<times> bytes) result" where
  "read_bytes n r =
     (if length r < n then Err (ShortInput n (length r)) else Ok (take n r, drop n r))"

definition remaining :: "bytes \<Rightarrow> nat" where
  "remaining r = length r"

definition peek_i32_le :: "bytes \<Rightarrow> (read_error, i32) result" where
  "peek_i32_le r =
     (if length r < 4 then Err (ShortInput 4 (length r))
      else Ok (from_le32 [r ! 0, r ! 1, r ! 2, r ! 3]))"

definition read_u8 :: "bytes \<Rightarrow> (read_error, u8 \<times> bytes) result" where
  "read_u8 r = andthen (read_bytes 1 r) (\<lambda>(b, r). andthen (index_at b 0) (\<lambda>v. Ok (v, r)))"

definition read_i32_le :: "bytes \<Rightarrow> (read_error, i32 \<times> bytes) result" where
  "read_i32_le r = andthen (read_bytes 4 r) (\<lambda>(b, r). Ok (from_le32 b, r))"

definition read_u32_le :: "bytes \<Rightarrow> (read_error, u32 \<times> bytes) result" where
  "read_u32_le r = andthen (read_bytes 4 r) (\<lambda>(b, r). Ok (from_le32 b, r))"

definition read_i64_le :: "bytes \<Rightarrow> (read_error, i64 \<times> bytes) result" where
  "read_i64_le r = andthen (read_bytes 8 r) (\<lambda>(b, r). Ok (from_le64 b, r))"

definition read_u64_le :: "bytes \<Rightarrow> (read_error, u64 \<times> bytes) result" where
  "read_u64_le r = andthen (read_bytes 8 r) (\<lambda>(b, r). Ok (from_le64 b, r))"

definition read_cstring :: "bytes \<Rightarrow> (read_error, bytes \<times> bytes) result" where
  "read_cstring r =
     (case nul_pos r of
        Some pos \<Rightarrow> Ok (take pos r, drop 1 (drop pos r))
      | None \<Rightarrow> Err (ShortInput (length r + 1) (length r)))"

section \<open>ProtocolWrite\<close>

definition put_bytes :: "bytes \<Rightarrow> bytes \<Rightarrow> bytes" where
  "put_bytes b out = out @ b"

definition put_u8 :: "u8 \<Rightarrow> bytes \<Rightarrow> bytes" where
  "put_u8 v out = out @ [v]"

definition put_u8_at :: "nat \<Rightarrow> u8 \<Rightarrow> bytes \<Rightarrow> ('e, bytes) result" where
  "put_u8_at pos v out = (if pos < length out then Ok (out[pos := v]) else Panic)"

definition put_i32_le :: "i32 \<Rightarrow> bytes \<Rightarrow> bytes" where
  "put_i32_le v out = put_bytes (to_le32 v) out"

definition put_u32_le :: "u32 \<Rightarrow> bytes \<Rightarrow> bytes" where
  "put_u32_le v out = put_bytes (to_le32 v) out"

definition put_i64_le :: "i64 \<Rightarrow> bytes \<Rightarrow> bytes" where
  "put_i64_le v out = put_bytes (to_le64 v) out"

definition put_u64_le :: "u64 \<Rightarrow> bytes \<Rightarrow> bytes" where
  "put_u64_le v out = put_bytes (to_le64 v) out"

definition put_cstring :: "string \<Rightarrow> bytes \<Rightarrow> (write_error, bytes) result" where
  "put_cstring s out =
     (if 0 \<in> set (as_bytes s) then Err NulInString
      else Ok (put_u8 0 (put_bytes (as_bytes s) out)))"

definition placeholder_i32 :: "bytes \<Rightarrow> nat \<times> bytes" where
  "placeholder_i32 out = (let pos = length out in (pos, put_bytes [0, 0, 0, 0] out))"

definition put_i32_le_at :: "nat \<Rightarrow> i32 \<Rightarrow> bytes \<Rightarrow> ('e, bytes) result" where
  "put_i32_le_at pos v out =
     (let b = to_le32 v in
      andthen (put_u8_at pos (b ! 0) out) (\<lambda>out.
      andthen (put_u8_at (pos + 1) (b ! 1) out) (\<lambda>out.
      andthen (put_u8_at (pos + 2) (b ! 2) out) (\<lambda>out.
      put_u8_at (pos + 3) (b ! 3) out))))"

lemmas put_defs = put_bytes_def put_u8_def put_i32_le_def put_u32_le_def put_i64_le_def put_u64_le_def

section \<open>The contract of a fixed-width field\<close>

locale fixed_field =
  fixes width :: nat
    and enc :: "'v \<Rightarrow> bytes"
    and dec :: "bytes \<Rightarrow> 'v"
    and read :: "bytes \<Rightarrow> (read_error, 'v \<times> bytes) result"
  assumes enc_length: "length (enc v) = width"
    and read_long: "width \<le> length r \<Longrightarrow> read r = Ok (dec (take width r), drop width r)"
    and read_short: "length r < width \<Longrightarrow> read r = Err (ShortInput width (length r))"
    and dec_enc: "dec (enc v) = v"
    and enc_dec: "length b = width \<Longrightarrow> enc (dec b) = b"
begin

lemma read_enc: "read (enc v @ r) = Ok (v, r)"
  using read_long [of "enc v @ r"] by (simp add: enc_length dec_enc)

lemma read_Ok_iff: "read r = Ok (v, r') \<longleftrightarrow> r = enc v @ r'"
proof
  assume ok: "read r = Ok (v, r')"
  then have len: "width \<le> length r"
    using read_short [of r] by (metis not_le result.distinct(1))
  with ok read_long [OF len] have "dec (take width r) = v" and rest: "drop width r = r'"
    by auto
  then have "enc v = take width r"
    using len enc_dec [of "take width r"] by simp
  with rest show "r = enc v @ r'"
    by (metis append_take_drop_id)
next
  assume "r = enc v @ r'"
  then show "read r = Ok (v, r')" by (simp add: read_enc)
qed

lemma read_not_Panic: "read r \<noteq> Panic"
  by (cases "length r < width") (simp_all add: read_short read_long)

lemma read_length: "read r = Ok (v, r') \<Longrightarrow> length r = width + length r'"
  by (simp add: read_Ok_iff enc_length)

lemma read_Err_iff: "read r = Err e \<longleftrightarrow> length r < width \<and> e = ShortInput width (length r)"
  by (cases "length r < width") (auto simp: read_short read_long)

lemma read_take: "read r = Ok (v, r') \<Longrightarrow> take (length r - length r') r = enc v"
  by (auto simp: read_Ok_iff)

end

interpretation u8f: fixed_field 1 "\<lambda>b. [b]" "\<lambda>b. b ! 0" read_u8
  by unfold_locales
    (auto simp: read_u8_def read_bytes_def index_at_def length_Suc_conv take_Suc_conv_app_nth)

interpretation i32f: fixed_field 4 to_le32 from_le32 read_i32_le
  by unfold_locales (auto simp: read_i32_le_def read_bytes_def to_from_le32)

interpretation u32f: fixed_field 4 to_le32 from_le32 read_u32_le
  by unfold_locales (auto simp: read_u32_le_def read_bytes_def to_from_le32)

interpretation i64f: fixed_field 8 to_le64 from_le64 read_i64_le
  by unfold_locales (auto simp: read_i64_le_def read_bytes_def to_from_le64)

interpretation u64f: fixed_field 8 to_le64 from_le64 read_u64_le
  by unfold_locales (auto simp: read_u64_le_def read_bytes_def to_from_le64)

lemmas read_field_simps [simp, wire_simps] =
  u8f.read_enc [simplified] i32f.read_enc u32f.read_enc i64f.read_enc u64f.read_enc

lemmas read_field_Ok =
  u8f.read_Ok_iff [simplified] i32f.read_Ok_iff u32f.read_Ok_iff i64f.read_Ok_iff u64f.read_Ok_iff

lemmas read_field_panic [simp, panic_free] =
  u8f.read_not_Panic i32f.read_not_Panic u32f.read_not_Panic i64f.read_not_Panic u64f.read_not_Panic

lemmas read_field_Err =
  u8f.read_Err_iff i32f.read_Err_iff u32f.read_Err_iff i64f.read_Err_iff u64f.read_Err_iff

lemma read_field_end [simp, wire_simps]:
  "read_u8 [v] = Ok (v, [])" "read_i32_le (to_le32 w) = Ok (w, [])" "read_u32_le (to_le32 w) = Ok (w, [])"
  "read_i64_le (to_le64 x) = Ok (x, [])" "read_u64_le (to_le64 x) = Ok (x, [])"
  using read_field_simps(1) [of v "[]"] read_field_simps(2,3) [of w "[]"] read_field_simps(4,5) [of x "[]"]
  by simp_all

section \<open>Byte runs and NUL-terminated strings\<close>

lemma read_bytes_append [simp, wire_simps]: "length b = n \<Longrightarrow> read_bytes n (b @ r) = Ok (b, r)"
  by (simp add: read_bytes_def)

lemma read_bytes_end [simp, wire_simps]: "length b = n \<Longrightarrow> read_bytes n b = Ok (b, [])"
  by (simp add: read_bytes_def)

lemma read_bytes_Ok: "read_bytes n r = Ok (b, r') \<longleftrightarrow> r = b @ r' \<and> length b = n"
  by (auto simp: read_bytes_def)

lemma read_bytes_panic [simp, panic_free]: "read_bytes n r \<noteq> Panic"
  by (simp add: read_bytes_def)

lemma read_cstring_append [simp, wire_simps]: "0 \<notin> set s \<Longrightarrow> read_cstring (s @ 0 # r) = Ok (s, r)"
  by (simp add: read_cstring_def)

lemma read_cstring_Ok: "read_cstring r = Ok (s, r') \<longleftrightarrow> r = s @ 0 # r' \<and> 0 \<notin> set s"
proof
  assume ok: "read_cstring r = Ok (s, r')"
  then obtain pos where pos: "nul_pos r = Some pos" and s: "s = take pos r" and r': "r' = drop (Suc pos) r"
    by (auto simp: read_cstring_def split: option.splits)
  with nul_pos_split [OF pos] nul_pos_Some [OF pos] show "r = s @ 0 # r' \<and> 0 \<notin> set s"
    by simp
qed simp

lemma read_cstring_panic [simp, panic_free]: "read_cstring r \<noteq> Panic"
  by (simp add: read_cstring_def split: option.splits)

lemma peek_i32_le_eq: "4 \<le> length r \<Longrightarrow> peek_i32_le r = Ok (from_le32 (take 4 r))"
proof -
  assume len: "4 \<le> length r"
  then have "take 4 r = [r ! 0, r ! 1, r ! 2, r ! 3]"
    by (intro nth_equalityI) (auto simp: nth_Cons numeral_2_eq_2 numeral_3_eq_3 split: nat.splits)
  with len show ?thesis by (simp add: peek_i32_le_def)
qed

lemma peek_i32_le_panic [simp, panic_free]: "peek_i32_le r \<noteq> Panic"
  by (simp add: peek_i32_le_def)

section \<open>Patching a length prefix\<close>

lemma list4: "length b = 4 \<Longrightarrow> b = [b ! 0, b ! 1, b ! 2, b ! 3]"
  by (intro nth_equalityI) (auto simp: nth_Cons numeral_2_eq_2 numeral_3_eq_3 split: nat.splits)

lemma put_i32_le_at_prefix:
  "length old = 4 \<Longrightarrow> put_i32_le_at (length pre) v (pre @ old @ post) = Ok (pre @ to_le32 v @ post)"
proof -
  assume old: "length old = 4"
  obtain a b c d where o4: "old = [a, b, c, d]"
    using list4 [OF old] by blast
  obtain x y z w where v4: "to_le32 v = [x, y, z, w]"
    using list4 [OF length_to_le32] by blast
  show ?thesis
    by (simp add: o4 v4 put_i32_le_at_def put_u8_at_def Let_def list_update_append numeral_2_eq_2 numeral_3_eq_3)
qed

lemma put_i32_le_at_end:
  "put_i32_le_at (length pre) v (pre @ [0, 0, 0, 0] @ post) = Ok (pre @ to_le32 v @ post)"
  by (rule put_i32_le_at_prefix) simp

lemma put_cstring_Ok [simp]:
  "0 \<notin> set (as_bytes s) \<Longrightarrow> put_cstring s out = Ok (out @ as_bytes s @ [0])"
  by (simp add: put_cstring_def put_defs)

lemma put_cstring_panic [simp, panic_free]: "put_cstring s out \<noteq> Panic"
  by (simp add: put_cstring_def)

end
