(* ===== verification/Bson_Scalar.thy ===== *)
theory Bson_Scalar
  imports Protocol_IO
begin

text \<open>
  The BSON scalar layer of \<open>mongo_common/src/bson/scalar.rs\<close>: element tags, the scalar types,
  \<open>parse_scalar\<close>, \<open>encode_scalar\<close> and the hexadecimal form and generator of object ids.
  The layout specification \<open>scalar_bytes\<close> is the reference both directions are proved against:
  parsing accepts exactly the layouts of well-formed scalars, and encoding writes the layout
  whenever the length fields fit an \<open>i32\<close>.
\<close>

unbundle bit_operations_syntax

section \<open>Element tags\<close>

abbreviation (input) TAG_DOUBLE :: u8 where "TAG_DOUBLE \<equiv> 0x01"
abbreviation (input) TAG_STRING :: u8 where "TAG_STRING \<equiv> 0x02"
abbreviation (input) TAG_DOCUMENT :: u8 where "TAG_DOCUMENT \<equiv> 0x03"
abbreviation (input) TAG_ARRAY :: u8 where "TAG_ARRAY \<equiv> 0x04"
abbreviation (input) TAG_BINARY :: u8 where "TAG_BINARY \<equiv> 0x05"
abbreviation (input) TAG_UNDEFINED :: u8 where "TAG_UNDEFINED \<equiv> 0x06"
abbreviation (input) TAG_OBJECT_ID :: u8 where "TAG_OBJECT_ID \<equiv> 0x07"
abbreviation (input) TAG_BOOL :: u8 where "TAG_BOOL \<equiv> 0x08"
abbreviation (input) TAG_DATE_TIME :: u8 where "TAG_DATE_TIME \<equiv> 0x09"
abbreviation (input) TAG_NULL :: u8 where "TAG_NULL \<equiv> 0x0A"
abbreviation (input) TAG_REGEX :: u8 where "TAG_REGEX \<equiv> 0x0B"
abbreviation (input) TAG_DB_POINTER :: u8 where "TAG_DB_POINTER \<equiv> 0x0C"
abbreviation (input) TAG_JAVASCRIPT :: u8 where "TAG_JAVASCRIPT \<equiv> 0x0D"
abbreviation (input) TAG_SYMBOL :: u8 where "TAG_SYMBOL \<equiv> 0x0E"
abbreviation (input) TAG_JAVASCRIPT_SCOPE :: u8 where "TAG_JAVASCRIPT_SCOPE \<equiv> 0x0F"
abbreviation (input) TAG_INT32 :: u8 where "TAG_INT32 \<equiv> 0x10"
abbreviation (input) TAG_TIMESTAMP :: u8 where "TAG_TIMESTAMP \<equiv> 0x11"
abbreviation (input) TAG_INT64 :: u8 where "TAG_INT64 \<equiv> 0x12"
abbreviation (input) TAG_DECIMAL128 :: u8 where "TAG_DECIMAL128 \<equiv> 0x13"
abbreviation (input) TAG_MIN_KEY :: u8 where "TAG_MIN_KEY \<equiv> 0xFF"
abbreviation (input) TAG_MAX_KEY :: u8 where "TAG_MAX_KEY \<equiv> 0x7F"

abbreviation (input) MIN_DOC_LEN :: nat where "MIN_DOC_LEN \<equiv> 5"

section \<open>Scalar types\<close>

text \<open>\<open>ObjectId([u8; 12])\<close> and \<open>Decimal128([u8; 16])\<close>: the array lengths are part of \<open>scalar_ok\<close>.\<close>

type_synonym object_id = bytes
type_synonym decimal128 = bytes

record timestamp =
  ts_seconds :: u32
  ts_increment :: u32

record regex =
  re_pattern :: string
  re_options :: string

datatype binary_subtype =
    Generic | Function | BinaryOld | UuidOld | Uuid | Md5 | Encrypted | UserDefined u8

record binary =
  bin_subtype :: binary_subtype
  bin_bytes :: bytes

record db_pointer =
  dbp_namespace :: string
  dbp_id :: object_id

datatype scalar =
    S_Double f64
  | S_String string
  | S_Binary binary
  | S_Undefined
  | S_ObjectId object_id
  | S_Bool bool
  | S_DateTime i64
  | S_Null
  | S_Regex regex
  | S_DbPointer db_pointer
  | S_JavaScript string
  | S_Symbol string
  | S_Int32 i32
  | S_Timestamp timestamp
  | S_Int64 i64
  | S_Decimal128 decimal128
  | S_MinKey
  | S_MaxKey

datatype scalar_error =
    SE_ShortInput nat nat
  | SE_Invalid u8 string
  | SE_Utf8
  | SE_OutOfRange
  | SE_NotConvertible

text \<open>\<open>impl From<ReadError> for ScalarError\<close>: applied by every \<open>?\<close> on a reader.\<close>

fun scalar_error_of_read :: "read_error \<Rightarrow> scalar_error" where
  "scalar_error_of_read (ShortInput needed got) = SE_ShortInput needed got"
| "scalar_error_of_read (Invalid reason) = SE_Invalid 0 reason"

abbreviation sread :: "(read_error, 'a) result \<Rightarrow> (scalar_error, 'a) result" where
  "sread \<equiv> map_err scalar_error_of_read"

section \<open>Binary subtypes\<close>

fun subtype_to_u8 :: "binary_subtype \<Rightarrow> u8" where
  "subtype_to_u8 Generic = 0x00"
| "subtype_to_u8 Function = 0x01"
| "subtype_to_u8 BinaryOld = 0x02"
| "subtype_to_u8 UuidOld = 0x03"
| "subtype_to_u8 Uuid = 0x04"
| "subtype_to_u8 Md5 = 0x05"
| "subtype_to_u8 Encrypted = 0x06"
| "subtype_to_u8 (UserDefined b) = b"

definition subtype_from_u8 :: "u8 \<Rightarrow> (scalar_error, binary_subtype) result" where
  "subtype_from_u8 b =
     (if b = 0x00 then Ok Generic
      else if b = 0x01 then Ok Function
      else if b = 0x02 then Ok BinaryOld
      else if b = 0x03 then Ok UuidOld
      else if b = 0x04 then Ok Uuid
      else if b = 0x05 then Ok Md5
      else if b = 0x06 then Ok Encrypted
      else if 0x07 \<le> b \<and> b \<le> 0x7F then Err (SE_Invalid b ''reserved binary subtype'')
      else Ok (UserDefined b))"

section \<open>Parsing\<close>

definition tag_of :: "scalar \<Rightarrow> u8" where
  "tag_of s = (case s of
     S_Double _ \<Rightarrow> TAG_DOUBLE
   | S_String _ \<Rightarrow> TAG_STRING
   | S_Binary _ \<Rightarrow> TAG_BINARY
   | S_Undefined \<Rightarrow> TAG_UNDEFINED
   | S_ObjectId _ \<Rightarrow> TAG_OBJECT_ID
   | S_Bool _ \<Rightarrow> TAG_BOOL
   | S_DateTime _ \<Rightarrow> TAG_DATE_TIME
   | S_Null \<Rightarrow> TAG_NULL
   | S_Regex _ \<Rightarrow> TAG_REGEX
   | S_DbPointer _ \<Rightarrow> TAG_DB_POINTER
   | S_JavaScript _ \<Rightarrow> TAG_JAVASCRIPT
   | S_Symbol _ \<Rightarrow> TAG_SYMBOL
   | S_Int32 _ \<Rightarrow> TAG_INT32
   | S_Timestamp _ \<Rightarrow> TAG_TIMESTAMP
   | S_Int64 _ \<Rightarrow> TAG_INT64
   | S_Decimal128 _ \<Rightarrow> TAG_DECIMAL128
   | S_MinKey \<Rightarrow> TAG_MIN_KEY
   | S_MaxKey \<Rightarrow> TAG_MAX_KEY)"

text \<open>On a 64-bit target \<open>usize::try_from(u32)\<close> cannot fail, so \<open>"impossible length"\<close> never arises.\<close>

definition read_u32_as_usize :: "bytes \<Rightarrow> u8 \<Rightarrow> (scalar_error, nat \<times> bytes) result" where
  "read_u32_as_usize r tag = andthen (sread (read_u32_le r)) (\<lambda>(v, r). Ok (unat v, r))"

definition parse_string :: "bytes \<Rightarrow> u8 \<Rightarrow> (scalar_error, string \<times> bytes) result" where
  "parse_string r tag =
     andthen (read_u32_as_usize r tag) (\<lambda>(len, r).
     if len = 0 then Err (SE_Invalid tag ''zero-length string'')
     else andthen (sread (read_bytes (len - 1) r)) (\<lambda>(b, r).
          andthen (sread (read_u8 r)) (\<lambda>(nul, r).
          if nul \<noteq> 0 then Err (SE_Invalid tag ''string not NUL-terminated'')
          else andthen (ok_or SE_Utf8 (from_utf8 b)) (\<lambda>s. Ok (s, r)))))"

definition read_cstring_str :: "bytes \<Rightarrow> u8 \<Rightarrow> (scalar_error, string \<times> bytes) result" where
  "read_cstring_str r tag =
     andthen (sread (read_cstring r)) (\<lambda>(b, r).
     andthen (ok_or SE_Utf8 (from_utf8 b)) (\<lambda>s. Ok (s, r)))"

text \<open>The \<open>TAG_BINARY\<close> arm.\<close>

definition parse_binary :: "bytes \<Rightarrow> u8 \<Rightarrow> (scalar_error, binary \<times> bytes) result" where
  "parse_binary r tag =
     andthen (read_u32_as_usize r tag) (\<lambda>(len, r).
     andthen (sread (read_u8 r)) (\<lambda>(sb, r).
     andthen (subtype_from_u8 sb) (\<lambda>subtype.
     andthen (if subtype = BinaryOld then
           andthen (read_u32_as_usize r tag) (\<lambda>(inner, r).
           if inner + 4 \<noteq> len then Err (SE_Invalid tag ''old binary inner length mismatch'')
           else Ok (inner, r))
         else Ok (len, r)) (\<lambda>(payload_len, r).
     andthen (sread (read_bytes payload_len r)) (\<lambda>(b, r).
     Ok (\<lparr>bin_subtype = subtype, bin_bytes = b\<rparr>, r))))))"

text \<open>The \<open>match tag\<close> of \<open>parse_scalar\<close>, on the cursor.\<close>

definition parse_scalar_at :: "u8 \<Rightarrow> bytes \<Rightarrow> (scalar_error, scalar \<times> bytes) result" where
  "parse_scalar_at tag r =
     (if tag = TAG_DOUBLE then
        andthen (sread (read_bytes 8 r)) (\<lambda>(b, r). Ok (S_Double (from_le64 b), r))
      else if tag = TAG_STRING then andthen (parse_string r tag) (\<lambda>(s, r). Ok (S_String s, r))
      else if tag = TAG_BINARY then andthen (parse_binary r tag) (\<lambda>(b, r). Ok (S_Binary b, r))
      else if tag = TAG_UNDEFINED then Ok (S_Undefined, r)
      else if tag = TAG_OBJECT_ID then
        andthen (sread (read_bytes 12 r)) (\<lambda>(b, r). Ok (S_ObjectId b, r))
      else if tag = TAG_BOOL then
        andthen (sread (read_u8 r)) (\<lambda>(b, r).
          if b = 0 then Ok (S_Bool False, r)
          else if b = 1 then Ok (S_Bool True, r)
          else Err (SE_Invalid tag ''invalid bool byte''))
      else if tag = TAG_DATE_TIME then
        andthen (sread (read_i64_le r)) (\<lambda>(v, r). Ok (S_DateTime v, r))
      else if tag = TAG_NULL then Ok (S_Null, r)
      else if tag = TAG_REGEX then
        andthen (read_cstring_str r tag) (\<lambda>(pattern, r).
        andthen (read_cstring_str r tag) (\<lambda>(options, r).
        Ok (S_Regex \<lparr>re_pattern = pattern, re_options = options\<rparr>, r)))
      else if tag = TAG_DB_POINTER then
        andthen (parse_string r tag) (\<lambda>(namespace, r).
        andthen (sread (read_bytes 12 r)) (\<lambda>(oid, r).
        Ok (S_DbPointer \<lparr>dbp_namespace = namespace, dbp_id = oid\<rparr>, r)))
      else if tag = TAG_JAVASCRIPT then andthen (parse_string r tag) (\<lambda>(s, r). Ok (S_JavaScript s, r))
      else if tag = TAG_SYMBOL then andthen (parse_string r tag) (\<lambda>(s, r). Ok (S_Symbol s, r))
      else if tag = TAG_INT32 then
        andthen (sread (read_i32_le r)) (\<lambda>(v, r). Ok (S_Int32 v, r))
      else if tag = TAG_TIMESTAMP then
        andthen (sread (read_u32_le r)) (\<lambda>(increment, r).
        andthen (sread (read_u32_le r)) (\<lambda>(seconds, r).
        Ok (S_Timestamp \<lparr>ts_seconds = seconds, ts_increment = increment\<rparr>, r)))
      else if tag = TAG_INT64 then
        andthen (sread (read_i64_le r)) (\<lambda>(v, r). Ok (S_Int64 v, r))
      else if tag = TAG_DECIMAL128 then
        andthen (sread (read_bytes 16 r)) (\<lambda>(b, r). Ok (S_Decimal128 b, r))
      else if tag = TAG_MIN_KEY then Ok (S_MinKey, r)
      else if tag = TAG_MAX_KEY then Ok (S_MaxKey, r)
      else if tag = TAG_DOCUMENT \<or> tag = TAG_ARRAY \<or> tag = TAG_JAVASCRIPT_SCOPE then
        Err (SE_Invalid tag ''composite type; handled by wirebson'')
      else Err (SE_Invalid tag ''unknown element type''))"

definition parse_scalar :: "u8 \<Rightarrow> bytes \<Rightarrow> (scalar_error, scalar \<times> nat) result" where
  "parse_scalar tag input =
     andthen (parse_scalar_at tag input) (\<lambda>(scalar, r).
     andthen (usub (length input) (remaining r)) (\<lambda>consumed. Ok (scalar, consumed)))"

section \<open>Encoding\<close>

text \<open>
  The writers return the new buffer; on an error the partially written buffer is dropped, as
  every caller in the workspace does.
\<close>

definition encode_string :: "string \<Rightarrow> bytes \<Rightarrow> (scalar_error, bytes) result" where
  "encode_string v out =
     andthen (ok_or SE_OutOfRange (i32_try_from (length (as_bytes v) + 1))) (\<lambda>len.
     let out = put_i32_le len out;
         out = put_bytes (as_bytes v) out
     in Ok (put_u8 0 out))"

definition encode_binary :: "binary \<Rightarrow> bytes \<Rightarrow> (scalar_error, bytes) result" where
  "encode_binary b out =
     (let extra = (if bin_subtype b = BinaryOld then 4 else 0) in
      andthen (ok_or SE_OutOfRange (i32_try_from (length (bin_bytes b) + extra))) (\<lambda>len.
      let out = put_i32_le len out;
          out = put_u8 (subtype_to_u8 (bin_subtype b)) out in
      andthen (if bin_subtype b = BinaryOld
               then andthen (ok_or SE_OutOfRange (i32_try_from (length (bin_bytes b)))) (\<lambda>inner.
                    Ok (put_i32_le inner out))
               else Ok out) (\<lambda>out.
      Ok (put_bytes (bin_bytes b) out))))"

definition encode_regex :: "regex \<Rightarrow> bytes \<Rightarrow> (scalar_error, bytes) result" where
  "encode_regex r out =
     andthen (map_err (\<lambda>_. SE_Invalid TAG_REGEX ''interior NUL in pattern'') (put_cstring (re_pattern r) out)) (\<lambda>out.
     map_err (\<lambda>_. SE_Invalid TAG_REGEX ''interior NUL in options'') (put_cstring (re_options r) out))"

definition encode_scalar_at :: "scalar \<Rightarrow> bytes \<Rightarrow> (scalar_error, bytes) result" where
  "encode_scalar_at s out = (case s of
     S_Double v \<Rightarrow> Ok (put_bytes (to_le64 v) out)
   | S_String v \<Rightarrow> encode_string v out
   | S_Binary b \<Rightarrow> encode_binary b out
   | S_Undefined \<Rightarrow> Ok out
   | S_Null \<Rightarrow> Ok out
   | S_MinKey \<Rightarrow> Ok out
   | S_MaxKey \<Rightarrow> Ok out
   | S_ObjectId v \<Rightarrow> Ok (put_bytes v out)
   | S_Bool v \<Rightarrow> Ok (put_u8 (if v then 1 else 0) out)
   | S_DateTime v \<Rightarrow> Ok (put_i64_le v out)
   | S_Regex r \<Rightarrow> encode_regex r out
   | S_DbPointer p \<Rightarrow>
       andthen (encode_string (dbp_namespace p) out) (\<lambda>out. Ok (put_bytes (dbp_id p) out))
   | S_JavaScript v \<Rightarrow> encode_string v out
   | S_Symbol v \<Rightarrow> encode_string v out
   | S_Int32 v \<Rightarrow> Ok (put_i32_le v out)
   | S_Timestamp v \<Rightarrow> Ok (put_u32_le (ts_seconds v) (put_u32_le (ts_increment v) out))
   | S_Int64 v \<Rightarrow> Ok (put_i64_le v out)
   | S_Decimal128 v \<Rightarrow> Ok (put_bytes v out))"

definition encode_scalar :: "scalar \<Rightarrow> bytes \<Rightarrow> (scalar_error, bytes \<times> nat) result" where
  "encode_scalar s out =
     (let start = length out in
      andthen (encode_scalar_at s out) (\<lambda>out.
      andthen (usub (length out) start) (\<lambda>n. Ok (out, n))))"

section \<open>Object ids\<close>

definition hex_digit :: "u8 \<Rightarrow> u8 option" where
  "hex_digit b =
     (if 0x30 \<le> b \<and> b \<le> 0x39 then Some (b - 0x30)
      else if 0x61 \<le> b \<and> b \<le> 0x66 then Some (b - 0x61 + 10)
      else if 0x41 \<le> b \<and> b \<le> 0x46 then Some (b - 0x41 + 10)
      else None)"

definition HEX_DIGITS :: string where
  "HEX_DIGITS = ''0123456789abcdef''"

definition to_hex :: "object_id \<Rightarrow> string" where
  "to_hex oid = concat (map (\<lambda>b. [HEX_DIGITS ! unat (drop_bit 4 b), HEX_DIGITS ! unat (b AND 0x0F)]) oid)"

text \<open>The loop over \<open>chunks_exact(2)\<close>.\<close>

fun from_hex_pairs :: "bytes \<Rightarrow> (scalar_error, bytes) result" where
  "from_hex_pairs (a # b # rest) =
     andthen (ok_or (SE_Invalid TAG_OBJECT_ID ''object id hex string contains a non-hex character'') (hex_digit a)) (\<lambda>hi.
     andthen (ok_or (SE_Invalid TAG_OBJECT_ID ''object id hex string contains a non-hex character'') (hex_digit b)) (\<lambda>lo.
     andthen (from_hex_pairs rest) (\<lambda>bs. Ok ((push_bit 4 hi OR lo) # bs))))"
| "from_hex_pairs _ = Ok []"

definition from_hex :: "string \<Rightarrow> (scalar_error, object_id) result" where
  "from_hex s =
     (let input = as_bytes s in
      if length input \<noteq> 24
      then Err (SE_Invalid TAG_OBJECT_ID ''object id hex string must be 24 characters'')
      else from_hex_pairs input)"

text \<open>
  \<open>ObjectId::new\<close>: the wall clock (\<open>None\<close> before the epoch), the five random bytes and the
  process-global counter are arguments; the counter after \<open>fetch_add\<close> is returned.
\<close>

definition object_id_new :: "nat option \<Rightarrow> bytes \<Rightarrow> u32 \<Rightarrow> object_id \<times> u32" where
  "object_id_new now rnd counter =
     (let seconds = (case now of Some secs \<Rightarrow> word_of_nat secs | None \<Rightarrow> 0) :: u32
      in (rev (to_le32 seconds) @ take 5 rnd @ drop 1 (rev (to_le32 counter)), counter + 1))"

section \<open>The layout specification\<close>

fun subtype_ok :: "binary_subtype \<Rightarrow> bool" where
  "subtype_ok (UserDefined b) \<longleftrightarrow> 0x80 \<le> b"
| "subtype_ok _ \<longleftrightarrow> True"

definition scalar_ok :: "scalar \<Rightarrow> bool" where
  "scalar_ok s = (case s of
     S_String v \<Rightarrow> wf_str v
   | S_Binary b \<Rightarrow> subtype_ok (bin_subtype b)
   | S_ObjectId v \<Rightarrow> length v = 12
   | S_Regex r \<Rightarrow> wf_str (re_pattern r) \<and> wf_str (re_options r)
        \<and> 0 \<notin> set (as_bytes (re_pattern r)) \<and> 0 \<notin> set (as_bytes (re_options r))
   | S_DbPointer p \<Rightarrow> wf_str (dbp_namespace p) \<and> length (dbp_id p) = 12
   | S_JavaScript v \<Rightarrow> wf_str v
   | S_Symbol v \<Rightarrow> wf_str v
   | S_Decimal128 v \<Rightarrow> length v = 16
   | _ \<Rightarrow> True)"

definition scalar_len_field :: "scalar \<Rightarrow> nat" where
  "scalar_len_field s = (case s of
     S_String v \<Rightarrow> length v + 1
   | S_Binary b \<Rightarrow> length (bin_bytes b) + (if bin_subtype b = BinaryOld then 4 else 0)
   | S_DbPointer p \<Rightarrow> length (dbp_namespace p) + 1
   | S_JavaScript v \<Rightarrow> length v + 1
   | S_Symbol v \<Rightarrow> length v + 1
   | _ \<Rightarrow> 0)"

definition string_bytes :: "string \<Rightarrow> bytes" where
  "string_bytes v = to_le32 (u32_of_nat (length v + 1)) @ as_bytes v @ [0]"

definition scalar_bytes :: "scalar \<Rightarrow> bytes" where
  "scalar_bytes s = (case s of
     S_Double v \<Rightarrow> to_le64 v
   | S_String v \<Rightarrow> string_bytes v
   | S_Binary b \<Rightarrow>
       to_le32 (u32_of_nat (scalar_len_field s)) @ [subtype_to_u8 (bin_subtype b)]
         @ (if bin_subtype b = BinaryOld then to_le32 (u32_of_nat (length (bin_bytes b))) else [])
         @ bin_bytes b
   | S_ObjectId v \<Rightarrow> v
   | S_Bool v \<Rightarrow> [if v then 1 else 0]
   | S_DateTime v \<Rightarrow> to_le64 v
   | S_Regex r \<Rightarrow> as_bytes (re_pattern r) @ [0] @ as_bytes (re_options r) @ [0]
   | S_DbPointer p \<Rightarrow> string_bytes (dbp_namespace p) @ dbp_id p
   | S_JavaScript v \<Rightarrow> string_bytes v
   | S_Symbol v \<Rightarrow> string_bytes v
   | S_Int32 v \<Rightarrow> to_le32 v
   | S_Timestamp v \<Rightarrow> to_le32 (ts_increment v) @ to_le32 (ts_seconds v)
   | S_Int64 v \<Rightarrow> to_le64 v
   | S_Decimal128 v \<Rightarrow> v
   | _ \<Rightarrow> [])"

lemma subtype_from_to [simp, wire_simps]: "subtype_ok t \<Longrightarrow> subtype_from_u8 (subtype_to_u8 t) = Ok t"
  by (cases t) (auto simp: subtype_from_u8_def word_le_nat_alt word_less_nat_alt)

lemma subtype_from_u8_Ok: "subtype_from_u8 b = Ok t \<longleftrightarrow> subtype_ok t \<and> b = subtype_to_u8 t"
proof
  assume a: "subtype_from_u8 b = Ok t"
  show "subtype_ok t \<and> b = subtype_to_u8 t"
  proof (cases "b \<le> 0x06")
    case True
    then have "b \<in> {0,1,2,3,4,5,6}"
      by (simp add: word_le_nat_alt word_unat_eq_iff) arith
    with a show ?thesis by (auto simp: subtype_from_u8_def)
  next
    case False
    with a show ?thesis 
      by (auto simp: subtype_from_u8_def word_le_nat_alt split: if_splits)
  qed
qed simp

lemma subtype_from_u8_old: "subtype_from_u8 2 = Ok BinaryOld"
  by (simp add: subtype_from_u8_def)

lemma subtype_from_u8_panic [simp, panic_free]: "subtype_from_u8 b \<noteq> Panic"
  by (simp add: subtype_from_u8_def)

lemma parse_string_Ok:
  "parse_string r tag = Ok (s, r') \<longleftrightarrow> wf_str s \<and> length s + 1 < 4294967296 \<and> r = string_bytes s @ r'"
proof
  assume "parse_string r tag = Ok (s, r')"
  then obtain len b where r: "r = to_le32 len @ b @ 0 # r'"
    and len: "unat len = length b + 1" and s: "from_utf8 b = Some s"
    by (auto simp: parse_string_def read_u32_as_usize_def andthen_eq_Ok read_field_Ok read_bytes_Ok
        split: if_splits)
  from r u32_eq_of_nat [OF len] from_utf8_Some_wf [OF s] len unat_word32_less [of len]
  show "wf_str s \<and> length s + 1 < 4294967296 \<and> r = string_bytes s @ r'"
    by (auto simp: string_bytes_def)
next
  assume "wf_str s \<and> length s + 1 < 4294967296 \<and> r = string_bytes s @ r'"
  then show "parse_string r tag = Ok (s, r')"
    by (simp add: parse_string_def read_u32_as_usize_def string_bytes_def)
qed

lemma parse_string_panic [simp, panic_free]: "parse_string r tag \<noteq> Panic"
  by (auto simp: parse_string_def read_u32_as_usize_def andthen_eq_Panic split: if_splits)

lemma read_cstring_str_Ok:
  "read_cstring_str r tag = Ok (s, r') \<longleftrightarrow> wf_str s \<and> 0 \<notin> set (as_bytes s) \<and> r = as_bytes s @ 0 # r'"
  by (auto simp: read_cstring_str_def andthen_eq_Ok read_cstring_Ok dest: from_utf8_Some_wf)

lemma read_cstring_str_panic [simp, panic_free]: "read_cstring_str r tag \<noteq> Panic"
  by (auto simp: read_cstring_str_def andthen_eq_Panic)

lemma parse_binary_Ok:
  "parse_binary r tag = Ok (b, r') \<longleftrightarrow>
     scalar_ok (S_Binary b) \<and> scalar_len_field (S_Binary b) < 4294967296 \<and> r = scalar_bytes (S_Binary b) @ r'"
proof
  assume a: "parse_binary r tag = Ok (b, r')"
  show "scalar_ok (S_Binary b) \<and> scalar_len_field (S_Binary b) < 4294967296 \<and> r = scalar_bytes (S_Binary b) @ r'"
  proof (cases "bin_subtype b = BinaryOld")
    case True
    with a obtain len inner where
      "r = to_le32 len @ 2 # to_le32 inner @ bin_bytes b @ r'"
      and "unat inner + 4 = unat len" and "unat inner = length (bin_bytes b)"
      by (auto simp: parse_binary_def read_u32_as_usize_def andthen_eq_Ok read_field_Ok read_bytes_Ok
          subtype_from_u8_Ok split: if_splits)
    then show ?thesis using True unat_word32_less [of len]
      by (auto simp: scalar_ok_def scalar_len_field_def scalar_bytes_def dest!: sym [of _ "unat _"] u32_eq_of_nat)
  next
    case False
    with a obtain len where
      "r = to_le32 len @ subtype_to_u8 (bin_subtype b) # bin_bytes b @ r'"
      and "unat len = length (bin_bytes b)" and "subtype_ok (bin_subtype b)"
      by (auto simp: parse_binary_def read_u32_as_usize_def andthen_eq_Ok read_field_Ok read_bytes_Ok
          subtype_from_u8_Ok split: if_splits)
    then show ?thesis using False unat_word32_less [of len]
      by (auto simp: scalar_ok_def scalar_len_field_def scalar_bytes_def dest!: u32_eq_of_nat)
  qed
next
  assume "scalar_ok (S_Binary b) \<and> scalar_len_field (S_Binary b) < 4294967296 \<and> r = scalar_bytes (S_Binary b) @ r'"
  then show "parse_binary r tag = Ok (b, r')"
    by (cases "bin_subtype b = BinaryOld")
      (auto simp: parse_binary_def read_u32_as_usize_def scalar_ok_def scalar_len_field_def
        scalar_bytes_def subtype_from_u8_old)
qed

lemma parse_binary_panic [simp, panic_free]: "parse_binary r tag \<noteq> Panic"
  by (auto simp: parse_binary_def read_u32_as_usize_def andthen_eq_Panic split: if_splits)

lemma scalar_layout_simps [simp]:
  "scalar_bytes (S_Double d) = to_le64 d" "scalar_bytes (S_String v) = string_bytes v"
  "scalar_bytes S_Undefined = []" "scalar_bytes (S_ObjectId oid) = oid" "scalar_bytes (S_Bool x) = [if x then 1 else 0]"
  "scalar_bytes (S_DateTime i) = to_le64 i" "scalar_bytes S_Null = []"
  "scalar_bytes (S_Regex re) = as_bytes (re_pattern re) @ [0] @ as_bytes (re_options re) @ [0]"
  "scalar_bytes (S_DbPointer p) = string_bytes (dbp_namespace p) @ dbp_id p"
  "scalar_bytes (S_JavaScript v) = string_bytes v" "scalar_bytes (S_Symbol v) = string_bytes v"
  "scalar_bytes (S_Int32 k) = to_le32 k"
  "scalar_bytes (S_Timestamp ts) = to_le32 (ts_increment ts) @ to_le32 (ts_seconds ts)"
  "scalar_bytes (S_Int64 i) = to_le64 i" "scalar_bytes (S_Decimal128 dec) = dec"
  "scalar_bytes S_MinKey = []" "scalar_bytes S_MaxKey = []"
  by (simp_all add: scalar_bytes_def)

lemma scalar_ok_simps [simp]:
  "scalar_ok (S_Double d)" "scalar_ok (S_String v) = wf_str v" "scalar_ok S_Undefined"
  "scalar_ok (S_ObjectId oid) = (length oid = 12)" "scalar_ok (S_Bool x)" "scalar_ok (S_DateTime i)"
  "scalar_ok S_Null"
  "scalar_ok (S_Regex re) = (wf_str (re_pattern re) \<and> wf_str (re_options re)
     \<and> 0 \<notin> set (as_bytes (re_pattern re)) \<and> 0 \<notin> set (as_bytes (re_options re)))"
  "scalar_ok (S_DbPointer p) = (wf_str (dbp_namespace p) \<and> length (dbp_id p) = 12)"
  "scalar_ok (S_JavaScript v) = wf_str v" "scalar_ok (S_Symbol v) = wf_str v" "scalar_ok (S_Int32 k)"
  "scalar_ok (S_Timestamp ts)" "scalar_ok (S_Int64 i)" "scalar_ok (S_Decimal128 dec) = (length dec = 16)"
  "scalar_ok S_MinKey" "scalar_ok S_MaxKey"
  by (simp_all add: scalar_ok_def)

lemma scalar_len_field_simps [simp]:
  "scalar_len_field (S_Double d) = 0" "scalar_len_field (S_String v) = length v + 1"
  "scalar_len_field S_Undefined = 0" "scalar_len_field (S_ObjectId oid) = 0" "scalar_len_field (S_Bool x) = 0"
  "scalar_len_field (S_DateTime i) = 0" "scalar_len_field S_Null = 0" "scalar_len_field (S_Regex re) = 0"
  "scalar_len_field (S_DbPointer p) = length (dbp_namespace p) + 1"
  "scalar_len_field (S_JavaScript v) = length v + 1" "scalar_len_field (S_Symbol v) = length v + 1"
  "scalar_len_field (S_Int32 k) = 0" "scalar_len_field (S_Timestamp ts) = 0" "scalar_len_field (S_Int64 i) = 0"
  "scalar_len_field (S_Decimal128 dec) = 0" "scalar_len_field S_MinKey = 0" "scalar_len_field S_MaxKey = 0"
  by (simp_all add: scalar_len_field_def)

lemma scalar_len_field_le: "scalar_len_field s \<le> length (scalar_bytes s)"
  by (cases s) (simp_all add: string_bytes_def scalar_len_field_def scalar_bytes_def)

lemma parse_scalar_at_Ok_layout:
  assumes "parse_scalar_at tag r = Ok (s, r')"
  shows "tag = tag_of s \<and> scalar_ok s \<and> scalar_len_field s < 4294967296 \<and> r = scalar_bytes s @ r'"
  using assms
  by (auto simp: parse_scalar_at_def andthen_eq_Ok read_bytes_Ok read_field_Ok parse_string_Ok
      parse_binary_Ok read_cstring_str_Ok tag_of_def to_from_le64 split: if_splits)

lemma parse_scalar_at_layout [simp]:
  assumes "scalar_ok s" "scalar_len_field s < 4294967296"
  shows "parse_scalar_at (tag_of s) (scalar_bytes s @ r) = Ok (s, r)"
proof (cases s)
  case (S_Binary b)
  then have "parse_binary (scalar_bytes s @ r) TAG_BINARY = Ok (b, r)"
    using assms by (simp add: parse_binary_Ok)
  then show ?thesis using S_Binary by (simp add: parse_scalar_at_def tag_of_def)
next
  case (S_String v)
  then have "parse_string (string_bytes v @ r) TAG_STRING = Ok (v, r)"
    using assms by (simp add: parse_string_Ok)
  then show ?thesis using S_String by (simp add: parse_scalar_at_def tag_of_def)
next
  case (S_JavaScript v)
  then have "parse_string (string_bytes v @ r) TAG_JAVASCRIPT = Ok (v, r)"
    using assms by (simp add: parse_string_Ok)
  then show ?thesis using S_JavaScript by (simp add: parse_scalar_at_def tag_of_def)
next
  case (S_Symbol v)
  then have "parse_string (string_bytes v @ r) TAG_SYMBOL = Ok (v, r)"
    using assms by (simp add: parse_string_Ok)
  then show ?thesis using S_Symbol by (simp add: parse_scalar_at_def tag_of_def)
next
  case (S_DbPointer p)
  then have "parse_string (string_bytes (dbp_namespace p) @ dbp_id p @ r) TAG_DB_POINTER
      = Ok (dbp_namespace p, dbp_id p @ r)"
    using assms by (simp add: parse_string_Ok)
  then show ?thesis using S_DbPointer assms by (simp add: parse_scalar_at_def tag_of_def)
qed (use assms in \<open>simp_all add: parse_scalar_at_def tag_of_def read_cstring_str_def\<close>)

lemma parse_scalar_at_panic [simp, panic_free]: "parse_scalar_at tag r \<noteq> Panic"
  by (auto simp: parse_scalar_at_def andthen_eq_Panic split: if_splits)

lemma encode_string_eq:
  "encode_string v out =
     (if length v + 1 \<le> 2147483647 then Ok (out @ string_bytes v) else Err SE_OutOfRange)"
  by (simp add: encode_string_def i32_try_from_def string_bytes_def put_defs Let_def)

lemma encode_binary_eq:
  "encode_binary b out =
     (if scalar_len_field (S_Binary b) \<le> 2147483647 then Ok (out @ scalar_bytes (S_Binary b))
      else Err SE_OutOfRange)"
  by (auto simp: encode_binary_def i32_try_from_def scalar_len_field_def scalar_bytes_def put_defs Let_def)

lemma encode_scalar_at_layout:
  assumes "scalar_ok s"
  shows "encode_scalar_at s out =
     (if scalar_len_field s \<le> 2147483647 then Ok (out @ scalar_bytes s) else Err SE_OutOfRange)"
  using assms
  by (cases s) (simp_all add: encode_scalar_at_def encode_string_eq encode_binary_eq encode_regex_def put_defs)

lemma encode_scalar_at_extends: "encode_scalar_at s out = Ok out' \<Longrightarrow> \<exists>b. out' = out @ b"
  by (cases s) (auto simp: encode_scalar_at_def encode_string_eq encode_binary_eq encode_regex_def put_defs
      put_cstring_def andthen_eq_Ok split: if_splits)

lemma encode_scalar_at_panic [simp, panic_free]: "encode_scalar_at s out \<noteq> Panic"
  by (cases s) (auto simp: encode_scalar_at_def encode_string_eq encode_binary_eq encode_regex_def
      andthen_eq_Panic)

lemma encode_scalar_layout:
  assumes "scalar_ok s"
  shows "encode_scalar s out =
     (if scalar_len_field s \<le> 2147483647 then Ok (out @ scalar_bytes s, length (scalar_bytes s))
      else Err SE_OutOfRange)"
  using encode_scalar_at_layout [OF assms, of out] by (simp add: encode_scalar_def)

lemma encode_scalar_panic [simp, panic_free]: "encode_scalar s out \<noteq> Panic"
  by (auto simp: encode_scalar_def Let_def andthen_eq_Panic usub_def dest!: encode_scalar_at_extends)

lemma parse_scalar_Ok:
  "parse_scalar tag input = Ok (s, n) \<longleftrightarrow>
     tag = tag_of s \<and> scalar_ok s \<and> scalar_len_field s < 4294967296
     \<and> n = length (scalar_bytes s) \<and> take n input = scalar_bytes s" (is "?l \<longleftrightarrow> ?r")
proof
  assume ?l
  then obtain r where "parse_scalar_at tag input = Ok (s, r)" and n: "n = length input - length r"
    by (auto simp: parse_scalar_def andthen_eq_Ok usub_eq_Ok remaining_def)
  from parse_scalar_at_Ok_layout [OF this(1)] n show ?r by auto
next
  assume r: ?r
  then have "input = scalar_bytes s @ drop n input"
    by (metis append_take_drop_id)
  then obtain r where "input = scalar_bytes s @ r" by blast
  with r show ?l by (simp add: parse_scalar_def remaining_def)
qed

lemma parse_scalar_panic [simp, panic_free]: "parse_scalar tag input \<noteq> Panic"
  by (auto simp: parse_scalar_def andthen_eq_Panic usub_def remaining_def dest!: parse_scalar_at_Ok_layout)

text \<open>
  Scalar round trip: whatever \<open>encode_scalar\<close> appends for a well-formed scalar, \<open>parse_scalar\<close>
  reads back from the element tag and the buffer at that position, reporting exactly the number
  of bytes that were written, whatever follows them.
\<close>

theorem scalar_round_trip:
  assumes "scalar_ok s" and "encode_scalar s out = Ok (out', n)"
  shows "\<exists>b. out' = out @ b \<and> length b = n \<and> parse_scalar (tag_of s) (b @ rest) = Ok (s, n)"
  using assms by (auto simp: encode_scalar_layout parse_scalar_Ok split: if_splits)

theorem scalar_round_trip_witness:
  "\<exists>b. [0x2A, 2, 0, 0, 0, 0x78, 0] = [0x2A] @ b \<and> length b = 6
      \<and> parse_scalar (tag_of (S_String ''x'')) (b @ [7]) = Ok (S_String ''x'', 6)"
proof (rule scalar_round_trip)
  show "scalar_ok (S_String ''x'')" by (simp add: wf_str_def as_bytes_def byte_of_char_def)
  show "encode_scalar (S_String ''x'') [0x2A] = Ok ([0x2A, 2, 0, 0, 0, 0x78, 0], 6)"
    by (simp add: encode_scalar_def encode_scalar_at_def encode_string_eq string_bytes_def
        eval_simps)
qed

text \<open>
  Parsing is faithful to the byte: if \<open>parse_scalar\<close> accepts an input and reports \<open>n\<close> bytes
  consumed, the tag it was given is the tag of the result, the result is well formed, and encoding
  it again writes exactly those \<open>n\<close> bytes, unless a length field exceeds \<open>i32::MAX\<close>, in which
  case \<open>encode_scalar\<close> reports \<open>OutOfRange\<close>.
\<close>

theorem scalar_reencode_exact:
  assumes "parse_scalar tag input = Ok (s, n)"
  shows "tag = tag_of s \<and> scalar_ok s \<and> n \<le> length input \<and>
    encode_scalar s out =
      (if scalar_len_field s \<le> 2147483647 then Ok (out @ take n input, n) else Err SE_OutOfRange)"
proof -
  from assms have t: "take n input = scalar_bytes s" and n: "n = length (scalar_bytes s)" and ok: "scalar_ok s"
    and tag: "tag = tag_of s"
    by (auto simp: parse_scalar_Ok)
  from t n have "n \<le> length input" by (metis length_take min.absorb_iff2 min.commute)
  with encode_scalar_layout [OF ok, of out] t n ok tag show ?thesis by simp
qed

theorem scalar_reencode_exact_witness:
  "TAG_BOOL = tag_of (S_Bool True) \<and> scalar_ok (S_Bool True) \<and> 1 \<le> length [1, 9 :: u8] \<and>
    encode_scalar (S_Bool True) [5] =
      (if scalar_len_field (S_Bool True) \<le> 2147483647 then Ok ([5] @ take 1 [1, 9], 1) else Err SE_OutOfRange)"
  by (rule scalar_reencode_exact) (simp add: parse_scalar_Ok tag_of_def)

section \<open>Object ids: hexadecimal form\<close>

lemma nibbles: "push_bit 4 (drop_bit 4 b) OR (b AND 0x0F) = (b :: u8)"
proof -
  have "b AND 0x0F = take_bit 4 b" by (simp add: take_bit_eq_mask mask_numeral)
  then show ?thesis by (simp add: bit_eq_iff bit_simps) (auto simp: bit_simps)
qed


lemma hex_digit_HEX_all: "list_all (\<lambda>n. hex_digit (byte_of_char (HEX_DIGITS ! n)) = Some (word_of_nat n)) [0..<16]"
  by code_simp

lemma hex_digit_HEX: "n < 16 \<Longrightarrow> hex_digit (byte_of_char (HEX_DIGITS ! n)) = Some (word_of_nat n)"
  using hex_digit_HEX_all by (simp add: list_all_iff)

lemma unat_hi_nibble: "unat (drop_bit 4 (b :: u8)) < 16"
  using unat_byte_less [of b] by (simp add: drop_bit_eq_div unat_div)

lemma unat_lo_nibble: "unat ((b :: u8) AND 0x0F) < 16"
proof -
  have "b AND 0x0F = take_bit 4 b" by (simp add: take_bit_eq_mask mask_numeral)
  then show ?thesis by (simp add: take_bit_eq_mod unat_mod)
qed

lemma from_hex_pairs_to_hex: "from_hex_pairs (as_bytes (to_hex oid)) = Ok oid"
  by (induction oid) (simp_all add: to_hex_def as_bytes_def hex_digit_HEX unat_hi_nibble unat_lo_nibble nibbles)

lemma length_to_hex [simp]: "length (to_hex oid) = 2 * length oid"
  by (induction oid) (simp_all add: to_hex_def)

text \<open>
  The hexadecimal form of an object id is 24 characters long and reads back to the same id.
\<close>

theorem object_id_hex_round_trip:
  assumes "length oid = 12"
  shows "length (to_hex oid) = 24 \<and> from_hex (to_hex oid) = Ok oid"
  using assms by (simp add: from_hex_def from_hex_pairs_to_hex)

theorem object_id_hex_round_trip_witness:
  "length (to_hex [1,2,3,4,5,6,7,8,9,10,0xAB,0xFF]) = 24
   \<and> from_hex (to_hex [1,2,3,4,5,6,7,8,9,10,0xAB,0xFF]) = Ok [1,2,3,4,5,6,7,8,9,10,0xAB,0xFF]"
  by (rule object_id_hex_round_trip) simp

section \<open>Object ids: generation\<close>

fun object_ids :: "(nat option \<times> bytes) list \<Rightarrow> u32 \<Rightarrow> object_id list" where
  "object_ids [] counter = []"
| "object_ids ((now, rnd) # calls) counter =
     (let (oid, counter) = object_id_new now rnd counter in oid # object_ids calls counter)"

lemma counter_tail: "drop (Suc 0) (rev (to_le32 c)) = rev (le_bytes 3 (unat c))"
  by (simp add: to_le32_def eval_simps)

lemma length_object_ids [simp]: "length (object_ids calls c) = length calls"
  by (induction calls c rule: object_ids.induct) (auto simp: split: prod.splits)

lemma nth_object_ids:
  "i < length calls \<Longrightarrow> object_ids calls c ! i
     = fst (object_id_new (fst (calls ! i)) (snd (calls ! i)) (c + word_of_nat i))"
proof (induction calls arbitrary: i c)
  case (Cons call calls)
  then show ?case
    by (cases call; cases i) (auto simp: object_id_new_def Let_def algebra_simps)
qed simp

lemma object_id_counter:
  "length rnd = 5 \<Longrightarrow> of_le (rev (drop 9 (fst (object_id_new now rnd c)))) = unat c mod 16777216"
  using of_le_le_bytes [of 3 "unat c"] by (simp add: object_id_new_def counter_tail)

lemma add_mod_inj:
  assumes "(c + i) mod m = (c + j) mod m" "i < m" "j < (m :: nat)"
  shows "i = j"
proof -
  have "int m dvd int (c + i) - int (c + j)"
    using assms(1) by (metis mod_eq_dvd_iff of_nat_mod)
  then have "int m dvd int i - int j" by simp
  then have d: "int m dvd int i - int j" .
  show ?thesis
  proof (rule ccontr)
    assume "i \<noteq> j"
    then have "int i - int j \<noteq> 0" by simp
    from dvd_imp_le_int [OF this d] assms(2,3) show False by (simp add: abs_if split: if_splits)
  qed
qed

lemma unat_add_mod: "unat (c + word_of_nat i :: u32) mod 16777216 = (unat c + i) mod 16777216"
proof -
  have "unat (c + word_of_nat i) = (unat c + i) mod 4294967296"
    by (simp add: unat_word_ariths unat_of_nat mod_simps)
  then show ?thesis by (simp add: mod_mod_cancel)
qed

text \<open>
  Ids generated by one process are pairwise distinct as long as no more than \<open>2^24\<close> of them
  are drawn in a row, whatever the clock does and even if the random part repeats: the three
  counter bytes alone separate them.
\<close>

theorem object_ids_distinct:
  assumes "length calls \<le> 16777216" and "\<forall>call \<in> set calls. length (snd call) = 5"
  shows "distinct (object_ids calls counter)"
proof (unfold distinct_conv_nth, intro allI impI)
  fix i j
  assume ij: "i < length (object_ids calls counter)" "j < length (object_ids calls counter)" "i \<noteq> j"
  define key :: "object_id \<Rightarrow> nat" where "key oid = of_le (rev (drop 9 oid))" for oid
  have key: "key (object_ids calls counter ! k) = (unat counter + k) mod 16777216" if "k < length calls" for k
    using that assms(2) by (simp add: key_def nth_object_ids object_id_counter unat_add_mod)
  show "object_ids calls counter ! i \<noteq> object_ids calls counter ! j"
  proof
    assume "object_ids calls counter ! i = object_ids calls counter ! j"
    with key [of i] key [of j] ij have "(unat counter + i) mod 16777216 = (unat counter + j) mod 16777216" by simp
    with add_mod_inj [OF this] ij assms(1) show False by simp
  qed
qed

theorem object_ids_distinct_witness:
  "distinct (object_ids [(Some 1, [1,2,3,4,5]), (None, [1,2,3,4,5])] 0xFFFFFFFF)"
  by (rule object_ids_distinct) simp_all

end
