(* ===== verification/Bson_Value.thy ===== *)
theory Bson_Value
  imports Bson_Scalar
begin

text \<open>
  The value types of \<open>wirebson\<close>: the eager \<open>Bson\<close> (\<open>value.rs\<close>), the raw field value
  \<open>RawBsonRef\<close> (\<open>raw_value.rs\<close>), the errors of the crate (\<open>error.rs\<close>) and the operations of
  \<open>Document\<close> (\<open>document.rs\<close>) and \<open>Array\<close> (\<open>array.rs\<close>).  A \<open>Document\<close> is its field list, so
  order and duplicates are kept; a raw document is its byte string.  The locale \<open>field_store\<close>
  is the contract of a collection of named fields and is interpreted on \<open>Document\<close>.
\<close>

section \<open>Errors of the crate\<close>

datatype bson_error =
    BE_ShortInput nat nat
  | BE_InvalidInput nat string
  | BE_LengthMismatch nat nat
  | BE_Utf8
  | BE_NestedTooDeep nat
  | BE_Scalar scalar_error

section \<open>Values\<close>

type_synonym raw_document = bytes
type_synonym raw_array = bytes

datatype bson =
    B_Double f64
  | B_String string
  | B_Document "(string \<times> bson) list"
  | B_Array "bson list"
  | B_Binary binary
  | B_Undefined
  | B_ObjectId object_id
  | B_Bool bool
  | B_DateTime i64
  | B_Null
  | B_Regex regex
  | B_DbPointer db_pointer
  | B_JavaScript string
  | B_Symbol string
  | B_JavaScriptScope (js_code: string) (js_scope: raw_document)
  | B_Int32 i32
  | B_Timestamp timestamp
  | B_Int64 i64
  | B_Decimal128 decimal128
  | B_MinKey
  | B_MaxKey

type_synonym field = "string \<times> bson"
type_synonym document = "field list"
type_synonym array = "bson list"

datatype raw_bson =
    R_Double f64
  | R_String string
  | R_Document raw_document
  | R_Array raw_array
  | R_Binary binary
  | R_Undefined
  | R_ObjectId object_id
  | R_Bool bool
  | R_DateTime i64
  | R_Null
  | R_Regex regex
  | R_DbPointer db_pointer
  | R_JavaScript string
  | R_Symbol string
  | R_JavaScriptScope (raw_code: string) (raw_scope: raw_document)
  | R_Int32 i32
  | R_Timestamp timestamp
  | R_Int64 i64
  | R_Decimal128 decimal128
  | R_MinKey
  | R_MaxKey

text \<open>\<open>Bson::tag\<close>.\<close>

definition bson_tag :: "bson \<Rightarrow> u8" where
  "bson_tag v = (case v of
     B_Double _ \<Rightarrow> TAG_DOUBLE
   | B_String _ \<Rightarrow> TAG_STRING
   | B_Document _ \<Rightarrow> TAG_DOCUMENT
   | B_Array _ \<Rightarrow> TAG_ARRAY
   | B_Binary _ \<Rightarrow> TAG_BINARY
   | B_Undefined \<Rightarrow> TAG_UNDEFINED
   | B_ObjectId _ \<Rightarrow> TAG_OBJECT_ID
   | B_Bool _ \<Rightarrow> TAG_BOOL
   | B_DateTime _ \<Rightarrow> TAG_DATE_TIME
   | B_Null \<Rightarrow> TAG_NULL
   | B_Regex _ \<Rightarrow> TAG_REGEX
   | B_DbPointer _ \<Rightarrow> TAG_DB_POINTER
   | B_JavaScript _ \<Rightarrow> TAG_JAVASCRIPT
   | B_Symbol _ \<Rightarrow> TAG_SYMBOL
   | B_JavaScriptScope _ _ \<Rightarrow> TAG_JAVASCRIPT_SCOPE
   | B_Int32 _ \<Rightarrow> TAG_INT32
   | B_Timestamp _ \<Rightarrow> TAG_TIMESTAMP
   | B_Int64 _ \<Rightarrow> TAG_INT64
   | B_Decimal128 _ \<Rightarrow> TAG_DECIMAL128
   | B_MinKey \<Rightarrow> TAG_MIN_KEY
   | B_MaxKey \<Rightarrow> TAG_MAX_KEY)"

definition as_scalar :: "bson \<Rightarrow> scalar option" where
  "as_scalar v = (case v of
     B_Double x \<Rightarrow> Some (S_Double x)
   | B_String x \<Rightarrow> Some (S_String x)
   | B_Binary x \<Rightarrow> Some (S_Binary x)
   | B_Undefined \<Rightarrow> Some S_Undefined
   | B_ObjectId x \<Rightarrow> Some (S_ObjectId x)
   | B_Bool x \<Rightarrow> Some (S_Bool x)
   | B_DateTime x \<Rightarrow> Some (S_DateTime x)
   | B_Null \<Rightarrow> Some S_Null
   | B_Regex x \<Rightarrow> Some (S_Regex x)
   | B_DbPointer x \<Rightarrow> Some (S_DbPointer x)
   | B_JavaScript x \<Rightarrow> Some (S_JavaScript x)
   | B_Symbol x \<Rightarrow> Some (S_Symbol x)
   | B_Int32 x \<Rightarrow> Some (S_Int32 x)
   | B_Timestamp x \<Rightarrow> Some (S_Timestamp x)
   | B_Int64 x \<Rightarrow> Some (S_Int64 x)
   | B_Decimal128 x \<Rightarrow> Some (S_Decimal128 x)
   | B_MinKey \<Rightarrow> Some S_MinKey
   | B_MaxKey \<Rightarrow> Some S_MaxKey
   | B_Document _ \<Rightarrow> None
   | B_Array _ \<Rightarrow> None
   | B_JavaScriptScope _ _ \<Rightarrow> None)"

text \<open>\<open>impl From<Scalar> for Bson\<close>.\<close>

fun bson_of_scalar :: "scalar \<Rightarrow> bson" where
  "bson_of_scalar (S_Double x) = B_Double x"
| "bson_of_scalar (S_String x) = B_String x"
| "bson_of_scalar (S_Binary x) = B_Binary x"
| "bson_of_scalar S_Undefined = B_Undefined"
| "bson_of_scalar (S_ObjectId x) = B_ObjectId x"
| "bson_of_scalar (S_Bool x) = B_Bool x"
| "bson_of_scalar (S_DateTime x) = B_DateTime x"
| "bson_of_scalar S_Null = B_Null"
| "bson_of_scalar (S_Regex x) = B_Regex x"
| "bson_of_scalar (S_DbPointer x) = B_DbPointer x"
| "bson_of_scalar (S_JavaScript x) = B_JavaScript x"
| "bson_of_scalar (S_Symbol x) = B_Symbol x"
| "bson_of_scalar (S_Int32 x) = B_Int32 x"
| "bson_of_scalar (S_Timestamp x) = B_Timestamp x"
| "bson_of_scalar (S_Int64 x) = B_Int64 x"
| "bson_of_scalar (S_Decimal128 x) = B_Decimal128 x"
| "bson_of_scalar S_MinKey = B_MinKey"
| "bson_of_scalar S_MaxKey = B_MaxKey"

lemma as_scalar_bson_of_scalar [simp]: "as_scalar (bson_of_scalar s) = Some s"
  by (cases s) (simp_all add: as_scalar_def)

lemma bson_of_as_scalar: "as_scalar v = Some s \<Longrightarrow> v = bson_of_scalar s"
  by (cases v) (auto simp: as_scalar_def)

lemma bson_tag_of_scalar [simp]: "bson_tag (bson_of_scalar s) = tag_of s"
  by (cases s) (simp_all add: bson_tag_def tag_of_def)

lemma bson_tag_composite [simp]:
  "bson_tag (B_Document fs) = TAG_DOCUMENT" "bson_tag (B_Array vs) = TAG_ARRAY"
  "bson_tag (B_JavaScriptScope c sc) = TAG_JAVASCRIPT_SCOPE"
  by (simp_all add: bson_tag_def)

lemma bson_cases_scalar [case_names Document Array Scope Scalar]:
  obtains (Document) fs where "v = B_Document fs"
    | (Array) vs where "v = B_Array vs"
    | (Scope) c s where "v = B_JavaScriptScope c s"
    | (Scalar) s where "v = bson_of_scalar s"
proof (cases "as_scalar v")
  case None
  then show ?thesis using that by (cases v) (auto simp: as_scalar_def)
next
  case (Some s)
  then show ?thesis using that bson_of_as_scalar by blast
qed

section \<open>Document\<close>

definition document_new :: document where
  "document_new = []"

definition document_len :: "document \<Rightarrow> nat" where
  "document_len fs = length fs"

definition document_is_empty :: "document \<Rightarrow> bool" where
  "document_is_empty fs \<longleftrightarrow> fs = []"

definition document_add :: "string \<Rightarrow> bson \<Rightarrow> document \<Rightarrow> document" where
  "document_add name v fs = fs @ [(name, v)]"

definition document_get :: "document \<Rightarrow> string \<Rightarrow> bson option" where
  "document_get fs name = map_option snd (find (\<lambda>f. fst f = name) fs)"

text \<open>
  \<open>get_mut\<close> lends the first match for writing: the current value with the document that results
  from storing through the reference.
\<close>

fun document_get_mut :: "document \<Rightarrow> string \<Rightarrow> (bson \<times> (bson \<Rightarrow> document)) option" where
  "document_get_mut [] name = None"
| "document_get_mut ((n, v) # fs) name =
     (if n = name then Some (v, \<lambda>v'. (n, v') # fs)
      else map_option (\<lambda>(old, store). (old, \<lambda>v'. (n, v) # store v')) (document_get_mut fs name))"

text \<open>The index loop of \<open>remove\<close>: \<open>fields.remove(i)\<close> shifts the tail down, so \<open>i\<close> stays.\<close>

function document_remove_loop :: "string \<Rightarrow> document \<Rightarrow> nat \<Rightarrow> bson option \<Rightarrow> document \<times> bson option" where
  "document_remove_loop name fs i first =
     (if i < length fs then
        if fst (fs ! i) = name then
          document_remove_loop name (take i fs @ drop (Suc i) fs) i
            (if first = None then Some (snd (fs ! i)) else first)
        else document_remove_loop name fs (i + 1) first
      else (fs, first))"
  by pat_completeness auto
termination
  by (relation "measure (\<lambda>(name, fs, i, first). length fs - i)") auto

declare document_remove_loop.simps [simp del]

definition document_remove :: "string \<Rightarrow> document \<Rightarrow> document \<times> bson option" where
  "document_remove name fs = document_remove_loop name fs 0 None"

text \<open>\<open>replace\<close>: the loop returns at the first match, and falls through to \<open>push\<close>.\<close>

fun document_replace :: "string \<Rightarrow> bson \<Rightarrow> document \<Rightarrow> document" where
  "document_replace name v [] = [(name, v)]"
| "document_replace name v ((n, w) # fs) =
     (if n = name then (n, v) # fs else (n, w) # document_replace name v fs)"

definition document_field_names :: "document \<Rightarrow> string list" where
  "document_field_names fs = map fst fs"

definition document_command :: "document \<Rightarrow> string option" where
  "document_command fs = (case fs of [] \<Rightarrow> None | f # _ \<Rightarrow> Some (fst f))"

section \<open>Array\<close>

definition array_new :: array where
  "array_new = []"

definition array_push :: "bson \<Rightarrow> array \<Rightarrow> array" where
  "array_push v values = values @ [v]"

definition array_len :: "array \<Rightarrow> nat" where
  "array_len values = length values"

section \<open>The contract of a field store\<close>

text \<open>
  What the clients of a document rely on: \<open>get\<close> sees the first binding, \<open>add\<close> never hides an
  existing one, \<open>replace\<close> rebinds in place and \<open>remove\<close> forgets every binding of the name.
\<close>

locale field_store =
  fixes empty :: 'd
    and get :: "'d \<Rightarrow> 'k \<Rightarrow> 'v option"
    and add :: "'k \<Rightarrow> 'v \<Rightarrow> 'd \<Rightarrow> 'd"
    and replace :: "'k \<Rightarrow> 'v \<Rightarrow> 'd \<Rightarrow> 'd"
    and remove :: "'k \<Rightarrow> 'd \<Rightarrow> 'd \<times> 'v option"
  assumes get_empty: "get empty k = None"
    and get_add: "get (add k v d) j = (case get d j of Some w \<Rightarrow> Some w | None \<Rightarrow> if j = k then Some v else None)"
    and get_replace: "get (replace k v d) j = (if j = k then Some v else get d j)"
    and get_remove: "get (fst (remove k d)) j = (if j = k then None else get d j)"
    and remove_value: "snd (remove k d) = get d k"
begin

lemma get_of_add_fresh: "get d k = None \<Longrightarrow> get (add k v d) k = Some v"
  by (simp add: get_add)

lemma add_keeps: "get d j = Some w \<Longrightarrow> get (add k v d) j = Some w"
  by (simp add: get_add)

lemma get_add_other: "j \<noteq> k \<Longrightarrow> get (add k v d) j = get d j"
  by (simp add: get_add split: option.splits)

lemma remove_twice: "snd (remove k (fst (remove k d))) = None"
  by (simp add: remove_value get_remove)

lemma replace_after_remove: "get (replace k v (fst (remove k d))) j = get (replace k v d) j"
  by (simp add: get_replace get_remove)

lemma remove_after_replace: "snd (remove k (replace k v d)) = Some v"
  by (simp add: remove_value get_replace)

text \<open>Building a store by a run of \<open>add\<close>s is looked up like the association list.\<close>

definition add_all :: "('k \<times> 'v) list \<Rightarrow> 'd \<Rightarrow> 'd" where
  "add_all kvs d = fold (\<lambda>(k, v). add k v) kvs d"

lemma get_add_all: "get (add_all kvs d) j = (case get d j of Some w \<Rightarrow> Some w | None \<Rightarrow> map_of kvs j)"
proof (induction kvs arbitrary: d)
  case Nil
  then show ?case by (simp add: add_all_def split: option.splits)
next
  case (Cons kv kvs)
  obtain k v where kv: "kv = (k, v)" by fastforce
  have "get (add_all (kv # kvs) d) j = get (add_all kvs (add k v d)) j"
    by (simp add: add_all_def kv)
  then show ?case by (simp add: Cons.IH kv get_add split: option.splits)
qed

end

lemma document_get_Nil [simp]: "document_get [] name = None"
  by (simp add: document_get_def)

lemma document_get_Cons [simp]:
  "document_get ((n, v) # fs) name = (if n = name then Some v else document_get fs name)"
  by (simp add: document_get_def)

lemma document_get_append:
  "document_get (fs @ gs) name = (case document_get fs name of Some v \<Rightarrow> Some v | None \<Rightarrow> document_get gs name)"
  by (induction fs) auto

lemma document_get_filter:
  "document_get (filter (\<lambda>f. fst f \<noteq> k) fs) name = (if name = k then None else document_get fs name)"
  by (induction fs) auto

lemma document_get_replace:
  "document_get (document_replace k v fs) name = (if name = k then Some v else document_get fs name)"
  by (induction k v fs rule: document_replace.induct) auto

lemma document_remove_loop_eq:
  "i \<le> length fs \<Longrightarrow> document_remove_loop name fs i first =
     (take i fs @ filter (\<lambda>f. fst f \<noteq> name) (drop i fs),
      case first of Some v \<Rightarrow> Some v | None \<Rightarrow> document_get (drop i fs) name)"
proof (induction name fs i first rule: document_remove_loop.induct)
  case (1 name fs i first)
  show ?case
  proof (cases "i < length fs")
    case True
    obtain n v where f: "fs ! i = (n, v)" by fastforce
    with True have d: "drop i fs = (n, v) # drop (Suc i) fs"
      by (metis Cons_nth_drop_Suc)
    show ?thesis
    proof (cases "n = name")
      case True
      with \<open>i < length fs\<close> f d show ?thesis
        by (subst document_remove_loop.simps) (simp add: "1.IH"(1) split: option.splits)
    next
      case False
      have "take (Suc i) fs = take i fs @ [(n, v)]"
        using \<open>i < length fs\<close> f by (simp add: take_Suc_conv_app_nth)
      with False \<open>i < length fs\<close> f d "1.IH"(2) show ?thesis
        by (subst document_remove_loop.simps) (simp split: option.splits)
    qed
  next
    case False
    with "1.prems" show ?thesis
      by (subst document_remove_loop.simps) (simp split: option.splits)
  qed
qed

lemma document_remove_eq:
  "document_remove name fs = (filter (\<lambda>f. fst f \<noteq> name) fs, document_get fs name)"
  by (simp add: document_remove_def document_remove_loop_eq)

interpretation doc: field_store document_new document_get document_add document_replace document_remove
  by unfold_locales
    (auto simp: document_new_def document_add_def document_get_append document_get_replace
      document_remove_eq document_get_filter split: option.splits)

text \<open>
  (C35) \<open>Document::remove\<close>, an index loop with in-place deletion, removes every field of the name,
  keeps the other fields in order and returns the first removed value.
\<close>

theorem document_remove_spec:
  "document_remove name fs =
     (filter (\<lambda>f. fst f \<noteq> name) fs, map_option snd (find (\<lambda>f. fst f = name) fs))"
  by (simp add: document_remove_eq document_get_def)

text \<open>
  The named-field laws of a document under every mutator: \<open>add\<close> appends without hiding an
  earlier field, \<open>replace\<close> makes the new value the visible one and moves no other field,
  \<open>remove\<close> makes the name disappear, and storing through \<open>get_mut\<close> changes exactly the first match.
\<close>

theorem document_field_laws:
  "document_get (document_add k v d) j =
     (case document_get d j of Some w \<Rightarrow> Some w | None \<Rightarrow> if j = k then Some v else None)
   \<and> document_get (document_replace k v d) j = (if j = k then Some v else document_get d j)
   \<and> document_field_names (document_replace k v d) =
       (if document_get d k = None then document_field_names d @ [k] else document_field_names d)
   \<and> document_get (fst (document_remove k d)) j = (if j = k then None else document_get d j)
   \<and> map_option (\<lambda>(old, store). (old, store v)) (document_get_mut d k) =
       map_option (\<lambda>old. (old, document_replace k v d)) (document_get d k)"
proof (intro conjI)
  show "document_field_names (document_replace k v d) =
       (if document_get d k = None then document_field_names d @ [k] else document_field_names d)"
    by (induction k v d rule: document_replace.induct) (auto simp: document_field_names_def)
  show "map_option (\<lambda>(old, store). (old, store v)) (document_get_mut d k) =
       map_option (\<lambda>old. (old, document_replace k v d)) (document_get d k)"
  proof (induction d k rule: document_get_mut.induct)
    case (2 n w fs name)
    then show ?case
      by (cases "document_get_mut fs name"; cases "document_get fs name") auto
  qed simp
qed (rule doc.get_add doc.get_replace doc.get_remove)+

end
