(* ===== verification/Bson_Decode.thy ===== *)
theory Bson_Decode
  imports Bson_Value
begin

text \<open>
  Raw documents and decoding: \<open>RawDocument\<close>, \<open>RawArray\<close> and \<open>FieldsIter\<close> of \<open>raw.rs\<close>,
  \<open>RawBsonRef::to_bson\<close>/\<open>deep\<close> of \<open>raw_value.rs\<close> and the scanner and the recursive decoder of
  \<open>decode.rs\<close>.  The nesting guard bounds the recursion; the scanner's offset bounds the loops.
  \<open>raw_bytes\<close> and \<open>frame\<close> specify the bytes a scan accepts, exactly.
\<close>

abbreviation (input) MAX_NESTING_DEPTH :: nat where "MAX_NESTING_DEPTH \<equiv> 20"

section \<open>Raw documents\<close>

definition from_bytes :: "bytes \<Rightarrow> (bson_error, raw_document) result" where
  "from_bytes b =
     (let actual = length b in
      if actual < MIN_DOC_LEN then Err (BE_ShortInput MIN_DOC_LEN actual)
      else let declared = unat (from_le32 [b ! 0, b ! 1, b ! 2, b ! 3]) in
      if declared < MIN_DOC_LEN then
        Err (BE_InvalidInput 0 (''declared length '' @ show_nat declared @ '' is below the minimum ''
              @ show_nat MIN_DOC_LEN))
      else if declared \<noteq> actual then Err (BE_LengthMismatch declared actual)
      else if b ! (actual - 1) \<noteq> 0 then Err (BE_InvalidInput (actual - 1) ''missing trailing NUL'')
      else Ok b)"

text \<open>\<open>RawArray::from_bytes\<close>.\<close>

definition array_from_bytes :: "bytes \<Rightarrow> (bson_error, raw_array) result" where
  "array_from_bytes b = andthen (from_bytes b) (\<lambda>d. Ok d)"

text \<open>\<open>RawDocument::command\<close>.\<close>

definition raw_command :: "raw_document \<Rightarrow> (bson_error, string) result" where
  "raw_command bs =
     andthen (ok_or (BE_ShortInput MIN_DOC_LEN (length bs)) (if 4 \<le> length bs then Some (drop 4 bs) else None)) (\<lambda>body.
     case body of
       [] \<Rightarrow> Ok []
     | tag # name \<Rightarrow>
         if tag = 0 then Ok []
         else andthen (ok_or (BE_ShortInput (length bs + 1) (length bs)) (nul_pos name)) (\<lambda>end_pos.
              andthen (slice name 0 end_pos) (\<lambda>n.
              ok_or BE_Utf8 (from_utf8 n))))"

section \<open>The scanner\<close>

record scanner =
  sc_parent :: bytes
  sc_body :: bytes
  sc_offset :: nat

definition scanner_new :: "bytes \<Rightarrow> scanner" where
  "scanner_new doc =
     \<lparr>sc_parent = doc, sc_body = (if 4 \<le> length doc then drop 4 doc else []), sc_offset = 0\<rparr>"

text \<open>\<open>map_read\<close>: applied to every read of this module.\<close>

fun map_read :: "read_error \<Rightarrow> bson_error" where
  "map_read (ShortInput needed got) = BE_ShortInput needed got"
| "map_read (Invalid reason) = BE_InvalidInput 0 reason"

abbreviation mread :: "(read_error, 'a) result \<Rightarrow> (bson_error, 'a) result" where
  "mread \<equiv> map_err map_read"

definition doc_len :: "bytes \<Rightarrow> nat \<Rightarrow> (bson_error, nat) result" where
  "doc_len rest abs_off =
     (if length rest < 4 then Err (BE_ShortInput 4 (length rest))
      else andthen (slice rest 0 4) (\<lambda>b4.
        let l = unat (from_le32 b4) in
        if l < MIN_DOC_LEN then Err (BE_InvalidInput abs_off ''composite length below minimum'')
        else if length rest < l then Err (BE_ShortInput l (length rest))
        else Ok l))"

definition read_str :: "bytes \<Rightarrow> nat \<Rightarrow> (bson_error, string \<times> bytes) result" where
  "read_str r abs_off =
     andthen (mread (read_u32_le r)) (\<lambda>(w, r).
     let len = unat w in
     if len < 1 then Err (BE_InvalidInput abs_off ''zero-length string'')
     else andthen (mread (read_bytes (len - 1) r)) (\<lambda>(b, r).
          andthen (mread (read_u8 r)) (\<lambda>(nul, r).
          if nul \<noteq> 0 then Err (BE_InvalidInput abs_off ''string not NUL-terminated'')
          else andthen (ok_or BE_Utf8 (from_utf8 b)) (\<lambda>s. Ok (s, r)))))"

definition read_cstr :: "bytes \<Rightarrow> (bson_error, string \<times> bytes) result" where
  "read_cstr r =
     andthen (mread (read_cstring r)) (\<lambda>(b, r).
     andthen (ok_or BE_Utf8 (from_utf8 b)) (\<lambda>s. Ok (s, r)))"

definition read_binary :: "bytes \<Rightarrow> nat \<Rightarrow> (bson_error, binary \<times> bytes) result" where
  "read_binary r abs_off =
     andthen (mread (read_u32_le r)) (\<lambda>(w, r).
     let len = unat w in
     andthen (mread (read_u8 r)) (\<lambda>(sb, r).
     andthen (map_err BE_Scalar (subtype_from_u8 sb)) (\<lambda>subtype.
     andthen (if subtype = BinaryOld then
           andthen (mread (read_u32_le r)) (\<lambda>(w, r).
           let inner = unat w in
           if inner + 4 \<noteq> len then Err (BE_InvalidInput abs_off ''old binary inner length mismatch'')
           else Ok (inner, r))
         else Ok (len, r)) (\<lambda>(payload, r).
     andthen (mread (read_bytes payload r)) (\<lambda>(b, r).
     Ok (\<lparr>bin_subtype = subtype, bin_bytes = b\<rparr>, r))))))"

text \<open>The \<open>TAG_DOCUMENT | TAG_ARRAY\<close> and \<open>TAG_JAVASCRIPT_SCOPE\<close> arms of \<open>parse_value\<close>.\<close>

definition parse_composite :: "u8 \<Rightarrow> bytes \<Rightarrow> bytes \<Rightarrow> nat \<Rightarrow> (bson_error, raw_bson \<times> bytes) result" where
  "parse_composite tag rest parent abs_off =
     andthen (doc_len rest abs_off) (\<lambda>l.
     andthen (slice parent abs_off (abs_off + l)) (\<lambda>child.
     andthen (mread (read_bytes l rest)) (\<lambda>(_, r).
     if tag = TAG_DOCUMENT then andthen (from_bytes child) (\<lambda>d. Ok (R_Document d, r))
     else andthen (array_from_bytes child) (\<lambda>a. Ok (R_Array a, r)))))"

definition parse_js_scope :: "bytes \<Rightarrow> bytes \<Rightarrow> nat \<Rightarrow> (bson_error, raw_bson \<times> bytes) result" where
  "parse_js_scope rest parent abs_off =
     (if length rest < 4 then Err (BE_ShortInput 4 (length rest))
      else andthen (slice rest 0 4) (\<lambda>b4.
        let total = unat (from_le32 b4) in
        andthen (slice rest 4 (length rest)) (\<lambda>cur.
        andthen (read_str cur (abs_off + 4)) (\<lambda>(code, cur).
        andthen (usub (length rest) (remaining cur)) (\<lambda>scope_off.
        if length rest < scope_off + 4 then Err (BE_ShortInput (scope_off + 4) (length rest))
        else andthen (slice rest scope_off (scope_off + 4)) (\<lambda>s4.
        let l = unat (from_le32 s4) in
        if l < MIN_DOC_LEN then Err (BE_InvalidInput (abs_off + scope_off) ''scope length below minimum'')
        else if length rest < scope_off + l then Err (BE_ShortInput (scope_off + l) (length rest))
        else andthen (slice parent (abs_off + scope_off) (abs_off + scope_off + l)) (\<lambda>sl.
        andthen (from_bytes sl) (\<lambda>scope.
        let actual = scope_off + l in
        if total \<noteq> actual then Err (BE_LengthMismatch total actual)
        else andthen (mread (read_bytes actual rest)) (\<lambda>(_, r).
        Ok (R_JavaScriptScope code scope, r))))))))))"

text \<open>\<open>parse_value\<close>: the match on the tag over the cursor, then the number of bytes consumed.\<close>

definition parse_value_at :: "u8 \<Rightarrow> bytes \<Rightarrow> bytes \<Rightarrow> nat \<Rightarrow> (bson_error, raw_bson \<times> bytes) result" where
  "parse_value_at tag r parent abs_off =
     (if tag = TAG_DOCUMENT \<or> tag = TAG_ARRAY then parse_composite tag r parent abs_off
      else if tag = TAG_JAVASCRIPT_SCOPE then parse_js_scope r parent abs_off
      else if tag = TAG_DOUBLE then
        andthen (mread (read_bytes 8 r)) (\<lambda>(b, r). Ok (R_Double (from_le64 b), r))
      else if tag = TAG_STRING then andthen (read_str r abs_off) (\<lambda>(s, r). Ok (R_String s, r))
      else if tag = TAG_BINARY then andthen (read_binary r abs_off) (\<lambda>(b, r). Ok (R_Binary b, r))
      else if tag = TAG_UNDEFINED then Ok (R_Undefined, r)
      else if tag = TAG_OBJECT_ID then
        andthen (mread (read_bytes 12 r)) (\<lambda>(b, r). Ok (R_ObjectId b, r))
      else if tag = TAG_BOOL then
        andthen (mread (read_u8 r)) (\<lambda>(b, r).
          if b = 0 then Ok (R_Bool False, r)
          else if b = 1 then Ok (R_Bool True, r)
          else Err (BE_InvalidInput abs_off ''invalid bool byte''))
      else if tag = TAG_DATE_TIME then
        andthen (mread (read_i64_le r)) (\<lambda>(v, r). Ok (R_DateTime v, r))
      else if tag = TAG_NULL then Ok (R_Null, r)
      else if tag = TAG_REGEX then
        andthen (read_cstr r) (\<lambda>(pattern, r).
        andthen (read_cstr r) (\<lambda>(options, r).
        Ok (R_Regex \<lparr>re_pattern = pattern, re_options = options\<rparr>, r)))
      else if tag = TAG_DB_POINTER then
        andthen (read_str r abs_off) (\<lambda>(namespace, r).
        andthen (mread (read_bytes 12 r)) (\<lambda>(oid, r).
        Ok (R_DbPointer \<lparr>dbp_namespace = namespace, dbp_id = oid\<rparr>, r)))
      else if tag = TAG_JAVASCRIPT then andthen (read_str r abs_off) (\<lambda>(s, r). Ok (R_JavaScript s, r))
      else if tag = TAG_SYMBOL then andthen (read_str r abs_off) (\<lambda>(s, r). Ok (R_Symbol s, r))
      else if tag = TAG_INT32 then andthen (mread (read_i32_le r)) (\<lambda>(v, r). Ok (R_Int32 v, r))
      else if tag = TAG_TIMESTAMP then
        andthen (mread (read_u32_le r)) (\<lambda>(increment, r).
        andthen (mread (read_u32_le r)) (\<lambda>(seconds, r).
        Ok (R_Timestamp \<lparr>ts_seconds = seconds, ts_increment = increment\<rparr>, r)))
      else if tag = TAG_INT64 then andthen (mread (read_i64_le r)) (\<lambda>(v, r). Ok (R_Int64 v, r))
      else if tag = TAG_DECIMAL128 then
        andthen (mread (read_bytes 16 r)) (\<lambda>(b, r). Ok (R_Decimal128 b, r))
      else if tag = TAG_MIN_KEY then Ok (R_MinKey, r)
      else if tag = TAG_MAX_KEY then Ok (R_MaxKey, r)
      else Err (BE_InvalidInput abs_off ''unknown element type''))"

definition parse_value :: "u8 \<Rightarrow> bytes \<Rightarrow> bytes \<Rightarrow> nat \<Rightarrow> (bson_error, raw_bson \<times> nat) result" where
  "parse_value tag rest parent abs_off =
     andthen (parse_value_at tag rest parent abs_off) (\<lambda>(v, r).
     andthen (usub (length rest) (remaining r)) (\<lambda>n. Ok (v, n)))"

definition scanner_next :: "scanner \<Rightarrow> (bson_error, (string \<times> raw_bson) option \<times> scanner) result" where
  "scanner_next sc =
     (let body = sc_body sc; off = sc_offset sc in
      if \<not> off < length body then Err (BE_ShortInput (off + 1) (length body))
      else let tag = body ! off in
      if tag = 0 then
        if off + 1 \<noteq> length body then Err (BE_InvalidInput off ''data after end-of-document marker'')
        else Ok (None, sc)
      else let off = off + 1 in
        andthen (slice body off (length body)) (\<lambda>tail.
        andthen (ok_or (BE_ShortInput (length body + 1) (length body)) (nul_pos tail)) (\<lambda>rel.
        andthen (slice body off (off + rel)) (\<lambda>nb.
        andthen (ok_or BE_Utf8 (from_utf8 nb)) (\<lambda>name.
        let voff = off + (rel + 1) in
        andthen (slice body voff (length body)) (\<lambda>rest.
        andthen (parse_value tag rest (sc_parent sc) (4 + voff)) (\<lambda>(v, consumed).
        Ok (Some (name, v), sc\<lparr>sc_offset := voff + consumed\<rparr>))))))))"

section \<open>The layout a scan accepts\<close>

definition frame_ok :: "bytes \<Rightarrow> bool" where
  "frame_ok b \<longleftrightarrow> 5 \<le> length b \<and> unat (from_le32 (take 4 b)) = length b \<and> last b = 0"

definition frame :: "bytes \<Rightarrow> bytes" where
  "frame body = to_le32 (u32_of_nat (length body + 5)) @ body @ [0]"

fun raw_of_scalar :: "scalar \<Rightarrow> raw_bson" where
  "raw_of_scalar (S_Double x) = R_Double x"
| "raw_of_scalar (S_String x) = R_String x"
| "raw_of_scalar (S_Binary x) = R_Binary x"
| "raw_of_scalar S_Undefined = R_Undefined"
| "raw_of_scalar (S_ObjectId x) = R_ObjectId x"
| "raw_of_scalar (S_Bool x) = R_Bool x"
| "raw_of_scalar (S_DateTime x) = R_DateTime x"
| "raw_of_scalar S_Null = R_Null"
| "raw_of_scalar (S_Regex x) = R_Regex x"
| "raw_of_scalar (S_DbPointer x) = R_DbPointer x"
| "raw_of_scalar (S_JavaScript x) = R_JavaScript x"
| "raw_of_scalar (S_Symbol x) = R_Symbol x"
| "raw_of_scalar (S_Int32 x) = R_Int32 x"
| "raw_of_scalar (S_Timestamp x) = R_Timestamp x"
| "raw_of_scalar (S_Int64 x) = R_Int64 x"
| "raw_of_scalar (S_Decimal128 x) = R_Decimal128 x"
| "raw_of_scalar S_MinKey = R_MinKey"
| "raw_of_scalar S_MaxKey = R_MaxKey"

lemma take4: "4 \<le> length r \<Longrightarrow> take 4 r = [r ! 0, r ! 1, r ! 2, r ! 3]"
  using list4 [of "take 4 r"] by simp

lemma from_bytes_Ok: "from_bytes b = Ok d \<longleftrightarrow> d = b \<and> frame_ok b"
  proof (cases "length b < 5")
  case False
  then have "b \<noteq> []" by auto
  with False show ?thesis by (auto simp: from_bytes_def frame_ok_def Let_def take4 last_conv_nth)
qed (auto simp: from_bytes_def frame_ok_def Let_def)

lemma from_bytes_panic [simp, panic_free]: "from_bytes b \<noteq> Panic"
  by (simp add: from_bytes_def Let_def)

lemma array_from_bytes_eq [simp]: "array_from_bytes = from_bytes"
  by (rule ext) (simp add: array_from_bytes_def andthen_def split: result.splits)

lemma frame_ok_iff: "frame_ok b \<longleftrightarrow> (\<exists>body. length body + 5 < 4294967296 \<and> b = frame body)"
proof
  assume ok: "frame_ok b"
  define body where "body = take (length b - 5) (drop 4 b)"
  have len: "5 \<le> length b" and l: "unat (from_le32 (take 4 b)) = length b" and z: "last b = 0"
    using ok by (auto simp: frame_ok_def)
  have "butlast (drop 4 b) = body" using len by (simp add: body_def butlast_conv_take)
  then have "drop 4 b = body @ [last (drop 4 b)]"
    using len append_butlast_last_id [of "drop 4 b"] by simp
  also have "last (drop 4 b) = 0" using len z by simp
  finally have d: "drop 4 b = body @ [0]" .
  have lb: "length b = length body + 5" using arg_cong [OF d, of length] len by simp
  have "take 4 b = to_le32 (u32_of_nat (length body + 5))"
    using to_from_le32 [of "take 4 b"] u32_eq_of_nat [OF l] len lb by simp
  with d have "b = frame body" by (metis append_take_drop_id frame_def)
  moreover have "length body + 5 < 4294967296" using unat_word32_less [of "from_le32 (take 4 b)"] l lb by simp
  ultimately show "\<exists>body. length body + 5 < 4294967296 \<and> b = frame body" by blast
qed (auto simp: frame_def frame_ok_def)

lemma frame_ok_frame [simp]: "frame_ok (frame body) \<longleftrightarrow> length body + 5 < 4294967296"
proof
  assume a: "frame_ok (frame body)"
  then have "unat (from_le32 (take 4 (frame body))) = length (frame body)" by (simp add: frame_ok_def)
  then show "length body + 5 < 4294967296"
    using unat_word32_less [of "from_le32 (take 4 (frame body))"] by (simp add: frame_def)
qed (auto simp: frame_ok_iff)

lemma length_frame [simp]: "length (frame body) = length body + 5"
  by (simp add: frame_def)

lemma drop4_frame [simp]: "drop 4 (frame body) = body @ [0]"
  by (simp add: frame_def)

lemma read_str_parse_string: "read_str r a = Ok x \<longleftrightarrow> parse_string r t = Ok x"
  by (cases x) (auto simp: read_str_def parse_string_def read_u32_as_usize_def andthen_eq_Ok Let_def Suc_le_eq
      split: if_splits)

lemma read_cstr_parse: "read_cstr r = Ok x \<longleftrightarrow> read_cstring_str r t = Ok x"
  by (cases x) (auto simp: read_cstr_def read_cstring_str_def andthen_eq_Ok split: if_splits)

lemma read_binary_parse: "read_binary r a = Ok x \<longleftrightarrow> parse_binary r t = Ok x"
  by (cases x) (fastforce simp: read_binary_def parse_binary_def read_u32_as_usize_def andthen_eq_Ok Let_def
      split: if_splits)

lemma read_str_Ok:
  "read_str r a = Ok (s, r') \<longleftrightarrow> wf_str s \<and> length s + 1 < 4294967296 \<and> r = string_bytes s @ r'"
  unfolding read_str_parse_string [where t = 0] by (rule parse_string_Ok)

lemma read_cstr_Ok:
  "read_cstr r = Ok (s, r') \<longleftrightarrow> wf_str s \<and> 0 \<notin> set (as_bytes s) \<and> r = as_bytes s @ 0 # r'"
  unfolding read_cstr_parse [where t = 0] by (rule read_cstring_str_Ok)

lemma read_binary_Ok:
  "read_binary r a = Ok (b, r') \<longleftrightarrow>
     scalar_ok (S_Binary b) \<and> scalar_len_field (S_Binary b) < 4294967296 \<and> r = scalar_bytes (S_Binary b) @ r'"
  unfolding read_binary_parse [where t = 0] by (rule parse_binary_Ok)

text \<open>Two computations that agree up to the text of their errors.\<close>

abbreviation forget :: "('e, 'a) result \<Rightarrow> (unit, 'a) result" where
  "forget \<equiv> map_err (\<lambda>_. ())"

lemma forget_eqI:
  "m \<noteq> Panic \<Longrightarrow> n \<noteq> Panic \<Longrightarrow> (\<And>x. m = Ok x \<longleftrightarrow> n = Ok x) \<Longrightarrow> forget m = forget n"
  by (cases m; cases n) auto

lemma forget_andthen: "forget (andthen m f) = andthen (forget m) (\<lambda>x. forget (f x))"
  by (cases m) auto

lemma forget_map_err [simp]: "forget (map_err g m) = forget m"
  by (cases m) auto

lemma forget_ok_or: "forget (ok_or e m) = ok_or () m"
  by (cases m) auto

lemma andthen_assoc: "andthen (andthen m f) g = andthen m (\<lambda>x. andthen (f x) g)"
  by (cases m) auto

lemma forget_read_str: "forget (read_str r a) = forget (parse_string r t)"
  by (simp add: read_str_def parse_string_def read_u32_as_usize_def forget_andthen andthen_assoc split_def Let_def
     if_distrib [of forget] forget_ok_or Suc_le_eq cong: if_cong)

lemma forget_read_cstr: "forget (read_cstr r) = forget (read_cstring_str r t)"
  by (simp add: read_cstr_def read_cstring_str_def forget_andthen split_def forget_ok_or)

lemma forget_read_binary: "forget (read_binary r a) = forget (parse_binary r t)"
  by (simp add: read_binary_def parse_binary_def read_u32_as_usize_def forget_andthen andthen_assoc split_def Let_def
     if_distrib [of forget] cong: if_cong)

lemma forget_parse_value_at:
  assumes "tag \<noteq> TAG_DOCUMENT" "tag \<noteq> TAG_ARRAY" "tag \<noteq> TAG_JAVASCRIPT_SCOPE"
  shows "forget (parse_value_at tag r parent a) =
    andthen (forget (parse_scalar_at tag r)) (\<lambda>(s, r). Ok (raw_of_scalar s, r))"
  using assms
  by (simp add: parse_value_at_def parse_scalar_at_def forget_andthen andthen_assoc split_def
     forget_read_str [where t = tag] forget_read_cstr [where t = tag] forget_read_binary [where t = tag] 
     if_distrib [of forget] if_distrib [of "\<lambda>m. andthen m _"] cong: if_cong)


fun raw_scalar :: "raw_bson \<Rightarrow> scalar option" where
  "raw_scalar (R_Double x) = Some (S_Double x)"
| "raw_scalar (R_String x) = Some (S_String x)"
| "raw_scalar (R_Binary x) = Some (S_Binary x)"
| "raw_scalar R_Undefined = Some S_Undefined"
| "raw_scalar (R_ObjectId x) = Some (S_ObjectId x)"
| "raw_scalar (R_Bool x) = Some (S_Bool x)"
| "raw_scalar (R_DateTime x) = Some (S_DateTime x)"
| "raw_scalar R_Null = Some S_Null"
| "raw_scalar (R_Regex x) = Some (S_Regex x)"
| "raw_scalar (R_DbPointer x) = Some (S_DbPointer x)"
| "raw_scalar (R_JavaScript x) = Some (S_JavaScript x)"
| "raw_scalar (R_Symbol x) = Some (S_Symbol x)"
| "raw_scalar (R_Int32 x) = Some (S_Int32 x)"
| "raw_scalar (R_Timestamp x) = Some (S_Timestamp x)"
| "raw_scalar (R_Int64 x) = Some (S_Int64 x)"
| "raw_scalar (R_Decimal128 x) = Some (S_Decimal128 x)"
| "raw_scalar R_MinKey = Some S_MinKey"
| "raw_scalar R_MaxKey = Some S_MaxKey"
| "raw_scalar _ = None"

fun composite_tag :: "raw_bson \<Rightarrow> u8" where
  "composite_tag (R_Document _) = TAG_DOCUMENT"
| "composite_tag (R_Array _) = TAG_ARRAY"
| "composite_tag _ = TAG_JAVASCRIPT_SCOPE"

fun composite_bytes :: "raw_bson \<Rightarrow> bytes" where
  "composite_bytes (R_Document d) = d"
| "composite_bytes (R_Array a) = a"
| "composite_bytes (R_JavaScriptScope c s) =
     to_le32 (u32_of_nat (9 + length c + length s)) @ string_bytes c @ s"
| "composite_bytes _ = []"

fun composite_ok :: "raw_bson \<Rightarrow> bool" where
  "composite_ok (R_Document d) \<longleftrightarrow> frame_ok d"
| "composite_ok (R_Array a) \<longleftrightarrow> frame_ok a"
| "composite_ok (R_JavaScriptScope c s) \<longleftrightarrow> wf_str c \<and> frame_ok s \<and> 9 + length c + length s < 4294967296"
| "composite_ok _ \<longleftrightarrow> False"

definition raw_tag :: "raw_bson \<Rightarrow> u8" where
  "raw_tag v = (case raw_scalar v of Some s \<Rightarrow> tag_of s | None \<Rightarrow> composite_tag v)"

definition raw_bytes :: "raw_bson \<Rightarrow> bytes" where
  "raw_bytes v = (case raw_scalar v of Some s \<Rightarrow> scalar_bytes s | None \<Rightarrow> composite_bytes v)"

definition raw_ok :: "raw_bson \<Rightarrow> bool" where
  "raw_ok v \<longleftrightarrow> (case raw_scalar v of Some s \<Rightarrow> scalar_ok s \<and> scalar_len_field s < 4294967296 | None \<Rightarrow> composite_ok v)"

lemma raw_scalar_of_scalar [simp]: "raw_scalar (raw_of_scalar s) = Some s"
  by (cases s) simp_all

lemma raw_scalar_Some: "raw_scalar v = Some s \<longleftrightarrow> v = raw_of_scalar s"
proof
  assume "raw_scalar v = Some s"
  then show "v = raw_of_scalar s" by (cases v) auto
qed simp

lemma raw_of_scalar_not_composite [simp]:
  "raw_of_scalar s \<noteq> R_Document d" "raw_of_scalar s \<noteq> R_Array d" "raw_of_scalar s \<noteq> R_JavaScriptScope c d"
  "R_Document d \<noteq> raw_of_scalar s" "R_Array d \<noteq> raw_of_scalar s" "R_JavaScriptScope c d \<noteq> raw_of_scalar s"
  by (cases s; simp)+

lemma raw_of_scalar_inject [simp]: "raw_of_scalar s = raw_of_scalar t \<longleftrightarrow> s = t"
  by (metis raw_scalar_of_scalar option.inject)

lemma raw_layout_simps [simp]:
  "raw_tag (R_Document d) = TAG_DOCUMENT" "raw_tag (R_Array d) = TAG_ARRAY"
  "raw_tag (R_JavaScriptScope c d) = TAG_JAVASCRIPT_SCOPE" "raw_tag (raw_of_scalar s) = tag_of s"
  "raw_ok (R_Document d) = frame_ok d" "raw_ok (R_Array d) = frame_ok d"
  "raw_ok (R_JavaScriptScope c d) \<longleftrightarrow> wf_str c \<and> frame_ok d \<and> 9 + length c + length d < 4294967296"
  "raw_ok (raw_of_scalar s) \<longleftrightarrow> scalar_ok s \<and> scalar_len_field s < 4294967296"
  "raw_bytes (R_Document d) = d" "raw_bytes (R_Array d) = d"
  "raw_bytes (R_JavaScriptScope c d) = to_le32 (u32_of_nat (9 + length c + length d)) @ string_bytes c @ d"
  "raw_bytes (raw_of_scalar s) = scalar_bytes s"
  by (simp_all add: raw_tag_def raw_ok_def raw_bytes_def)

lemma tag_of_not_composite [simp]: "tag_of s \<noteq> 0" "tag_of s \<noteq> TAG_DOCUMENT" "tag_of s \<noteq> TAG_ARRAY" "tag_of s \<noteq> TAG_JAVASCRIPT_SCOPE"
  by (cases s; simp add: tag_of_def)+

lemma raw_cases [case_names Document Array Scope Scalar]:
  obtains (Document) d where "v = R_Document d" | (Array) d where "v = R_Array d"
    | (Scope) c s where "v = R_JavaScriptScope c s" | (Scalar) s where "v = raw_of_scalar s"
proof (cases "raw_scalar v")
  case None
  then show ?thesis using that by (cases v) auto
next
  case (Some s)
  then show ?thesis using that by (simp add: raw_scalar_Some)
qed

lemma raw_tag_nonzero [simp]: "raw_tag v \<noteq> 0"
  by (cases v rule: raw_cases) simp_all

lemma doc_len_Ok:
  "doc_len rest a = Ok l \<longleftrightarrow> 5 \<le> l \<and> l \<le> length rest \<and> unat (from_le32 (take 4 rest)) = l"
  by (auto simp: doc_len_def Let_def)

lemma doc_len_panic [simp, panic_free]: "doc_len rest a \<noteq> Panic"
  by (auto simp: doc_len_def Let_def)

lemma frame_ok_take:
  assumes "frame_ok d" shows "unat (from_le32 (take 4 (d @ r))) = length d"
  using assms by (simp add: frame_ok_def)

lemma frame_ok_length: "frame_ok d \<Longrightarrow> 5 \<le> length d \<and> length d < 4294967296"
  by (metis frame_ok_def unat_word32_less)

lemma slice_of_rest:
  assumes "rest = drop a parent" "a \<le> length parent"
  shows "slice parent (a + i) (a + i + l) = (if i + l \<le> length rest then Ok (take l (drop i rest)) else Panic)"
  using assms by (auto simp: slice_def add.commute)

lemmas slice_of_rest0 = slice_of_rest [where i = 0, simplified]

lemma parse_composite_Ok:
  assumes "rest = drop a parent" "a \<le> length parent"
  shows "parse_composite tag rest parent a = Ok (v, r') \<longleftrightarrow>
    (\<exists>d. frame_ok d \<and> rest = d @ r' \<and> v = (if tag = TAG_DOCUMENT then R_Document d else R_Array d))"
proof
  assume "parse_composite tag rest parent a = Ok (v, r')"
  then obtain l where "l \<le> length rest" "frame_ok (take l rest)" "drop l rest = r'"
      "v = (if tag = TAG_DOCUMENT then R_Document (take l rest) else R_Array (take l rest))"
    unfolding parse_composite_def slice_of_rest0 [OF assms]
    by (auto simp: andthen_eq_Ok doc_len_Ok from_bytes_Ok read_bytes_def split: if_splits)
  then show "\<exists>d. frame_ok d \<and> rest = d @ r' \<and> v = (if tag = TAG_DOCUMENT then R_Document d else R_Array d)"
    by (metis append_take_drop_id)
next
  assume "\<exists>d. frame_ok d \<and> rest = d @ r' \<and> v = (if tag = TAG_DOCUMENT then R_Document d else R_Array d)"
  then obtain d where d: "frame_ok d" "rest = d @ r'" "v = (if tag = TAG_DOCUMENT then R_Document d else R_Array d)"
    by blast
  then have "doc_len rest a = Ok (length d)"
    using frame_ok_take [OF d(1)] frame_ok_length [OF d(1)] by (simp add: doc_len_Ok)
  moreover have "from_bytes d = Ok d" using d(1) by (simp add: from_bytes_Ok)
  ultimately show "parse_composite tag rest parent a = Ok (v, r')"
    unfolding parse_composite_def slice_of_rest0 [OF assms] using d by simp
qed

lemma parse_composite_panic:
  assumes "rest = drop a parent" "a \<le> length parent"
  shows "parse_composite tag rest parent a \<noteq> Panic"
  unfolding parse_composite_def slice_of_rest0 [OF assms]
  by (auto simp: andthen_eq_Panic doc_len_Ok)

lemma length_string_bytes [simp]: "length (string_bytes v) = length v + 5"
  by (simp add: string_bytes_def)

lemma read_str_panic [simp, panic_free]: "read_str r a \<noteq> Panic"
  using forget_read_str [of r a 0] by (metis map_err_eq_Panic parse_string_panic)

lemma parse_js_scope_Ok_layout:
  assumes rest: "rest = drop a parent" "a \<le> length parent"
    and ok: "parse_js_scope rest parent a = Ok (v, r')"
  shows "\<exists>c s. v = R_JavaScriptScope c s \<and> raw_ok v \<and> rest = raw_bytes v @ r'"
proof -
  from ok obtain code cur so l where len: "4 \<le> length rest" "so + l \<le> length rest" "l \<ge> 5"
    and code: "read_str (drop 4 rest) (a + 4) = Ok (code, cur)"
    and so: "so = length rest - length cur"
    and l: "unat (from_le32 (take 4 (drop so rest))) = l"
    and scope: "frame_ok (take l (drop so rest))"
    and total: "unat (from_le32 (take 4 rest)) = so + l"
    and r': "r' = drop (so + l) rest" and v: "v = R_JavaScriptScope code (take l (drop so rest))"
    unfolding parse_js_scope_def slice_of_rest [OF rest]
    by (auto simp: andthen_eq_Ok Let_def from_bytes_Ok read_bytes_def usub_eq_Ok remaining_def split: if_splits)
  define s where "s = take l (drop so rest)"
  from code have wf: "wf_str code" and d4: "drop 4 rest = string_bytes code @ cur"
    by (auto simp: read_str_Ok)
  have ls: "length s = l" using len by (simp add: s_def)
  have len4: "length (take 4 rest) = 4" using len by simp
  have so_eq: "so = length code + 9"
    using so arg_cong [OF d4, of length] len by simp
  have cur: "cur = s @ r'"
  proof -
    have "cur = drop (length (string_bytes code)) (drop 4 rest)" using d4 by simp
    then have "cur = drop so rest" using so_eq by (simp add: add.commute)
    then show ?thesis using append_take_drop_id [of l "drop so rest"] by (simp add: s_def r' add.commute)
  qed
  have tot: "9 + length code + length s = unat (from_le32 (take 4 rest))"
    using total so_eq ls by simp
  have "take 4 rest = to_le32 (u32_of_nat (9 + length code + length s))"
    using to_from_le32 [OF len4] by (simp add: tot)
  then have "rest = raw_bytes v @ r'"
    using d4 cur v append_take_drop_id [of 4 rest] by (simp add: s_def)
  moreover have "raw_ok v"
    using v wf scope tot unat_word32_less [of "from_le32 (take 4 rest)"] by (simp add: s_def)
  ultimately show ?thesis using v by blast
qed

lemma parse_js_scope_layout:
  assumes rest: "rest = drop a parent" "a \<le> length parent"
    and v: "v = R_JavaScriptScope c s" "raw_ok v" "rest = raw_bytes v @ r'"
  shows "parse_js_scope rest parent a = Ok (v, r')"
proof -
  have d4: "drop 4 rest = string_bytes c @ s @ r'" and t4: "take 4 rest = to_le32 (u32_of_nat (9 + length c + length s))"
    using v by simp_all
  have len: "length rest = 9 + length c + length s + length r'" using v by simp
  have code: "read_str (drop 4 rest) (a + 4) = Ok (c, s @ r')"
    using v d4 by (simp add: read_str_Ok)
  have dso: "drop (9 + length c) rest = s @ r'"
  proof -
    have "drop (9 + length c) rest = drop (length (string_bytes c)) (drop 4 rest)" by (simp add: add.commute)
    then show ?thesis by (simp add: d4)
  qed
  have s: "frame_ok s" "9 + length c + length s < 4294967296" using v by simp_all
  note sl = frame_ok_length [OF s(1)] frame_ok_take [OF s(1), of r']
  have t4': "take 4 (drop (9 + length c) rest) = take 4 s" "unat (from_le32 (take 4 s)) = length s"
    using dso sl by simp_all
  have tl: "take (length s) (drop (9 + length c) rest) = s" "drop (9 + length c + length s) rest = r'"
    using dso by (simp, metis add.commute append_eq_conv_conj drop_drop)
  have fb: "from_bytes s = Ok s" using s by (simp add: from_bytes_Ok)
  show ?thesis
    unfolding parse_js_scope_def slice_of_rest [OF rest]
    using len code sl t4' tl s t4 v fb
    by (simp add: remaining_def Let_def read_bytes_def)
qed

lemma parse_js_scope_panic:
  assumes rest: "rest = drop a parent" "a \<le> length parent"
  shows "parse_js_scope rest parent a \<noteq> Panic"
proof -
  have "length cur \<le> length rest" if "drop 4 rest = string_bytes c @ cur" for c cur
    using arg_cong [OF that, of length] by simp
  then show ?thesis
    unfolding parse_js_scope_def slice_of_rest [OF rest]
    by (auto simp: andthen_eq_Panic Let_def usub_def remaining_def usub_eq_Ok read_str_Ok split: if_splits)
qed

lemma parse_value_at_Ok:
  assumes rest: "rest = drop a parent" "a \<le> length parent"
  shows "parse_value_at tag rest parent a = Ok (v, r') \<longleftrightarrow> tag = raw_tag v \<and> raw_ok v \<and> rest = raw_bytes v @ r'"
proof -
  consider "tag = TAG_DOCUMENT \<or> tag = TAG_ARRAY" | "tag = TAG_JAVASCRIPT_SCOPE"
    | "tag \<noteq> TAG_DOCUMENT" "tag \<noteq> TAG_ARRAY" "tag \<noteq> TAG_JAVASCRIPT_SCOPE" by blast
  then show ?thesis
  proof cases
    case 1
    then have "parse_value_at tag rest parent a = parse_composite tag rest parent a"
      by (auto simp: parse_value_at_def)
    with 1 parse_composite_Ok [OF rest, of tag v r'] show ?thesis
      by (cases v rule: raw_cases) auto
  next
    case 2
    then have "parse_value_at tag rest parent a = parse_js_scope rest parent a"
      by (auto simp: parse_value_at_def)
    with 2 parse_js_scope_Ok_layout [OF rest, of v r'] parse_js_scope_layout [OF rest, of v _ _ r'] show ?thesis
      by (cases v rule: raw_cases) auto
  next
    case 3
    have "parse_value_at tag rest parent a = Ok (v, r') \<longleftrightarrow> forget (parse_value_at tag rest parent a) = Ok (v, r')"
      by simp
    also have "\<dots> \<longleftrightarrow> (\<exists>s. parse_scalar_at tag rest = Ok (s, r') \<and> v = raw_of_scalar s)"
      unfolding forget_parse_value_at [OF 3] by (auto simp: andthen_eq_Ok)
    also have "\<dots> \<longleftrightarrow> tag = raw_tag v \<and> raw_ok v \<and> rest = raw_bytes v @ r'"
      using 3 by (cases v rule: raw_cases) (auto dest!: parse_scalar_at_Ok_layout)
    finally show ?thesis .
  qed
qed

lemma parse_value_at_panic:
  assumes rest: "rest = drop a parent" "a \<le> length parent"
  shows "parse_value_at tag rest parent a \<noteq> Panic"
proof (cases "tag = TAG_DOCUMENT \<or> tag = TAG_ARRAY \<or> tag = TAG_JAVASCRIPT_SCOPE")
  case True
  then show ?thesis using parse_composite_panic [OF rest] parse_js_scope_panic [OF rest]
    by (auto simp: parse_value_at_def)
next
  case False
  then have "forget (parse_value_at tag rest parent a) \<noteq> Panic"
    by (auto simp: forget_parse_value_at andthen_eq_Panic)
  then show ?thesis by simp
qed

lemma parse_value_Ok:
  assumes rest: "rest = drop a parent" "a \<le> length parent"
  shows "parse_value tag rest parent a = Ok (v, n) \<longleftrightarrow>
    tag = raw_tag v \<and> raw_ok v \<and> n = length (raw_bytes v) \<and> (\<exists>r'. rest = raw_bytes v @ r')"
  using parse_value_at_Ok [OF rest]
  by (auto simp: parse_value_def andthen_eq_Ok usub_eq_Ok remaining_def)

lemma parse_value_panic:
  assumes rest: "rest = drop a parent" "a \<le> length parent"
  shows "parse_value tag rest parent a \<noteq> Panic"
  using parse_value_at_Ok [OF rest] parse_value_at_panic [OF rest]
  by (auto simp: parse_value_def andthen_eq_Panic usub_def remaining_def)


section \<open>Scanning\<close>

definition scanner_inv :: "scanner \<Rightarrow> bool" where
  "scanner_inv sc \<longleftrightarrow> sc_body sc = drop 4 (sc_parent sc) \<and> sc_offset sc \<le> length (sc_body sc)"

definition sc_rest :: "scanner \<Rightarrow> bytes" where
  "sc_rest sc = drop (sc_offset sc) (sc_body sc)"

definition field_ok :: "string \<times> raw_bson \<Rightarrow> bool" where
  "field_ok f \<longleftrightarrow> wf_str (fst f) \<and> 0 \<notin> set (as_bytes (fst f)) \<and> raw_ok (snd f)"

definition field_bytes :: "string \<times> raw_bson \<Rightarrow> bytes" where
  "field_bytes f = raw_tag (snd f) # as_bytes (fst f) @ 0 # raw_bytes (snd f)"

lemma scanner_new_inv [simp]: "scanner_inv (scanner_new doc)"
  by (simp add: scanner_inv_def scanner_new_def)

lemma sc_rest_new [simp]: "sc_rest (scanner_new doc) = drop 4 doc"
  by (simp add: sc_rest_def scanner_new_def)

lemma scanner_next_progress:
  "scanner_next sc = Ok (Some x, sc') \<Longrightarrow>
     sc_body sc' = sc_body sc \<and> sc_offset sc < length (sc_body sc) \<and> sc_offset sc < sc_offset sc'"
  by (auto simp: scanner_next_def Let_def andthen_eq_Ok split: if_splits)

lemma scanner_next_None:
  "scanner_next sc = Ok (None, sc') \<longleftrightarrow> sc_rest sc = [0] \<and> sc' = sc"
proof (cases "sc_offset sc < length (sc_body sc)")
  case True
  then have "sc_rest sc = sc_body sc ! sc_offset sc # drop (Suc (sc_offset sc)) (sc_body sc)"
    by (simp add: sc_rest_def Cons_nth_drop_Suc)
  with True show ?thesis
    by (auto simp: scanner_next_def Let_def andthen_eq_Ok split: if_splits)
next
  case False
  then show ?thesis by (simp add: scanner_next_def sc_rest_def)
qed

lemma scanner_next_tail:
  assumes inv: "scanner_inv sc" and rest: "sc_rest sc = tag # tail" and tag: "tag \<noteq> 0"
  shows "scanner_next sc =
    andthen (ok_or (BE_ShortInput (length (sc_body sc) + 1) (length (sc_body sc))) (nul_pos tail)) (\<lambda>rel.
    andthen (ok_or BE_Utf8 (from_utf8 (take rel tail))) (\<lambda>name.
    let voff = Suc (sc_offset sc + (rel + 1)) in
    andthen (parse_value tag (drop (Suc rel) tail) (sc_parent sc) (4 + voff)) (\<lambda>(v, consumed).
    Ok (Some (name, v), sc\<lparr>sc_offset := voff + consumed\<rparr>))))"
proof -
  let ?b = "sc_body sc" and ?o = "sc_offset sc"
  have o: "?o < length ?b" using rest by (metis sc_rest_def drop_eq_Nil list.distinct(1) not_le)
  with rest have t: "?b ! ?o = tag" and d: "drop (Suc ?o) ?b = tail"
    by (auto simp: sc_rest_def dest: Cons_nth_drop_Suc [symmetric])
  have lt: "length tail = length ?b - Suc ?o" using d by auto
  show ?thesis
  proof (cases "nul_pos tail")
    case None
    then show ?thesis using o t d lt tag by (simp add: scanner_next_def Let_def)
  next
    case (Some rel)
    with nul_pos_Some [OF this] have rel: "rel < length tail" by simp
    have v: "drop (Suc (?o + (rel + 1))) ?b = drop (Suc rel) tail"
      using d by (metis drop_drop add_Suc_shift Suc_eq_plus1 add.commute)
    with Some o t d lt tag rel show ?thesis by (simp add: scanner_next_def Let_def)
  qed
qed

lemma value_offset:
  assumes inv: "scanner_inv sc" and rest: "sc_rest sc = tag # tail" and rel: "rel < length tail"
  shows "drop (Suc rel) tail = drop (4 + Suc (sc_offset sc + (rel + 1))) (sc_parent sc)
    \<and> 4 + Suc (sc_offset sc + (rel + 1)) \<le> length (sc_parent sc)"
proof -
  let ?p = "sc_parent sc" and ?o = "sc_offset sc"
  have d: "drop (4 + ?o) ?p = tag # tail"
    using inv rest by (simp add: scanner_inv_def sc_rest_def add.commute)
  then have "drop (Suc rel) tail = drop (Suc (Suc rel)) (drop (4 + ?o) ?p)" by simp
  moreover have "length ?p = 4 + ?o + Suc (length tail)"
    using arg_cong [OF d, of length] by simp
  ultimately show ?thesis using rel by (simp add: add_ac)
qed

lemma scanner_next_Some:
  assumes inv: "scanner_inv sc"
  shows "scanner_next sc = Ok (Some f, sc') \<longleftrightarrow>
    field_ok f \<and> (\<exists>r'. sc_rest sc = field_bytes f @ r')
    \<and> sc' = sc\<lparr>sc_offset := sc_offset sc + length (field_bytes f)\<rparr>"
proof (cases "sc_rest sc")
  case Nil
  then have "\<not> sc_offset sc < length (sc_body sc)" by (simp add: sc_rest_def)
  then show ?thesis using Nil by (simp add: scanner_next_def field_bytes_def)
next
  case (Cons tag tail)
  obtain name v where f: "f = (name, v)" by fastforce
  show ?thesis
  proof (cases "tag = 0")
    case True
    with Cons have "sc_body sc ! sc_offset sc = 0" "sc_offset sc < length (sc_body sc)"
      by (metis sc_rest_def nth_via_drop, metis sc_rest_def drop_eq_Nil list.distinct(1) not_le)
    with True Cons show ?thesis by (auto simp: scanner_next_def field_bytes_def Let_def split: if_splits)
  next
    case tag: False
    note eq = scanner_next_tail [OF inv Cons tag]
    show ?thesis
    proof
      assume "scanner_next sc = Ok (Some f, sc')"
      then obtain rel n where rel: "nul_pos tail = Some rel" and name: "from_utf8 (take rel tail) = Some name"
        and pv: "parse_value tag (drop (Suc rel) tail) (sc_parent sc) (4 + Suc (sc_offset sc + (rel + 1))) = Ok (v, n)"
        and sc': "sc' = sc\<lparr>sc_offset := Suc (sc_offset sc + (rel + 1)) + n\<rparr>"
        unfolding eq by (auto simp: andthen_eq_Ok Let_def f)
      note rl = nul_pos_Some [OF rel]
      from value_offset [OF inv Cons, of rel] rl
      have "drop (Suc rel) tail = drop (4 + Suc (sc_offset sc + (rel + 1))) (sc_parent sc)"
        "4 + Suc (sc_offset sc + (rel + 1)) \<le> length (sc_parent sc)" by simp_all
      from parse_value_Ok [OF this] pv obtain r' where v: "tag = raw_tag v" "raw_ok v" "n = length (raw_bytes v)"
        "drop (Suc rel) tail = raw_bytes v @ r'" by auto
      have tk: "take rel tail = as_bytes name" "wf_str name" "length name = rel"
        using from_utf8_Some_wf [OF name] rl by (auto simp: length_as_bytes [symmetric] simp del: length_as_bytes)
      have "tail = as_bytes name @ 0 # raw_bytes v @ r'"
        using nul_pos_split [OF rel] tk v by simp
      with v tk rl sc' Cons show "field_ok f \<and> (\<exists>r'. sc_rest sc = field_bytes f @ r')
          \<and> sc' = sc\<lparr>sc_offset := sc_offset sc + length (field_bytes f)\<rparr>"
        by (simp add: field_ok_def field_bytes_def f)
    next
      assume a: "field_ok f \<and> (\<exists>r'. sc_rest sc = field_bytes f @ r')
          \<and> sc' = sc\<lparr>sc_offset := sc_offset sc + length (field_bytes f)\<rparr>"
      then obtain r' where tail: "tail = as_bytes name @ 0 # raw_bytes v @ r'" and t: "tag = raw_tag v"
        and ok: "wf_str name" "0 \<notin> set (as_bytes name)" "raw_ok v"
        using Cons by (auto simp: field_ok_def field_bytes_def f)
      from value_offset [OF inv Cons, of "length name"] tail
      have "raw_bytes v @ r' = drop (4 + Suc (sc_offset sc + (length name + 1))) (sc_parent sc)"
        "4 + Suc (sc_offset sc + (length name + 1)) \<le> length (sc_parent sc)" by simp_all
      from parse_value_Ok [OF this, of tag v "length (raw_bytes v)"] t ok
      have "parse_value tag (raw_bytes v @ r') (sc_parent sc) (4 + Suc (sc_offset sc + (length name + 1)))
        = Ok (v, length (raw_bytes v))" by simp
      then show "scanner_next sc = Ok (Some f, sc')"
        unfolding eq using a ok by (simp add: tail Let_def f field_bytes_def)
    qed
  qed
qed

lemma scanner_next_panic:
  assumes inv: "scanner_inv sc"
  shows "scanner_next sc \<noteq> Panic"
proof (cases "sc_rest sc")
  case Nil
  then have "\<not> sc_offset sc < length (sc_body sc)" by (simp add: sc_rest_def)
  then show ?thesis by (simp add: scanner_next_def)
next
  case (Cons tag tail)
  show ?thesis
  proof (cases "tag = 0")
    case True
    with Cons have "sc_body sc ! sc_offset sc = 0" by (metis sc_rest_def nth_via_drop)
    then show ?thesis by (simp add: scanner_next_def Let_def)
  next
    case False
    show ?thesis
    proof
      assume "scanner_next sc = Panic"
      then obtain rel where rel: "nul_pos tail = Some rel"
        and "parse_value tag (drop (Suc rel) tail) (sc_parent sc) (4 + Suc (sc_offset sc + (rel + 1))) = Panic"
        unfolding scanner_next_tail [OF inv Cons False] by (auto simp: andthen_eq_Panic Let_def)
      with nul_pos_Some [OF rel] value_offset [OF inv Cons, of rel] parse_value_panic show False by blast
    qed
  qed
qed

section \<open>Iterating over raw fields\<close>

text \<open>\<open>FieldsIter\<close>: the loop of \<open>RawDocument::get\<close> over \<open>fields()\<close>.\<close>

record fields_iter =
  fi_scanner :: scanner
  fi_done :: bool

definition raw_fields :: "raw_document \<Rightarrow> fields_iter" where
  "raw_fields d = \<lparr>fi_scanner = scanner_new d, fi_done = False\<rparr>"

definition fields_iter_next ::
  "fields_iter \<Rightarrow> (bson_error, (bson_error, string \<times> raw_bson) result option \<times> fields_iter) result" where
  "fields_iter_next it =
     (if fi_done it then Ok (None, it)
      else case scanner_next (fi_scanner it) of
        Ok (Some f, sc) \<Rightarrow> Ok (Some (Ok f), it\<lparr>fi_scanner := sc\<rparr>)
      | Ok (None, sc) \<Rightarrow> Ok (None, it\<lparr>fi_scanner := sc, fi_done := True\<rparr>)
      | Err e \<Rightarrow> Ok (Some (Err e), it\<lparr>fi_done := True\<rparr>)
      | Panic \<Rightarrow> Panic)"

abbreviation iter_left :: "fields_iter \<Rightarrow> nat" where
  "iter_left it \<equiv> length (sc_body (fi_scanner it)) - sc_offset (fi_scanner it)"

lemma fields_iter_next_decreases:
  "fields_iter_next it = Ok (Some (Ok f), it') \<Longrightarrow> iter_left it' < iter_left it"
  by (auto simp: fields_iter_next_def split: if_splits result.splits option.splits prod.splits
      dest!: scanner_next_progress)

function raw_get_loop :: "string \<Rightarrow> fields_iter \<Rightarrow> (bson_error, raw_bson option) result" where
  "raw_get_loop key it =
     andthen (fields_iter_next it) (\<lambda>(item, it').
     case item of
       None \<Rightarrow> Ok None
     | Some item \<Rightarrow> andthen item (\<lambda>(name, v). if name = key then Ok (Some v) else raw_get_loop key it'))"
  by pat_completeness auto
termination
  by (relation "measure (\<lambda>(key, it). iter_left it)") (auto dest: fields_iter_next_decreases)

declare raw_get_loop.simps [simp del]

definition raw_get :: "raw_document \<Rightarrow> string \<Rightarrow> (bson_error, raw_bson option) result" where
  "raw_get d key = raw_get_loop key (raw_fields d)"

section \<open>Recursive decoding\<close>

datatype mode = Shallow | Deep

text \<open>
  The two \<open>while let Some(..) = scanner.next()?\<close> loops push what \<open>f\<close> makes of each field; the
  error of a field is reported before anything after it is scanned.
\<close>

function scan_loop :: "(string \<times> raw_bson \<Rightarrow> (bson_error, 'a) result) \<Rightarrow> scanner \<Rightarrow> (bson_error, 'a list) result" where
  "scan_loop f sc =
     andthen (scanner_next sc) (\<lambda>(item, sc').
     case item of
       None \<Rightarrow> Ok []
     | Some field \<Rightarrow> andthen (f field) (\<lambda>x. andthen (scan_loop f sc') (\<lambda>xs. Ok (x # xs))))"
  by pat_completeness auto
termination
  by (relation "measure (\<lambda>(f, sc). length (sc_body sc) - sc_offset sc)") (auto dest!: scanner_next_progress)

declare scan_loop.simps [simp del]

lemma scan_loop_cong [fundef_cong]:
  assumes "sc = sc'" "\<And>x. f x = g x"
  shows "scan_loop f sc = scan_loop g sc'"
proof -
  have "f = g" using assms(2) by blast
  with assms(1) show ?thesis by simp
qed

text \<open>The scalar arms of \<open>RawBsonRef::to_bson\<close>; the composite ones need \<open>shallow\<close> and follow below.\<close>

fun leaf_to_bson :: "raw_bson \<Rightarrow> bson option" where
  "leaf_to_bson (R_Double v) = Some (B_Double v)"
| "leaf_to_bson (R_String v) = Some (B_String v)"
| "leaf_to_bson (R_Binary v) = Some (B_Binary v)"
| "leaf_to_bson R_Undefined = Some B_Undefined"
| "leaf_to_bson (R_ObjectId v) = Some (B_ObjectId v)"
| "leaf_to_bson (R_Bool v) = Some (B_Bool v)"
| "leaf_to_bson (R_DateTime v) = Some (B_DateTime v)"
| "leaf_to_bson R_Null = Some B_Null"
| "leaf_to_bson (R_Regex v) = Some (B_Regex v)"
| "leaf_to_bson (R_DbPointer v) = Some (B_DbPointer v)"
| "leaf_to_bson (R_JavaScript v) = Some (B_JavaScript v)"
| "leaf_to_bson (R_Symbol v) = Some (B_Symbol v)"
| "leaf_to_bson (R_JavaScriptScope code scope) = Some (B_JavaScriptScope code scope)"
| "leaf_to_bson (R_Int32 v) = Some (B_Int32 v)"
| "leaf_to_bson (R_Timestamp v) = Some (B_Timestamp v)"
| "leaf_to_bson (R_Int64 v) = Some (B_Int64 v)"
| "leaf_to_bson (R_Decimal128 v) = Some (B_Decimal128 v)"
| "leaf_to_bson R_MinKey = Some B_MinKey"
| "leaf_to_bson R_MaxKey = Some B_MaxKey"
| "leaf_to_bson (R_Document _) = None"
| "leaf_to_bson (R_Array _) = None"

text \<open>
  \<open>decode_document\<close>, \<open>decode_array\<close>, \<open>decode_fields\<close> and \<open>materialize\<close>.  The last arm of
  \<open>materialize\<close> calls \<open>to_bson\<close> or \<open>deep\<close> by mode; it only sees leaves, on which both are
  \<open>leaf_to_bson\<close> (\<open>materialize_leaf\<close> below).
\<close>

function (sequential)
  decode_document :: "bytes \<Rightarrow> mode \<Rightarrow> nat \<Rightarrow> (bson_error, document) result"
  and decode_array :: "bytes \<Rightarrow> mode \<Rightarrow> nat \<Rightarrow> (bson_error, array) result"
  and decode_fields :: "bytes \<Rightarrow> mode \<Rightarrow> nat \<Rightarrow> (bson_error, document) result"
  and materialize :: "raw_bson \<Rightarrow> mode \<Rightarrow> nat \<Rightarrow> (bson_error, bson) result" where
  "decode_document bs mode depth = andthen (decode_fields bs mode depth) (\<lambda>fs. Ok fs)"
| "decode_array bs mode depth =
     (if depth > MAX_NESTING_DEPTH then Err (BE_NestedTooDeep MAX_NESTING_DEPTH)
      else scan_loop (\<lambda>(name, raw). materialize raw mode depth) (scanner_new bs))"
| "decode_fields bs mode depth =
     (if depth > MAX_NESTING_DEPTH then Err (BE_NestedTooDeep MAX_NESTING_DEPTH)
      else scan_loop (\<lambda>(name, raw). andthen (materialize raw mode depth) (\<lambda>v. Ok (name, v))) (scanner_new bs))"
| "materialize (R_Document d) mode depth =
     andthen (decode_document d mode (depth + 1)) (\<lambda>d. Ok (B_Document d))"
| "materialize (R_Array a) mode depth =
     andthen (decode_array a mode (depth + 1)) (\<lambda>a. Ok (B_Array a))"
| "materialize (R_JavaScriptScope code scope) mode depth = Ok (B_JavaScriptScope code scope)"
| "materialize other mode depth = (case leaf_to_bson other of Some v \<Rightarrow> Ok v | None \<Rightarrow> Panic)"
  by pat_completeness auto
termination
  by (relation "measure (\<lambda>x. case x of
        Inl (Inl (_, _, d)) \<Rightarrow> (if d > 20 then 0 else 4 * (21 - d)) + 1
      | Inl (Inr (_, _, d)) \<Rightarrow> (if d > 20 then 0 else 4 * (21 - d))
      | Inr (Inl (_, _, d)) \<Rightarrow> (if d > 20 then 0 else 4 * (21 - d))
      | Inr (Inr (_, _, d)) \<Rightarrow> (if d + 1 > 20 then 0 else 4 * (20 - d)) + 2)") auto

declare decode_document.simps [simp del] decode_array.simps [simp del] decode_fields.simps [simp del]

definition shallow :: "raw_document \<Rightarrow> (bson_error, document) result" where
  "shallow d = decode_document d Shallow 1"

definition deep :: "raw_document \<Rightarrow> (bson_error, document) result" where
  "deep d = decode_document d Deep 1"

definition array_shallow :: "raw_array \<Rightarrow> (bson_error, array) result" where
  "array_shallow a = decode_array a Shallow 1"

definition array_deep :: "raw_array \<Rightarrow> (bson_error, array) result" where
  "array_deep a = decode_array a Deep 1"

definition to_bson :: "raw_bson \<Rightarrow> (bson_error, bson) result" where
  "to_bson v = (case v of
     R_Document d \<Rightarrow> andthen (shallow d) (\<lambda>d. Ok (B_Document d))
   | R_Array a \<Rightarrow> andthen (array_shallow a) (\<lambda>a. Ok (B_Array a))
   | _ \<Rightarrow> (case leaf_to_bson v of Some v \<Rightarrow> Ok v | None \<Rightarrow> Panic))"

definition raw_deep :: "raw_bson \<Rightarrow> (bson_error, bson) result" where
  "raw_deep v = (case v of
     R_Document d \<Rightarrow> andthen (deep d) (\<lambda>d. Ok (B_Document d))
   | R_Array a \<Rightarrow> andthen (array_deep a) (\<lambda>a. Ok (B_Array a))
   | R_JavaScriptScope code scope \<Rightarrow> Ok (B_JavaScriptScope code scope)
   | _ \<Rightarrow> to_bson v)"

lemma materialize_leaf:
  "leaf_to_bson v \<noteq> None \<Longrightarrow>
     materialize v mode depth = (case mode of Shallow \<Rightarrow> to_bson v | Deep \<Rightarrow> raw_deep v)"
  by (cases v; cases mode) (simp_all add: to_bson_def raw_deep_def)

lemma materialize_scalar [simp]: "materialize (raw_of_scalar s) mode depth = Ok (bson_of_scalar s)"
  by (cases s) simp_all

section \<open>What a scan accepts\<close>

abbreviation fields_body :: "(string \<times> raw_bson) list \<Rightarrow> bytes" where
  "fields_body fs \<equiv> concat (map field_bytes fs)"

lemma scanner_inv_step [simp]:
  assumes "scanner_inv sc" "sc_rest sc = field_bytes f @ r'"
  shows "scanner_inv (sc\<lparr>sc_offset := sc_offset sc + length (field_bytes f)\<rparr>)"
    "sc_rest (sc\<lparr>sc_offset := sc_offset sc + length (field_bytes f)\<rparr>) = r'"
proof -
  have "length (sc_rest sc) = length (field_bytes f) + length r'" using assms(2) by simp
  with assms(1) show "scanner_inv (sc\<lparr>sc_offset := sc_offset sc + length (field_bytes f)\<rparr>)"
    unfolding scanner_inv_def sc_rest_def by auto
  have "r' = drop (length (field_bytes f)) (sc_rest sc)" using assms(2) by simp
  then show "sc_rest (sc\<lparr>sc_offset := sc_offset sc + length (field_bytes f)\<rparr>) = r'"
    by (simp add: sc_rest_def add.commute)
qed

lemma scanner_next_field:
  assumes "scanner_inv sc" "sc_rest sc = field_bytes f @ r'" "field_ok f"
  shows "scanner_next sc = Ok (Some f, sc\<lparr>sc_offset := sc_offset sc + length (field_bytes f)\<rparr>)"
  using assms by (simp add: scanner_next_Some)

lemma scan_loop_layout:
  "scanner_inv sc \<Longrightarrow> list_all field_ok fs \<Longrightarrow> sc_rest sc = fields_body fs @ [0]
     \<Longrightarrow> scan_loop f sc = traverse f fs"
proof (induction fs arbitrary: sc)
  case Nil
  then have "scanner_next sc = Ok (None, sc)" by (simp add: scanner_next_None)
  then show ?case by (subst scan_loop.simps) simp
next
  case (Cons x fs)
  then have r: "sc_rest sc = field_bytes x @ (fields_body fs @ [0])" by simp
  let ?sc = "sc\<lparr>sc_offset := sc_offset sc + length (field_bytes x)\<rparr>"
  have "scan_loop f ?sc = traverse f fs"
    using Cons scanner_inv_step [OF Cons.prems(1) r] by simp
  moreover have "scanner_next sc = Ok (Some x, ?sc)"
    using scanner_next_field [OF Cons.prems(1) r] Cons.prems by simp
  ultimately show ?case by (subst scan_loop.simps) simp
qed

lemma scan_loop_Ok:
  "scan_loop f sc = Ok ys \<Longrightarrow> scanner_inv sc \<Longrightarrow>
     \<exists>fs. list_all field_ok fs \<and> sc_rest sc = fields_body fs @ [0] \<and> list_all2 (\<lambda>x y. f x = Ok y) fs ys"
proof (induction f sc arbitrary: ys rule: scan_loop.induct)
  case (1 f sc)
  from "1.prems"(1) obtain item sc' where nx: "scanner_next sc = Ok (item, sc')"
    by (subst (asm) scan_loop.simps) (auto simp: andthen_eq_Ok)
  show ?case
  proof (cases item)
    case None
    with "1.prems"(1) nx have "ys = []" by (subst (asm) scan_loop.simps) simp
    with None nx show ?thesis by (auto simp: scanner_next_None intro: exI [of _ "[]"])
  next
    case (Some x)
    with "1.prems"(1) nx obtain y zs where y: "f x = Ok y" and zs: "scan_loop f sc' = Ok zs" and ys: "ys = y # zs"
      by (subst (asm) scan_loop.simps) (auto simp: andthen_eq_Ok)
    from nx Some "1.prems"(2) obtain r' where x: "field_ok x" "sc_rest sc = field_bytes x @ r'"
      and sc': "sc' = sc\<lparr>sc_offset := sc_offset sc + length (field_bytes x)\<rparr>"
      by (auto simp: scanner_next_Some)
    from "1.IH" [OF nx refl Some y zs] scanner_inv_step [OF "1.prems"(2) x(2)] sc'
    obtain fs where "list_all field_ok fs" "r' = fields_body fs @ [0]" "list_all2 (\<lambda>x y. f x = Ok y) fs zs"
      by auto
    with x y ys show ?thesis by (intro exI [of _ "x # fs"]) simp
  qed
qed

lemma scan_loop_not_Panic:
  "scanner_inv sc \<Longrightarrow> (\<And>x. field_ok x \<Longrightarrow> f x \<noteq> Panic) \<Longrightarrow> scan_loop f sc \<noteq> Panic"
proof (induction f sc rule: scan_loop.induct)
  case (1 f sc)
  have "f x \<noteq> Panic \<and> (\<forall>y. f x = Ok y \<longrightarrow> scan_loop f sc' \<noteq> Panic)" if nx: "scanner_next sc = Ok (Some x, sc')" for x sc'
  proof -
    from nx "1.prems"(1) obtain r' where x: "field_ok x" "sc_rest sc = field_bytes x @ r'"
      and sc': "sc' = sc\<lparr>sc_offset := sc_offset sc + length (field_bytes x)\<rparr>"
      by (auto simp: scanner_next_Some)
    with "1.prems" show ?thesis
      using scanner_inv_step [OF "1.prems"(1) x(2)] "1.IH" [OF nx refl refl]
      by (cases x) auto
  qed
  with scanner_next_panic [OF "1.prems"(1)] show ?case
    by (subst scan_loop.simps) (auto simp: andthen_eq_Panic split: option.splits)
qed

text \<open>The two decoding loops as traversals of the scanned fields.\<close>

abbreviation "decode_field mode depth \<equiv>
  (\<lambda>(name, raw). andthen (materialize raw mode depth) (\<lambda>v. Ok (name :: string, v)))"

lemma decode_fields_layout:
  assumes "list_all field_ok fs" "drop 4 bs = fields_body fs @ [0]" "depth \<le> 20"
  shows "decode_fields bs mode depth = traverse (decode_field mode depth) fs"
  using assms by (simp add: decode_fields.simps scan_loop_layout)

lemma decode_array_layout:
  assumes "list_all field_ok fs" "drop 4 bs = fields_body fs @ [0]" "depth \<le> 20"
  shows "decode_array bs mode depth = traverse (\<lambda>(name, raw). materialize raw mode depth) fs"
  using assms by (simp add: decode_array.simps scan_loop_layout)

lemma decode_fields_Ok:
  assumes "decode_fields bs mode depth = Ok ys"
  obtains fs where "depth \<le> 20" "list_all field_ok fs" "drop 4 bs = fields_body fs @ [0]"
    "list_all2 (\<lambda>x y. decode_field mode depth x = Ok y) fs ys"
  using assms scan_loop_Ok [of _ "scanner_new bs" ys]
  by (fastforce simp: decode_fields.simps split: if_splits)

lemma decode_array_Ok:
  assumes "decode_array bs mode depth = Ok ys"
  obtains fs where "depth \<le> 20" "list_all field_ok fs" "drop 4 bs = fields_body fs @ [0]"
    "list_all2 (\<lambda>x y. (\<lambda>(name, raw). materialize raw mode depth) x = Ok y) fs ys"
  using assms scan_loop_Ok [of _ "scanner_new bs" ys]
  by (fastforce simp: decode_array.simps split: if_splits)

lemma decode_document_eq [simp]: "decode_document bs mode depth = decode_fields bs mode depth"
  by (simp add: decode_document.simps andthen_def split: result.splits)


section \<open>Properties of decoding\<close>

lemma decode_panic:
  "decode_document bs mode depth \<noteq> Panic" "decode_array bs mode depth \<noteq> Panic"
  "decode_fields bs mode depth \<noteq> Panic" "materialize v mode depth \<noteq> Panic"
proof (induction bs mode depth and bs mode depth and bs mode depth and v mode depth
    rule: decode_document_decode_array_decode_fields_materialize.induct)
  case (2 bs mode depth)
  then show ?case
    using scan_loop_not_Panic [OF scanner_new_inv, of "\<lambda>(name, raw). materialize raw mode depth" bs]
    by (auto simp: decode_array.simps)
next
  case (3 bs mode depth)
  then show ?case
    using scan_loop_not_Panic [OF scanner_new_inv, of "decode_field mode depth" bs]
    by (auto simp: decode_fields.simps andthen_eq_Panic)
qed (auto simp: andthen_eq_Panic)

lemma decode_mode:
  "decode_document bs mode depth = decode_document bs mode' depth"
  "decode_array bs mode depth = decode_array bs mode' depth"
  "decode_fields bs mode depth = decode_fields bs mode' depth"
  "materialize v mode depth = materialize v mode' depth"
proof (induction bs mode depth and bs mode depth and bs mode depth and v mode depth
    rule: decode_document_decode_array_decode_fields_materialize.induct)
  case (2 bs mode depth)
  then show ?case by (auto simp: decode_array.simps intro!: scan_loop_cong)
next
  case (3 bs mode depth)
  then show ?case by (auto simp: decode_fields.simps intro!: scan_loop_cong)
qed simp_all

lemma decode_depth:
  "decode_document bs mode depth = Ok fs \<Longrightarrow> k \<le> depth \<Longrightarrow> decode_document bs mode k = Ok fs"
  "decode_array bs mode depth = Ok vs \<Longrightarrow> k \<le> depth \<Longrightarrow> decode_array bs mode k = Ok vs"
  "decode_fields bs mode depth = Ok fs \<Longrightarrow> k \<le> depth \<Longrightarrow> decode_fields bs mode k = Ok fs"
  "materialize raw mode depth = Ok v \<Longrightarrow> k \<le> depth \<Longrightarrow> materialize raw mode k = Ok v"
proof (induction bs mode depth and bs mode depth and bs mode depth and raw mode depth
    arbitrary: fs k and vs k and fs k and v k
    rule: decode_document_decode_array_decode_fields_materialize.induct)
  case (2 bs mode depth)
  from "2.prems"(1) obtain rs where rs: "depth \<le> 20" "list_all field_ok rs" "drop 4 bs = fields_body rs @ [0]"
    "list_all2 (\<lambda>x y. (\<lambda>(name, raw). materialize raw mode depth) x = Ok y) rs vs"
    by (rule decode_array_Ok)
  have "list_all2 (\<lambda>x y. (\<lambda>(name, raw). materialize raw mode k) x = Ok y) rs vs"
  proof (rule list_all2_mono [OF rs(4)], clarify)
    fix name raw v
    assume "materialize raw mode depth = Ok v"
    with "2.IH" rs(1) "2.prems"(2) show "materialize raw mode k = Ok v" by (meson not_less)
  qed
  with rs "2.prems"(2) show ?case by (simp add: decode_array_layout traverse_Ok_iff)
next
  case (3 bs mode depth)
  from "3.prems"(1) obtain rs where rs: "depth \<le> 20" "list_all field_ok rs" "drop 4 bs = fields_body rs @ [0]"
    "list_all2 (\<lambda>x y. decode_field mode depth x = Ok y) rs fs"
    by (rule decode_fields_Ok)
  have "list_all2 (\<lambda>x y. decode_field mode k x = Ok y) rs fs"
  proof (rule list_all2_mono [OF rs(4)], clarsimp simp: andthen_eq_Ok)
    fix raw v
    assume "materialize raw mode depth = Ok v"
    with "3.IH" rs(1) "3.prems"(2) show "materialize raw mode k = Ok v" by (meson not_less)
  qed
  with rs "3.prems"(2) show ?case by (simp add: decode_fields_layout traverse_Ok_iff)
next
  case (1 bs mode depth)
  then show ?case unfolding decode_document_eq by blast
next
  case (4 d mode depth)
  from "4.prems"(1) obtain fs where "decode_document d mode (depth + 1) = Ok fs" "v = B_Document fs"
    by (auto simp: andthen_eq_Ok)
  with "4.IH" [of fs "k + 1"] "4.prems"(2) show ?case by simp
next
  case (5 a mode depth)
  from "5.prems"(1) obtain vs where "decode_array a mode (depth + 1) = Ok vs" "v = B_Array vs"
    by (auto simp: andthen_eq_Ok)
  with "5.IH" [of vs "k + 1"] "5.prems"(2) show ?case by simp
qed simp_all


text \<open>
  (C25) No input makes the BSON decoder panic: for every byte string, in both modes and at every
  nesting level, decoding a document, an array or a single raw value returns a value or an error.
\<close>

theorem decode_never_panics:
  "decode_document bs mode depth \<noteq> Panic \<and> decode_array bs mode depth \<noteq> Panic
   \<and> materialize v mode depth \<noteq> Panic \<and> from_bytes bs \<noteq> Panic"
  by (simp only: decode_panic from_bytes_panic not_False_eq_True conj_absorb simp_thms)

text \<open>
  \<open>shallow\<close> and \<open>deep\<close> decode every document and every array to the same outcome: \<open>Bson\<close> has
  no raw composite variants, so the shallow mode materializes nested composites too, with the same
  nesting guard and the same errors.
\<close>

theorem shallow_eq_deep: "shallow d = deep d \<and> array_shallow a = array_deep a"
  unfolding shallow_def deep_def array_shallow_def array_deep_def by (metis decode_mode(1,2))

text \<open>
  The borrowing parser of the document walk and the scalar parser of \<open>mongo_common\<close> agree on
  every element tag but the three composite ones: same value, same number of bytes, and one
  rejects exactly when the other does.
\<close>

theorem parse_value_agrees_with_parse_scalar:
  assumes "tag \<noteq> TAG_DOCUMENT" "tag \<noteq> TAG_ARRAY" "tag \<noteq> TAG_JAVASCRIPT_SCOPE"
  shows "forget (parse_value tag rest parent a) =
    map_ok (\<lambda>(s, n). (raw_of_scalar s, n)) (forget (parse_scalar tag rest))"
  unfolding parse_value_def parse_scalar_def forget_andthen forget_parse_value_at [OF assms] map_ok_andthen
  by (simp add: forget_andthen andthen_assoc split_def usub_def if_distrib [of forget]
      if_distrib [of "\<lambda>m. andthen m _"] cong: if_cong)

theorem parse_value_agrees_with_parse_scalar_witness:
  "forget (parse_value TAG_BOOL [1, 0] [9] 0) =
    map_ok (\<lambda>(s, n). (raw_of_scalar s, n)) (forget (parse_scalar TAG_BOOL [1, 0]))"
  by (rule parse_value_agrees_with_parse_scalar) simp_all

text \<open>A one-field document, evaluated: \<open>{"a": null}\<close>.\<close>

lemma deep_sample: "deep [8, 0, 0, 0, 0x0A, 0x61, 0, 0] = Ok [(''a'', B_Null)]"
proof -
  have "list_all field_ok [(''a'', R_Null)]" "fields_body [(''a'', R_Null)] = [0x0A, 0x61, 0]"
    by (simp_all add: field_ok_def raw_ok_def field_bytes_def raw_tag_def tag_of_def raw_bytes_def eval_simps)
  then show ?thesis
    by (simp add: deep_def decode_fields_layout [where fs = "[(''a'', R_Null)]"])
qed

subsection \<open>Lookup in a raw document\<close>

lemma raw_get_loop_eq:
  "raw_get_loop key \<lparr>fi_scanner = sc, fi_done = False\<rparr> =
     andthen (scanner_next sc) (\<lambda>(item, sc').
     case item of
       None \<Rightarrow> Ok None
     | Some (name, v) \<Rightarrow> if name = key then Ok (Some v)
         else raw_get_loop key \<lparr>fi_scanner = sc', fi_done = False\<rparr>)"
  by (subst raw_get_loop.simps)
    (auto simp: fields_iter_next_def andthen_def split: result.splits option.splits prod.splits)

lemma raw_get_loop_layout:
  "scanner_inv sc \<Longrightarrow> list_all field_ok rs \<Longrightarrow> sc_rest sc = fields_body rs @ [0] \<Longrightarrow>
     raw_get_loop key \<lparr>fi_scanner = sc, fi_done = False\<rparr> = Ok (map_of rs key)"
proof (induction rs arbitrary: sc)
  case Nil
  then have "scanner_next sc = Ok (None, sc)" by (simp add: scanner_next_None)
  then show ?case by (simp add: raw_get_loop_eq)
next
  case (Cons x rs)
  then have r: "sc_rest sc = field_bytes x @ (fields_body rs @ [0])" by simp
  let ?sc = "sc\<lparr>sc_offset := sc_offset sc + length (field_bytes x)\<rparr>"
  have "raw_get_loop key \<lparr>fi_scanner = ?sc, fi_done = False\<rparr> = Ok (map_of rs key)"
    using Cons scanner_inv_step [OF Cons.prems(1) r] by simp
  moreover have "scanner_next sc = Ok (Some x, ?sc)"
    using scanner_next_field [OF Cons.prems(1) r] Cons.prems by simp
  ultimately show ?case by (cases x) (simp add: raw_get_loop_eq)
qed

lemma decoded_lookup:
  "list_all2 (\<lambda>x y. decode_field mode depth x = Ok y) rs fs \<Longrightarrow>
     (case map_of rs key of
        None \<Rightarrow> document_get fs key = None
      | Some raw \<Rightarrow> \<exists>v. materialize raw mode depth = Ok v \<and> document_get fs key = Some v)"
  by (induction rs fs rule: list_all2_induct) (auto simp: andthen_eq_Ok split: option.splits)

lemma raw_get_decoded:
  assumes "deep d = Ok doc"
  shows "case raw_get d key of
      Ok None \<Rightarrow> document_get doc key = None
    | Ok (Some raw) \<Rightarrow> \<exists>v. raw_deep raw = Ok v \<and> document_get doc key = Some v
    | _ \<Rightarrow> False"
proof -
  from assms have "decode_fields d Deep 1 = Ok doc" by (simp add: deep_def)
  then obtain rs where rs: "list_all field_ok rs" "drop 4 d = fields_body rs @ [0]"
    "list_all2 (\<lambda>x y. decode_field Deep 1 x = Ok y) rs doc" by (rule decode_fields_Ok)
  have get: "raw_get d key = Ok (map_of rs key)"
    unfolding raw_get_def raw_fields_def using rs by (simp add: raw_get_loop_layout)
  have deep: "raw_deep raw = Ok v" if "materialize raw Deep 1 = Ok v" for raw v
  proof (cases raw rule: raw_cases)
    case (Document b)
    with that obtain fs where "decode_document b Deep (1 + 1) = Ok fs" "v = B_Document fs"
      by (auto simp: andthen_eq_Ok)
    with decode_depth(1) [OF this(1), of 1] Document show ?thesis by (simp add: raw_deep_def deep_def)
  next
    case (Array b)
    with that obtain vs where "decode_array b Deep (1 + 1) = Ok vs" "v = B_Array vs"
      by (auto simp: andthen_eq_Ok)
    with decode_depth(2) [OF this(1), of 1] Array show ?thesis by (simp add: raw_deep_def array_deep_def)
  next
    case (Scope c s)
    with that show ?thesis by (simp add: raw_deep_def)
  next
    case (Scalar s)
    have "leaf_to_bson (raw_of_scalar s) \<noteq> None" by (cases s) simp_all
    from materialize_leaf [OF this, of Deep 1] that Scalar show ?thesis by simp
  qed
  from decoded_lookup [OF rs(3), of key] get deep show ?thesis
    by (auto split: option.splits)
qed

text \<open>
  (C33) On every document that decodes, the lazy lookup \<open>RawDocument::get\<close> finds the same field as
  \<open>Document::get\<close> on the decoded document: both find nothing, or the raw value found decodes
  (\<open>RawBsonRef::deep\<close>) to the eager value found.
\<close>

theorem raw_get_finds_decoded:
  assumes "deep d = Ok doc"
  shows "case raw_get d key of
      Ok None \<Rightarrow> document_get doc key = None
    | Ok (Some raw) \<Rightarrow> \<exists>v. raw_deep raw = Ok v \<and> document_get doc key = Some v
    | _ \<Rightarrow> False"
  using assms by (rule raw_get_decoded)

theorem raw_get_finds_decoded_witness:
  "case raw_get [8, 0, 0, 0, 0x0A, 0x61, 0, 0] ''a'' of
      Ok None \<Rightarrow> document_get [(''a'', B_Null)] ''a'' = None
    | Ok (Some raw) \<Rightarrow> \<exists>v. raw_deep raw = Ok v \<and> document_get [(''a'', B_Null)] ''a'' = Some v
    | _ \<Rightarrow> False"
  by (rule raw_get_finds_decoded [OF deep_sample])

lemma raw_command_decoded:
  assumes "deep d = Ok doc"
  shows "raw_command d = Ok (case document_command doc of None \<Rightarrow> [] | Some name \<Rightarrow> name)"
proof -
  from assms have "decode_fields d Deep 1 = Ok doc" by (simp add: deep_def)
  then obtain rs where rs: "list_all field_ok rs" "drop 4 d = fields_body rs @ [0]"
    "list_all2 (\<lambda>x y. decode_field Deep 1 x = Ok y) rs doc" by (rule decode_fields_Ok)
  have "4 \<le> length d" using arg_cong [OF rs(2), of length] by simp
  with rs show ?thesis
    by (cases rs) (auto simp: raw_command_def document_command_def field_bytes_def field_ok_def andthen_eq_Ok
        list_all2_Cons1)
qed

text \<open>
  The command name read off the raw bytes (\<open>RawDocument::command\<close>) is the name of the first
  decoded field, and the empty string for an empty document.
\<close>

theorem raw_command_first_field:
  assumes "deep d = Ok doc"
  shows "raw_command d = Ok (case document_command doc of None \<Rightarrow> [] | Some name \<Rightarrow> name)"
  using assms by (rule raw_command_decoded)

theorem raw_command_first_field_witness:
  "raw_command [8, 0, 0, 0, 0x0A, 0x61, 0, 0] =
     Ok (case document_command [(''a'', B_Null)] of None \<Rightarrow> [] | Some name \<Rightarrow> name)"
  by (rule raw_command_first_field [OF deep_sample])

section \<open>Outcomes of the raw accessors\<close>

lemma raw_get_loop_outcome:
  "scanner_inv (fi_scanner it) \<Longrightarrow> raw_get_loop key it \<noteq> Panic
     \<and> (\<forall>v. raw_get_loop key it = Ok (Some v) \<longrightarrow> raw_ok v)"
proof (induction key it rule: raw_get_loop.induct)
  case (1 key it)
  have step: "item \<noteq> Panic \<and> (\<forall>name v. item = Ok (name, v) \<longrightarrow> raw_ok v \<and> scanner_inv (fi_scanner it'))"
    if nx: "fields_iter_next it = Ok (Some item, it')" for item it'
  proof -
    from nx consider (some) f sc where "scanner_next (fi_scanner it) = Ok (Some f, sc)" "item = Ok f" "it' = it\<lparr>fi_scanner := sc\<rparr>"
      | (err) e where "item = Err e"
      by (auto simp: fields_iter_next_def split: if_splits result.splits option.splits prod.splits)
    then show ?thesis
    proof cases
      case some
      from some(1) "1.prems" obtain r' where f: "field_ok f" "sc_rest (fi_scanner it) = field_bytes f @ r'"
        and sc: "sc = (fi_scanner it)\<lparr>sc_offset := sc_offset (fi_scanner it) + length (field_bytes f)\<rparr>"
        by (auto simp: scanner_next_Some)
      from scanner_inv_step [OF "1.prems" f(2)] f(1) some sc show ?thesis by (auto simp: field_ok_def)
    qed auto
  qed
  have "fields_iter_next it \<noteq> Panic"
    using scanner_next_panic [OF "1.prems"] by (auto simp: fields_iter_next_def split: result.splits option.splits prod.splits)
  with step "1.IH" show ?case
    by (subst (1 2) raw_get_loop.simps) (fastforce simp: andthen_eq_Panic andthen_eq_Ok split: option.splits if_splits)
qed

lemma raw_get_panic [simp, panic_free]: "raw_get d key \<noteq> Panic"
  using raw_get_loop_outcome [of "raw_fields d" key] by (simp add: raw_get_def raw_fields_def)

lemma raw_get_ok: "raw_get d key = Ok (Some v) \<Longrightarrow> raw_ok v"
  using raw_get_loop_outcome [of "raw_fields d" key] by (simp add: raw_get_def raw_fields_def)

lemma raw_command_outcome: "raw_command d \<noteq> Panic \<and> (\<forall>name. raw_command d = Ok name \<longrightarrow> wf_str name)"
proof (cases "4 \<le> length d")
  case True
  moreover have "wf_str []" by (simp add: eval_simps)
  ultimately show ?thesis
    by (cases "drop 4 d"; cases "nul_pos (tl (drop 4 d))")
      (auto simp: raw_command_def ok_or_def slice_def split: option.splits
        dest!: from_utf8_Some_wf [THEN conjunct1] nul_pos_Some)
qed (simp add: raw_command_def ok_or_def)

lemmas raw_command_panic [simp, panic_free] = raw_command_outcome [THEN conjunct1]
lemmas raw_command_wf = raw_command_outcome [THEN conjunct2, rule_format]

end
