(* ===== verification/Bson_Encode.thy ===== *)
theory Bson_Encode
  imports Bson_Decode
begin

text \<open>
  Encoding: \<open>encode.rs\<close> (documents, arrays, fields, values and the length patch), with
  \<open>Document::encode\<close> and \<open>Array::encode\<close>.  \<open>bson_bytes\<close> is the canonical layout, \<open>wf_bson\<close> the
  values that can come off the wire and \<open>nesting\<close> the number of levels the decoder's guard counts.
  The theory proves the encoder writes the layout, the decoder reads it back, and every decoded
  document encodes again.
\<close>

section \<open>Encoding\<close>

definition patch_len :: "bytes \<Rightarrow> nat \<Rightarrow> (bson_error, bytes) result" where
  "patch_len out len_pos =
     andthen (usub (length out) len_pos) (\<lambda>total.
     andthen (ok_or (BE_InvalidInput len_pos ''document exceeds the maximum BSON length'') (i32_try_from total)) (\<lambda>total.
     put_i32_le_at len_pos total out))"

text \<open>\<open>i32::try_from(s.len()).ok().and_then(|l| l.checked_add(1))\<close>.\<close>

definition encode_str :: "bytes \<Rightarrow> string \<Rightarrow> (bson_error, bytes) result" where
  "encode_str out s =
     andthen (ok_or (BE_InvalidInput (length out) ''string too large'')
       (case i32_try_from (length (as_bytes s)) of
          Some l \<Rightarrow> if sint l = 2147483647 then None else Some (l + 1)
        | None \<Rightarrow> None)) (\<lambda>len.
     Ok (put_u8 0 (put_bytes (as_bytes s) (put_i32_le len out))))"

text \<open>The loops over \<open>doc.fields\<close> and \<open>arr.values.iter().enumerate()\<close> thread the buffer.\<close>

fun bson_size :: "bson \<Rightarrow> nat" where
  "bson_size (B_Document fs) = 2 + sum_list (map (\<lambda>f. bson_size (snd f) + 1) fs)"
| "bson_size (B_Array vs) = 2 + sum_list (map (\<lambda>v. bson_size v + 1) vs)"
| "bson_size _ = 1"

lemma sum_list_double: "sum_list (map (\<lambda>x. Suc (Suc (2 * f x))) xs) = 2 * sum_list (map (\<lambda>x. Suc (f x)) xs)"
  by (induction xs) simp_all

function encode_document :: "document \<Rightarrow> bytes \<Rightarrow> (bson_error, bytes) result"
  and encode_fields :: "document \<Rightarrow> bytes \<Rightarrow> (bson_error, bytes) result"
  and encode_array :: "array \<Rightarrow> bytes \<Rightarrow> (bson_error, bytes) result"
  and encode_elems :: "nat \<Rightarrow> array \<Rightarrow> bytes \<Rightarrow> (bson_error, bytes) result"
  and encode_field :: "bytes \<Rightarrow> string \<Rightarrow> bson \<Rightarrow> (bson_error, bytes) result"
  and encode_value :: "bytes \<Rightarrow> bson \<Rightarrow> (bson_error, bytes) result" where
  "encode_document fs out =
     (let (len_pos, out) = placeholder_i32 out in
      andthen (encode_fields fs out) (\<lambda>out. patch_len (put_u8 0 out) len_pos))"
| "encode_fields fs out =
     (case fs of
        [] \<Rightarrow> Ok out
      | (name, v) # fs \<Rightarrow> andthen (encode_field out name v) (\<lambda>out. encode_fields fs out))"
| "encode_array vs out =
     (let (len_pos, out) = placeholder_i32 out in
      andthen (encode_elems 0 vs out) (\<lambda>out. patch_len (put_u8 0 out) len_pos))"
| "encode_elems i vs out =
     (case vs of
        [] \<Rightarrow> Ok out
      | v # vs \<Rightarrow> andthen (encode_field out (show_nat i) v) (\<lambda>out. encode_elems (i + 1) vs out))"
| "encode_field out name v =
     (let field_start = length out in
      let out = put_u8 (bson_tag v) out in
      andthen (map_err (\<lambda>_. BE_InvalidInput field_start ''interior NUL in field name'') (put_cstring name out)) (\<lambda>out.
      encode_value out v))"
| "encode_value out v =
     (case v of
        B_Document fs \<Rightarrow> encode_document fs out
      | B_Array vs \<Rightarrow> encode_array vs out
      | B_JavaScriptScope code scope \<Rightarrow>
          (if length scope < MIN_DOC_LEN then Err (BE_InvalidInput (length out) ''empty JavaScript scope document'')
           else let (len_pos, out) = placeholder_i32 out in
             andthen (encode_str out code) (\<lambda>out.
             let out = put_bytes scope out in patch_len out len_pos))
      | other \<Rightarrow>
          andthen (ok_or (BE_InvalidInput (length out) ''unexpected composite value without as_scalar()'') (as_scalar other)) (\<lambda>s.
          andthen (map_err BE_Scalar (encode_scalar s out)) (\<lambda>(out, _). Ok out)))"
  by pat_completeness auto
termination
  by (relation "measure (\<lambda>x. case x of
        Inl (Inl (fs, _)) \<Rightarrow> sum_list (map (\<lambda>f. 2 * bson_size (snd f) + 2) fs) + 1
      | Inl (Inr (Inl (fs, _))) \<Rightarrow> sum_list (map (\<lambda>f. 2 * bson_size (snd f) + 2) fs)
      | Inl (Inr (Inr (vs, _))) \<Rightarrow> sum_list (map (\<lambda>v. 2 * bson_size v + 2) vs) + 1
      | Inr (Inl (_, vs, _)) \<Rightarrow> sum_list (map (\<lambda>v. 2 * bson_size v + 2) vs)
      | Inr (Inr (Inl (_, _, v))) \<Rightarrow> 2 * bson_size v + 1
      | Inr (Inr (Inr (_, v))) \<Rightarrow> 2 * bson_size v)")
    (auto simp: sum_list_double)

declare encode_document.simps [simp del] encode_fields.simps [simp del] encode_array.simps [simp del]
  encode_elems.simps [simp del] encode_field.simps [simp del] encode_value.simps [simp del]

text \<open>\<open>Document::encode\<close> and \<open>Array::encode\<close>.\<close>

definition document_encode :: "document \<Rightarrow> (bson_error, raw_document) result" where
  "document_encode fs = andthen (encode_document fs []) (\<lambda>out. from_bytes out)"

definition array_encode :: "array \<Rightarrow> (bson_error, raw_array) result" where
  "array_encode vs = andthen (encode_array vs []) (\<lambda>out. array_from_bytes out)"

section \<open>The canonical layout\<close>

text \<open>An array is laid out as a document whose names are the decimal indices.\<close>

definition named :: "'a list \<Rightarrow> (string \<times> 'a) list" where
  "named vs = zip (map show_nat [0..<length vs]) vs"

lemma set_named: "(n, v) \<in> set (named vs) \<Longrightarrow> v \<in> set vs"
  by (auto simp: named_def dest: set_zip_rightD)

lemma named_member: "f \<in> set (named vs) \<Longrightarrow> snd f \<in> set vs \<and> fst f \<in> range show_nat"
  by (auto simp: named_def set_zip)

lemma size_named [termination_simp]:
  fixes v :: bson
  shows "(n, v) \<in> set (named vs) \<Longrightarrow> size v < Suc (size_list size vs)"
  using size_list_estimation' [of v vs "size v" size] by (simp add: set_named less_Suc_eq_le)

fun bson_bytes :: "bson \<Rightarrow> bytes" where
  "bson_bytes (B_Document fs) =
     frame (concat (map (\<lambda>f. bson_tag (snd f) # as_bytes (fst f) @ 0 # bson_bytes (snd f)) fs))"
| "bson_bytes (B_Array vs) =
     frame (concat (map (\<lambda>f. bson_tag (snd f) # as_bytes (fst f) @ 0 # bson_bytes (snd f)) (named vs)))"
| "bson_bytes (B_JavaScriptScope c s) = to_le32 (u32_of_nat (9 + length c + length s)) @ string_bytes c @ s"
| "bson_bytes v = scalar_bytes (the (as_scalar v))"

abbreviation elem_bytes :: "field \<Rightarrow> bytes" where
  "elem_bytes f \<equiv> bson_tag (snd f) # as_bytes (fst f) @ 0 # bson_bytes (snd f)"

abbreviation doc_bytes :: "document \<Rightarrow> bytes" where
  "doc_bytes fs \<equiv> frame (concat (map elem_bytes fs))"


fun wf_bson :: "bson \<Rightarrow> bool" where
  "wf_bson (B_Document fs) \<longleftrightarrow>
     list_all (\<lambda>f. wf_str (fst f) \<and> 0 \<notin> set (as_bytes (fst f)) \<and> wf_bson (snd f)) fs"
| "wf_bson (B_Array vs) \<longleftrightarrow> list_all wf_bson vs"
| "wf_bson (B_JavaScriptScope c s) \<longleftrightarrow> wf_str c \<and> frame_ok s"
| "wf_bson v \<longleftrightarrow> scalar_ok (the (as_scalar v))"

abbreviation wf_doc :: "document \<Rightarrow> bool" where
  "wf_doc fs \<equiv> wf_bson (B_Document fs)"

text \<open>Levels of nesting below a value; a document at level \<open>k\<close> needs \<open>k + nesting\<close> within the guard.\<close>

fun nesting :: "bson \<Rightarrow> nat" where
  "nesting (B_Document fs) = Suc (foldr (\<lambda>f. max (nesting (snd f))) fs 0)"
| "nesting (B_Array vs) = Suc (foldr (\<lambda>v. max (nesting v)) vs 0)"
| "nesting _ = 0"

lemma foldr_max_le: "foldr (\<lambda>x. max (f x)) xs 0 \<le> (k :: nat) \<longleftrightarrow> (\<forall>x \<in> set xs. f x \<le> k)"
  by (induction xs) auto

lemma layout_of_scalar [simp]:
  "bson_bytes (bson_of_scalar s) = scalar_bytes s" "wf_bson (bson_of_scalar s) \<longleftrightarrow> scalar_ok s"
  "nesting (bson_of_scalar s) = 0"
  by (cases s; simp add: as_scalar_def)+

lemma bson_induct [case_names Document Array Scope Scalar]:
  assumes "\<And>fs. (\<And>f. f \<in> set fs \<Longrightarrow> P (snd f)) \<Longrightarrow> P (B_Document fs)"
    and "\<And>vs. (\<And>v. v \<in> set vs \<Longrightarrow> P v) \<Longrightarrow> P (B_Array vs)"
    and "\<And>c s. P (B_JavaScriptScope c s)" and "\<And>s. P (bson_of_scalar s)"
  shows "P v"
proof (induction v rule: measure_induct_rule [of size])
  case (less v)
  show ?case
  proof (cases v rule: bson_cases_scalar)
    case (Document fs)
    have "P (snd f)" if f: "f \<in> set fs" for f
    proof -
      obtain n w where "f = (n, w)" by fastforce
      with f have "size w < size v"
        using size_list_estimation' [of f fs "size_prod (\<lambda>_. 0) size f" "size_prod (\<lambda>_. 0) size"] Document
        by simp
      with less \<open>f = (n, w)\<close> show ?thesis by simp
    qed
    with assms(1) Document show ?thesis by blast
  next
    case (Array vs)
    have "size w < size v" if "w \<in> set vs" for w
      using size_list_estimation' [OF that, of "size w" size] Array by simp
    with assms(2) less Array show ?thesis by blast
  qed (use assms in auto)
qed

section \<open>Encoding writes the layout\<close>

lemma encode_fields_simps [simp]:
  "encode_fields [] out = Ok out"
  "encode_fields ((name, v) # fs) out = andthen (encode_field out name v) (\<lambda>out. encode_fields fs out)"
  by (simp_all add: encode_fields.simps [of "[]"] encode_fields.simps [of "_ # _"])

lemma encode_elems_eq: "encode_elems i vs out = encode_fields (zip (map show_nat [i..<i + length vs]) vs) out"
proof (induction vs arbitrary: i out)
  case Nil
  then show ?case by (simp add: encode_elems.simps)
next
  case (Cons v vs)
  have "[i..<i + length (v # vs)] = i # [Suc i..<Suc i + length vs]"
    by (simp add: upt_conv_Cons del: upt_Suc)
  moreover have "encode_elems (Suc i) vs = encode_fields (zip (map show_nat [Suc i..<Suc i + length vs]) vs)"
    by (rule ext) (rule Cons.IH)
  ultimately show ?case by (subst encode_elems.simps) (simp del: upt_Suc)
qed

lemma encode_array_eq: "encode_array vs out = encode_document (named vs) out"
  by (simp add: encode_array.simps encode_document.simps encode_elems_eq named_def)

lemma encode_value_simps [simp]:
  "encode_value out (B_Document fs) = encode_document fs out"
  "encode_value out (B_Array vs) = encode_document (named vs) out"
  "encode_value out (bson_of_scalar s) = andthen (map_err BE_Scalar (encode_scalar s out)) (\<lambda>(out, _). Ok out)"
  by (simp_all add: encode_value.simps [of _ "B_Document _"] encode_value.simps [of _ "B_Array _"] encode_array_eq)
    (cases s; simp add: encode_value.simps as_scalar_def)

lemma encode_field_eq:
  "0 \<notin> set (as_bytes name) \<Longrightarrow>
     encode_field out name v = encode_value (out @ bson_tag v # as_bytes name @ [0]) v"
  by (simp add: encode_field.simps Let_def put_defs)

lemma patch_len_eq:
  "patch_len (pre @ [0, 0, 0, 0] @ post) (length pre) =
     (if length post + 4 \<le> 2147483647 then Ok (pre @ to_le32 (u32_of_nat (length post + 4)) @ post)
      else Err (BE_InvalidInput (length pre) ''document exceeds the maximum BSON length''))"
  using put_i32_le_at_end [of pre _ post, where ?'a = bson_error]
  by (simp add: patch_len_def i32_try_from_def add.commute)

lemma encode_document_frame:
  assumes "encode_fields fs (out @ [0, 0, 0, 0]) = Ok (out @ [0, 0, 0, 0] @ body)"
  shows "encode_document fs out =
    (if length (frame body) \<le> 2147483647 then Ok (out @ frame body)
     else Err (BE_InvalidInput (length out) ''document exceeds the maximum BSON length''))"
proof -
  have "encode_document fs out = patch_len (out @ [0, 0, 0, 0] @ (body @ [0])) (length out)"
    using assms by (simp add: encode_document.simps placeholder_i32_def put_defs Let_def)
  also have "\<dots> = (if length (frame body) \<le> 2147483647 then Ok (out @ frame body)
     else Err (BE_InvalidInput (length out) ''document exceeds the maximum BSON length''))"
    unfolding patch_len_eq by (simp add: frame_def add.commute)
  finally show ?thesis .
qed

abbreviation enc_spec :: "bytes \<Rightarrow> bytes \<Rightarrow> (bson_error, bytes) result \<Rightarrow> bool" where
  "enc_spec out b m \<equiv> m = Ok (out @ b) \<or> (\<exists>e. m = Err e) \<and> 2147483647 < length b"

lemma encode_fields_spec:
  assumes "\<And>f out. f \<in> set fs \<Longrightarrow> enc_spec out (bson_bytes (snd f)) (encode_value out (snd f))"
    and "\<And>f. f \<in> set fs \<Longrightarrow> 0 \<notin> set (as_bytes (fst f))"
  shows "enc_spec out (concat (map elem_bytes fs)) (encode_fields fs out)"
  using assms
proof (induction fs arbitrary: out)
  case (Cons f fs)
  obtain n v where f: "f = (n, v)" by fastforce
  let ?out = "out @ bson_tag v # as_bytes n @ [0]"
  have fld: "encode_field out n v = encode_value ?out v"
    using Cons.prems(2) [of f] f by (simp add: encode_field_eq)
  from Cons.prems(1) [of f ?out] f consider "encode_value ?out v = Ok (?out @ bson_bytes v)"
    | e where "encode_value ?out v = Err e" "2147483647 < length (bson_bytes v)" by auto
  then show ?case
  proof cases
    case 1
    have "enc_spec (out @ elem_bytes f) (concat (map elem_bytes fs)) (encode_fields fs (out @ elem_bytes f))"
      using Cons.prems by (intro Cons.IH) auto
    with 1 show ?thesis using fld f by auto
  next
    case 2
    then show ?thesis using fld f by auto
  qed
qed simp

lemma encode_document_spec:
  assumes "\<And>f out. f \<in> set fs \<Longrightarrow> enc_spec out (bson_bytes (snd f)) (encode_value out (snd f))"
    and "\<And>f. f \<in> set fs \<Longrightarrow> 0 \<notin> set (as_bytes (fst f))"
  shows "if length (doc_bytes fs) \<le> 2147483647 then encode_document fs out = Ok (out @ doc_bytes fs)
     else \<exists>e. encode_document fs out = Err e"
proof -
  let ?body = "concat (map elem_bytes fs)" and ?out = "out @ [0, 0, 0, 0]"
  have "enc_spec ?out ?body (encode_fields fs ?out)" using assms by (rule encode_fields_spec)
  then consider "encode_fields fs ?out = Ok (?out @ ?body)"
    | e where "encode_fields fs ?out = Err e" "2147483647 < length ?body" by auto
  then show ?thesis
  proof cases
    case 1
    then show ?thesis using encode_document_frame [of fs out ?body] by auto
  next
    case 2
    then have "encode_document fs out = Err e"
      by (simp add: encode_document.simps placeholder_i32_def put_defs Let_def)
    with 2 show ?thesis by (simp add: frame_def)
  qed
qed

lemma encode_str_eq:
  "encode_str out s = (if length s + 1 \<le> 2147483647 then Ok (out @ string_bytes s)
     else Err (BE_InvalidInput (length out) ''string too large''))"
proof (cases "length s \<le> 2147483647")
  case True
  have "u32_of_nat (length s) + 1 = u32_of_nat (Suc (length s))"
    by (simp add: u32_of_nat_def)
  moreover have "sint (u32_of_nat (length s)) = int (length s)" using True by simp
  ultimately show ?thesis using True
    by (auto simp: encode_str_def i32_try_from_def string_bytes_def put_defs)
qed (simp add: encode_str_def i32_try_from_def)

lemma encode_scope_eq:
  assumes "5 \<le> length s"
  shows "enc_spec out (bson_bytes (B_JavaScriptScope c s)) (encode_value out (B_JavaScriptScope c s))"
proof -
  have "encode_value out (B_JavaScriptScope c s) =
    andthen (encode_str (out @ [0, 0, 0, 0]) c) (\<lambda>o'. patch_len (o' @ s) (length out))"
    using assms by (simp add: encode_value.simps placeholder_i32_def put_defs Let_def)
  then show ?thesis
    using patch_len_eq [of out "string_bytes c @ s"]
    by (auto simp: encode_str_eq add_ac)
qed

lemma named_nul_free: "f \<in> set (named vs) \<Longrightarrow> 0 \<notin> set (as_bytes (fst f))"
  by (cases f) (auto simp: named_def dest!: set_zip_leftD)

lemma encode_value_spec: "wf_bson v \<Longrightarrow> enc_spec out (bson_bytes v) (encode_value out v)"
proof (induction v arbitrary: out rule: bson_induct)
  case (Document fs)
  then show ?case using encode_document_spec [of fs out] by (auto simp: list_all_iff split: if_splits)
next
  case (Array vs)
  then have "enc_spec o' (bson_bytes (snd f)) (encode_value o' (snd f))" if "f \<in> set (named vs)" for f o'
    using that by (cases f) (auto simp: list_all_iff dest!: set_named)
  with encode_document_spec [of "named vs" out] named_nul_free show ?case
    by (fastforce split: if_splits)
next
  case (Scope c s)
  then show ?case using encode_scope_eq [of s out c] frame_ok_length [of s] by simp
next
  case (Scalar s)
  then show ?case using encode_scalar_layout [of s out] scalar_len_field_le [of s] by auto
qed

lemma encode_document_layout:
  assumes "wf_doc fs"
  shows "if length (doc_bytes fs) \<le> 2147483647 then encode_document fs out = Ok (out @ doc_bytes fs)
     else \<exists>e. encode_document fs out = Err e"
  using assms by (intro encode_document_spec encode_value_spec) (auto simp: list_all_iff)


section \<open>Decoding the layout\<close>

definition raw_of :: "bson \<Rightarrow> raw_bson" where
  "raw_of v = (case v of
     B_Document _ \<Rightarrow> R_Document (bson_bytes v)
   | B_Array _ \<Rightarrow> R_Array (bson_bytes v)
   | B_JavaScriptScope c s \<Rightarrow> R_JavaScriptScope c s
   | _ \<Rightarrow> raw_of_scalar (the (as_scalar v)))"

lemma raw_of_simps [simp]:
  "raw_of (B_Document fs) = R_Document (doc_bytes fs)" "raw_of (B_Array vs) = R_Array (doc_bytes (named vs))"
  "raw_of (B_JavaScriptScope c sc) = R_JavaScriptScope c sc" "raw_of (bson_of_scalar s) = raw_of_scalar s"
  by (simp_all add: raw_of_def) (cases s; simp add: as_scalar_def)

lemma raw_of_layout [simp]: "raw_bytes (raw_of v) = bson_bytes v" "raw_tag (raw_of v) = bson_tag v"
  by (cases v rule: bson_cases_scalar; simp)+

lemma raw_of_ok: "wf_bson v \<Longrightarrow> length (bson_bytes v) < 4294967296 \<Longrightarrow> raw_ok (raw_of v)"
proof (cases v rule: bson_cases_scalar)
  case (Scalar s)
  assume "wf_bson v" "length (bson_bytes v) < 4294967296"
  with Scalar scalar_len_field_le [of s] show ?thesis by simp
qed simp_all

definition raw_field :: "field \<Rightarrow> string \<times> raw_bson" where
  "raw_field f = (fst f, raw_of (snd f))"

lemma field_bytes_raw_field [simp]: "field_bytes (raw_field f) = elem_bytes f"
  by (simp add: field_bytes_def raw_field_def)

lemma fields_body_raw [simp]: "map (field_bytes \<circ> raw_field) fs = map elem_bytes fs"
  by simp

lemma length_elem_le: "f \<in> set fs \<Longrightarrow> length (bson_bytes (snd f)) < length (doc_bytes fs)"
  by (induction fs) (auto simp: frame_def)

lemma fields_ok_raw:
  assumes "\<And>f. f \<in> set fs \<Longrightarrow> wf_str (fst f) \<and> 0 \<notin> set (as_bytes (fst f)) \<and> wf_bson (snd f)"
    and "length (doc_bytes fs) < 4294967296"
  shows "list_all field_ok (map raw_field fs)"
  unfolding list_all_iff
proof
  fix x assume "x \<in> set (map raw_field fs)"
  then obtain f where f: "f \<in> set fs" "x = raw_field f" by auto
  with assms(1) length_elem_le [OF f(1)] assms(2) show "field_ok x"
    by (simp add: field_ok_def raw_field_def raw_of_ok)
qed

text \<open>What decoding the layout of a value gives at nesting level \<open>depth\<close>.\<close>

abbreviation guarded :: "nat \<Rightarrow> nat \<Rightarrow> 'a \<Rightarrow> (bson_error, 'a) result" where
  "guarded depth n x \<equiv> (if depth + n \<le> 20 then Ok x else Err (BE_NestedTooDeep 20))"

lemma traverse_guarded:
  assumes "\<And>x. x \<in> set xs \<Longrightarrow> f x = guarded depth (n x) (g x)"
  shows "traverse f xs = guarded depth (foldr (\<lambda>x. max (n x)) xs 0) (map g xs) \<or> depth > 20"
  using assms
  by (induction xs) auto

lemma map_snd_named [simp]: "map snd (named vs) = vs"
  by (simp add: named_def)

lemma foldr_named: "foldr (\<lambda>f. max (k (snd f))) (named vs) (0 :: nat) = foldr (\<lambda>v. max (k v)) vs 0"
proof -
  have "foldr (\<lambda>f. max (k (snd f))) fs (0 :: nat) = foldr (\<lambda>v. max (k v)) (map snd fs) 0" for fs
    by (induction fs) auto
  from this [of "named vs"] show ?thesis by simp
qed

lemma decode_fields_guarded:
  assumes ok: "list_all field_ok (map raw_field fs)"
    and ih: "\<And>f. f \<in> set fs \<Longrightarrow> depth \<le> 20 \<Longrightarrow>
        materialize (raw_of (snd f)) mode depth = guarded depth (nesting (snd f)) (snd f)"
  shows "decode_fields (doc_bytes fs) mode depth = guarded depth (nesting (B_Document fs) - 1) fs"
    "decode_array (doc_bytes fs) mode depth = guarded depth (nesting (B_Document fs) - 1) (map snd fs)"
proof -
  note lay = decode_fields_layout [OF ok, of "doc_bytes fs" depth mode]
    decode_array_layout [OF ok, of "doc_bytes fs" depth mode]
  show "decode_fields (doc_bytes fs) mode depth = guarded depth (nesting (B_Document fs) - 1) fs"
  proof (cases "depth \<le> 20")
    case True
    have "traverse (\<lambda>f. decode_field mode depth (raw_field f)) fs
        = guarded depth (foldr (\<lambda>f. max (nesting (snd f))) fs 0) (map (\<lambda>f. f) fs) \<or> depth > 20"
      by (rule traverse_guarded) (simp add: raw_field_def ih True)
    with True lay(1) show ?thesis by (simp add: traverse_map list.map_ident)
  qed (simp add: decode_fields.simps)
  show "decode_array (doc_bytes fs) mode depth = guarded depth (nesting (B_Document fs) - 1) (map snd fs)"
  proof (cases "depth \<le> 20")
    case True
    have "traverse (\<lambda>f. (\<lambda>(name, raw). materialize raw mode depth) (raw_field f)) fs
        = guarded depth (foldr (\<lambda>f. max (nesting (snd f))) fs 0) (map snd fs) \<or> depth > 20"
      by (rule traverse_guarded) (simp add: raw_field_def ih True)
    with True lay(2) show ?thesis by (simp add: traverse_map)
  qed (simp add: decode_array.simps)
qed

lemma materialize_raw_of:
  "wf_bson v \<Longrightarrow> length (bson_bytes v) < 4294967296 \<Longrightarrow> depth \<le> 20 \<Longrightarrow>
     materialize (raw_of v) mode depth = guarded depth (nesting v) v"
proof (induction v arbitrary: depth rule: bson_induct)
  case (Document fs)
  have ok: "list_all field_ok (map raw_field fs)"
    using Document.prems by (intro fields_ok_raw) (auto simp: list_all_iff)
  have "length (bson_bytes (snd f)) < 4294967296" if "f \<in> set fs" for f
    using length_elem_le [OF that] Document.prems by simp
  with Document have ih: "materialize (raw_of (snd f)) mode k = guarded k (nesting (snd f)) (snd f)"
    if "f \<in> set fs" "k \<le> 20" for f k
    using that by (simp add: list_all_iff)
  from decode_fields_guarded(1) [OF ok ih, of "depth + 1"] show ?case by simp
next
  case (Array vs)
  have wf: "wf_str (fst f) \<and> 0 \<notin> set (as_bytes (fst f)) \<and> wf_bson (snd f)" if "f \<in> set (named vs)" for f
    using named_member [OF that] Array.prems(1) by (auto simp: list_all_iff)
  have ok: "list_all field_ok (map raw_field (named vs))"
    using Array.prems wf by (intro fields_ok_raw) auto
  have "length (bson_bytes (snd f)) < 4294967296" if "f \<in> set (named vs)" for f
    using length_elem_le [OF that] Array.prems by simp
  with Array wf have ih: "materialize (raw_of (snd f)) mode k = guarded k (nesting (snd f)) (snd f)"
    if "f \<in> set (named vs)" "k \<le> 20" for f k
    using that set_named [of "fst f" "snd f" vs] by simp
  from decode_fields_guarded(2) [OF ok ih, of "depth + 1"] show ?case by (simp add: foldr_named)
qed simp_all

lemma deep_doc_bytes:
  assumes "wf_doc fs" "length (doc_bytes fs) < 4294967296"
  shows "deep (doc_bytes fs) = (if nesting (B_Document fs) \<le> 20 then Ok fs else Err (BE_NestedTooDeep 20))"
proof -
  have "list_all field_ok (map raw_field fs)"
    using assms by (intro fields_ok_raw) (auto simp: list_all_iff)
  moreover have "materialize (raw_of (snd f)) Deep 1 = guarded 1 (nesting (snd f)) (snd f)" if "f \<in> set fs" for f
    using that assms length_elem_le [OF that] by (intro materialize_raw_of) (auto simp: list_all_iff)
  ultimately have "decode_fields (doc_bytes fs) Deep 1 = guarded 1 (nesting (B_Document fs) - 1) fs"
    by (rule decode_fields_guarded(1))
  then show ?thesis by (simp add: deep_def)
qed

lemma document_encode_layout:
  assumes "wf_doc fs"
  shows "if length (doc_bytes fs) \<le> 2147483647 then document_encode fs = Ok (doc_bytes fs)
     else \<exists>e. document_encode fs = Err e"
proof -
  have "from_bytes (doc_bytes fs) = Ok (doc_bytes fs)" if "length (doc_bytes fs) \<le> 2147483647"
    using that by (simp add: from_bytes_Ok)
  with encode_document_layout [OF assms, of "[]"] show ?thesis
    by (auto simp: document_encode_def split: if_splits)
qed


section \<open>What decoding produces\<close>

lemma decoded_wf:
  "decode_document bs mode depth = Ok fs \<Longrightarrow> wf_doc fs \<and> depth + (nesting (B_Document fs) - 1) \<le> 20"
  "decode_array bs mode depth = Ok vs \<Longrightarrow> wf_bson (B_Array vs) \<and> depth + (nesting (B_Array vs) - 1) \<le> 20"
  "decode_fields bs mode depth = Ok fs \<Longrightarrow> wf_doc fs \<and> depth + (nesting (B_Document fs) - 1) \<le> 20"
  "materialize raw mode depth = Ok v \<Longrightarrow> raw_ok raw \<Longrightarrow> depth \<le> 20 \<Longrightarrow> wf_bson v \<and> depth + nesting v \<le> 20"
proof (induction bs mode depth and bs mode depth and bs mode depth and raw mode depth
    arbitrary: fs and vs and fs and v
    rule: decode_document_decode_array_decode_fields_materialize.induct)
  case (2 bs mode depth)
  from "2.prems" obtain rs where rs: "depth \<le> 20" "list_all field_ok rs"
    "list_all2 (\<lambda>x y. (\<lambda>(name, raw). materialize raw mode depth) x = Ok y) rs vs"
    by (rule decode_array_Ok)
  have "\<forall>v \<in> set vs. wf_bson v \<and> depth + nesting v \<le> 20"
    using rs(3,2,1) "2.IH" 
    by (induction rs vs rule: list_all2_induct) (auto simp: field_ok_def)
  then show ?case using rs(1) foldr_max_le [of nesting vs "20 - depth"] by (auto simp: list_all_iff)
next
  case (3 bs mode depth)
  from "3.prems" obtain rs where rs: "depth \<le> 20" "list_all field_ok rs"
    "list_all2 (\<lambda>x y. decode_field mode depth x = Ok y) rs fs"
    by (rule decode_fields_Ok)
  have "\<forall>f \<in> set fs. wf_str (fst f) \<and> 0 \<notin> set (as_bytes (fst f)) \<and> wf_bson (snd f) \<and> depth + nesting (snd f) \<le> 20"
    using rs(3,2,1) "3.IH" 
    by (induction rs fs rule: list_all2_induct) (auto simp: field_ok_def andthen_eq_Ok)
  then show ?case using rs(1) foldr_max_le [of "\<lambda>f. nesting (snd f)" fs "20 - depth"] by (auto simp: list_all_iff)
qed (auto simp: andthen_eq_Ok raw_ok_def as_scalar_def)

lemma length_show_nat: "n < 10 ^ Suc k \<Longrightarrow> length (show_nat n) \<le> Suc k"
proof (induction k arbitrary: n)
  case 0
  then show ?case by (simp add: show_nat.simps)
next
  case (Suc k)
  then have "length (show_nat (n div 10)) \<le> Suc k"
    by (intro Suc.IH) (simp add: less_mult_imp_div_less mult.commute)
  then show ?case by (subst show_nat.simps) simp
qed

lemma length_fields_body:
  "2 * length rs \<le> length (fields_body rs)"
  "x \<in> set rs \<Longrightarrow> length (raw_bytes (snd x)) \<le> length (fields_body rs)"
  by (induction rs) (auto simp: field_bytes_def)

lemma named_size:
  assumes "length vs \<le> 100000000"
  shows "length (concat (map elem_bytes (named vs))) \<le> sum_list (map (\<lambda>v. 10 + length (bson_bytes v)) vs)"
proof -
  have "\<forall>f \<in> set (named vs). length (fst f) \<le> 8"
  proof
    fix f assume "f \<in> set (named vs)"
    then obtain i where "i < length vs" "fst f = show_nat i" by (auto simp: named_def set_zip)
    with assms length_show_nat [of i 7] show "length (fst f) \<le> 8" by simp
  qed
  moreover have "length (concat (map elem_bytes fs)) \<le> sum_list (map (\<lambda>v. 10 + length (bson_bytes v)) (map snd fs))"
    if "\<forall>f \<in> set fs. length (fst f) \<le> 8" for fs
    using that by (induction fs) auto
  from this [of "named vs"] have "\<forall>f \<in> set (named vs). length (fst f) \<le> 8 \<Longrightarrow> ?thesis" by simp
  ultimately show ?thesis by blast
qed

lemma decoded_size:
  "decode_document bs mode depth = Ok fs \<Longrightarrow> length bs \<le> 200000000 \<Longrightarrow> length (doc_bytes fs) \<le> 5 * length bs"
  "decode_array bs mode depth = Ok vs \<Longrightarrow> length bs \<le> 200000000 \<Longrightarrow> length (doc_bytes (named vs)) \<le> 5 * length bs"
  "decode_fields bs mode depth = Ok fs \<Longrightarrow> length bs \<le> 200000000 \<Longrightarrow> length (doc_bytes fs) \<le> 5 * length bs"
  "materialize raw mode depth = Ok v \<Longrightarrow> length (raw_bytes raw) \<le> 200000000
     \<Longrightarrow> length (bson_bytes v) \<le> 5 * length (raw_bytes raw)"
proof (induction bs mode depth and bs mode depth and bs mode depth and raw mode depth
    arbitrary: fs and vs and fs and v
    rule: decode_document_decode_array_decode_fields_materialize.induct)
  case (2 bs mode depth)
  from "2.prems"(1) obtain rs where rs: "depth \<le> 20" "drop 4 bs = fields_body rs @ [0]"
    "list_all2 (\<lambda>x y. (\<lambda>(name, raw). materialize raw mode depth) x = Ok y) rs vs"
    by (rule decode_array_Ok)
  have len: "length bs = length (fields_body rs) + 5" using arg_cong [OF rs(2), of length] by simp
  have small: "\<forall>x \<in> set rs. length (raw_bytes (snd x)) \<le> 200000000"
    using "2.prems"(2) len length_fields_body(2) [of _ rs] by force
  have IH: "length (bson_bytes v) \<le> 5 * length (raw_bytes raw)"
    if "materialize raw mode depth = Ok v" "length (raw_bytes raw) \<le> 200000000" for raw v
    using "2.IH" that rs(1) by auto
  have "sum_list (map (\<lambda>v. 10 + length (bson_bytes v)) vs) \<le> 5 * length (fields_body rs)"
    using rs(3) small
  proof (induction rs vs rule: list_all2_induct)
    case (Cons x rs v vs)
    obtain n raw where x: "x = (n, raw)" by fastforce
    with Cons IH [of raw v] have "length (bson_bytes v) \<le> 5 * length (raw_bytes raw)" by simp
    with Cons x show ?case by (simp add: field_bytes_def)
  qed simp
  moreover have "length vs \<le> 100000000"
    using length_fields_body(1) [of rs] len "2.prems"(2) list_all2_lengthD [OF rs(3)] by simp
  ultimately show ?case using named_size [of vs] len by simp
next
  case (3 bs mode depth)
  from "3.prems"(1) obtain rs where rs: "depth \<le> 20" "drop 4 bs = fields_body rs @ [0]"
    "list_all2 (\<lambda>x y. decode_field mode depth x = Ok y) rs fs"
    by (rule decode_fields_Ok)
  have len: "length bs = length (fields_body rs) + 5" using arg_cong [OF rs(2), of length] by simp
  have small: "\<forall>x \<in> set rs. length (raw_bytes (snd x)) \<le> 200000000"
    using "3.prems"(2) len length_fields_body(2) [of _ rs] by force
  have IH: "length (bson_bytes v) \<le> 5 * length (raw_bytes raw)"
    if "materialize raw mode depth = Ok v" "length (raw_bytes raw) \<le> 200000000" for raw v
    using "3.IH" that rs(1) by auto
  have "length (concat (map elem_bytes fs)) \<le> 5 * length (fields_body rs)"
    using rs(3) small
  proof (induction rs fs rule: list_all2_induct)
    case (Cons x rs f fs)
    obtain n raw where x: "x = (n, raw)" by fastforce
    with Cons obtain v where "materialize raw mode depth = Ok v" and f: "f = (n, v)" by (auto simp: andthen_eq_Ok)
    with Cons x IH [of raw v] have "length (bson_bytes v) \<le> 5 * length (raw_bytes raw)" by simp
    with Cons x f show ?case by (simp add: field_bytes_def)
  qed simp
  then show ?case using len by simp
qed (auto simp: andthen_eq_Ok raw_bytes_def as_scalar_def)


section \<open>Encoding never panics\<close>

abbreviation extends :: "bytes \<Rightarrow> (bson_error, bytes) result \<Rightarrow> bool" where
  "extends out m \<equiv> (\<exists>b. m = Ok (out @ b)) \<or> (\<exists>e. m = Err e)"

lemma encode_fields_extends:
  "(\<And>f out. f \<in> set fs \<Longrightarrow> extends out (encode_value out (snd f))) \<Longrightarrow> extends out (encode_fields fs out)"
proof (induction fs arbitrary: out)
  case (Cons f fs)
  obtain n v where f: "f = (n, v)" by fastforce
  show ?case
  proof (cases "0 \<in> set (as_bytes n)")
    case True
    then show ?thesis by (simp add: f encode_field.simps put_cstring_def Let_def)
  next
    case False
    let ?out = "out @ bson_tag v # as_bytes n @ [0]"
    from Cons.prems [of f ?out] f consider b where "encode_value ?out v = Ok (?out @ b)"
      | e where "encode_value ?out v = Err e" by auto
    then show ?thesis
    proof cases
      case 1
      then show ?thesis using False Cons.IH [of "?out @ b"] Cons.prems
        by (auto simp: f encode_field_eq)
    qed (simp add: f encode_field_eq False)
  qed
qed simp

lemma encode_document_extends:
  assumes "\<And>f out. f \<in> set fs \<Longrightarrow> extends out (encode_value out (snd f))"
  shows "extends out (encode_document fs out)"
proof -
  have "extends (out @ [0, 0, 0, 0]) (encode_fields fs (out @ [0, 0, 0, 0]))"
    using assms by (rule encode_fields_extends)
  then show ?thesis
  proof
    assume "\<exists>b. encode_fields fs (out @ [0, 0, 0, 0]) = Ok ((out @ [0, 0, 0, 0]) @ b)"
    then obtain b where "encode_fields fs (out @ [0, 0, 0, 0]) = Ok (out @ [0, 0, 0, 0] @ b)" by auto
    from encode_document_frame [OF this] show ?thesis by auto
  qed (auto simp: encode_document.simps placeholder_i32_def put_defs Let_def)
qed

lemma encode_value_extends: "extends out (encode_value out v)"
proof (induction v arbitrary: out rule: bson_induct)
  case (Document fs)
  then show ?case using encode_document_extends [of fs out] by simp
next
  case (Array vs)
  then have "extends o' (encode_value o' (snd f))" if "f \<in> set (named vs)" for f o'
    using named_member [OF that] by blast
  then show ?case using encode_document_extends [of "named vs" out] by simp
next
  case (Scope c s)
  then show ?case
  proof (cases "5 \<le> length s")
    case True
    then show ?thesis using encode_scope_eq [of s out c] by auto
  qed (simp add: encode_value.simps)
next
  case (Scalar s)
  have "encode_scalar_at s out \<noteq> Panic" by simp
  then show ?case using encode_scalar_at_extends [of s out] encode_scalar_panic [of s out]
    by (cases "encode_scalar_at s out") (auto simp: encode_scalar_def Let_def)
qed

lemma document_encode_panic: "document_encode fs \<noteq> Panic" "array_encode vs \<noteq> Panic"
  using encode_value_extends [of "[]" "B_Document fs"] encode_value_extends [of "[]" "B_Array vs"]
  by (auto simp: document_encode_def array_encode_def encode_array_eq andthen_eq_Panic)

section \<open>Properties\<close>

text \<open>
  (C8) Round trip of documents: a well-formed document that encodes decodes back to itself, field
  order, duplicate names and nested values included, provided it is nested at most twenty levels;
  a deeper one is refused with \<open>NestedTooDeep\<close> and never with another error.
\<close>

theorem document_round_trip:
  assumes "wf_doc fs" and "document_encode fs = Ok raw"
  shows "deep raw = (if nesting (B_Document fs) \<le> 20 then Ok fs else Err (BE_NestedTooDeep 20))"
proof -
  from document_encode_layout [OF assms(1)] assms(2)
  have "length (doc_bytes fs) \<le> 2147483647" "raw = doc_bytes fs" by (auto split: if_splits)
  with deep_doc_bytes [OF assms(1)] show ?thesis by simp
qed

lemma sample_encode:
  "wf_doc [(''a'', B_Null)]" "document_encode [(''a'', B_Null)] = Ok [8, 0, 0, 0, 0x0A, 0x61, 0, 0]"
proof -
  show wf: "wf_doc [(''a'', B_Null)]" by (simp add: eval_simps as_scalar_def)
  have "doc_bytes [(''a'', B_Null)] = [8, 0, 0, 0, 0x0A, 0x61, 0, 0]"
    by (simp add: frame_def eval_simps as_scalar_def bson_tag_def)
  with document_encode_layout [OF wf]
  show "document_encode [(''a'', B_Null)] = Ok [8, 0, 0, 0, 0x0A, 0x61, 0, 0]" by (simp only:) simp
qed

theorem document_round_trip_witness:
  "deep [8, 0, 0, 0, 0x0A, 0x61, 0, 0] =
     (if nesting (B_Document [(''a'', B_Null)]) \<le> 20 then Ok [(''a'', B_Null)] else Err (BE_NestedTooDeep 20))"
  by (rule document_round_trip [OF sample_encode])

text \<open>
  (C30) Every decoded document is well formed and nested at most twenty levels and, when it came
  from at most 200,000,000 bytes (the protocol admits 48,000,000), encodes again without an error,
  to bytes that decode to the same document.  Array keys are rewritten to the decimal indices, so
  the bytes may differ and may grow, but not past the length a BSON document can have.
\<close>

theorem decoded_document_reencodes:
  assumes "deep d = Ok doc" and "length d \<le> 200000000"
  shows "wf_doc doc \<and> nesting (B_Document doc) \<le> 20 \<and>
    (\<exists>raw. document_encode doc = Ok raw \<and> length raw \<le> 5 * length d \<and> deep raw = Ok doc)"
proof -
  from assms(1) have dec: "decode_document d Deep 1 = Ok doc" by (simp add: deep_def)
  from decoded_wf(1) [OF dec] have wf: "wf_doc doc" and nest: "nesting (B_Document doc) \<le> 20" by auto
  from decoded_size(1) [OF dec assms(2)] have size: "length (doc_bytes doc) \<le> 5 * length d" .
  with assms(2) document_encode_layout [OF wf] have "document_encode doc = Ok (doc_bytes doc)" by auto
  moreover have "deep (doc_bytes doc) = Ok doc"
    using deep_doc_bytes [OF wf] nest size assms(2) by simp
  ultimately show ?thesis using wf nest size by auto
qed

theorem decoded_document_reencodes_witness:
  "wf_doc [(''a'', B_Null)] \<and> nesting (B_Document [(''a'', B_Null)]) \<le> 20 \<and>
    (\<exists>raw. document_encode [(''a'', B_Null)] = Ok raw
       \<and> length raw \<le> 5 * length [8, 0, 0, 0, 0x0A, 0x61, 0, 0 :: u8] \<and> deep raw = Ok [(''a'', B_Null)])"
  by (rule decoded_document_reencodes [OF deep_sample]) simp

text \<open>
  Encoding is total: it never panics, not even on a malformed value, and a well-formed
  document is refused exactly when its encoding would not fit the \<open>i32\<close> length prefix; otherwise
  the result is the layout: length, then per field the tag, the name, a NUL and the value, then NUL.
\<close>

theorem document_encode_outcome:
  "document_encode fs \<noteq> Panic \<and> array_encode vs \<noteq> Panic \<and>
   (wf_doc fs \<longrightarrow>
     (if length (doc_bytes fs) \<le> 2147483647 then document_encode fs = Ok (doc_bytes fs)
      else \<exists>e. document_encode fs = Err e))"
  using document_encode_panic document_encode_layout by blast

theorem document_encode_outcome_witness:
  "document_encode [(''a'', B_Null)] \<noteq> Panic \<and> array_encode [] \<noteq> Panic \<and>
   (if length (doc_bytes [(''a'', B_Null)]) \<le> 2147483647
    then document_encode [(''a'', B_Null)] = Ok (doc_bytes [(''a'', B_Null)])
    else \<exists>e. document_encode [(''a'', B_Null)] = Err e)"
  using document_encode_outcome [of "[(''a'', B_Null)]" "[]"] sample_encode(1) by blast

text \<open>
  Round trip of arrays: the encoding of a well-formed array decodes to the same elements in
  order, whatever the decimal keys written for them.
\<close>

theorem array_round_trip:
  assumes "wf_bson (B_Array vs)" and "array_encode vs = Ok raw"
  shows "array_deep raw = (if nesting (B_Array vs) \<le> 20 then Ok vs else Err (BE_NestedTooDeep 20))"
proof -
  have wf: "wf_doc (named vs)"
    using assms(1) by (auto simp: list_all_iff dest!: named_member)
  have enc: "document_encode (named vs) = Ok raw"
    using assms(2) by (simp add: array_encode_def document_encode_def encode_array_eq)
  from document_encode_layout [OF wf] enc
  have raw: "raw = doc_bytes (named vs)" "length raw \<le> 2147483647" by (auto split: if_splits)
  then have len: "length (doc_bytes (named vs)) < 4294967296" by simp
  have ok: "list_all field_ok (map raw_field (named vs))"
    using wf len by (intro fields_ok_raw) (auto simp: list_all_iff)
  have ih: "materialize (raw_of (snd f)) Deep 1 = guarded 1 (nesting (snd f)) (snd f)" if "f \<in> set (named vs)" for f
    using that wf len length_elem_le [OF that] by (intro materialize_raw_of) (auto simp: list_all_iff)
  from decode_fields_guarded(2) [OF ok ih] show ?thesis
    using raw by (simp add: array_deep_def foldr_named)
qed

theorem array_round_trip_witness:
  "array_deep [8, 0, 0, 0, 0x0A, 0x30, 0, 0] =
     (if nesting (B_Array [B_Null]) \<le> 20 then Ok [B_Null] else Err (BE_NestedTooDeep 20))"
proof (rule array_round_trip)
  have "named [B_Null] = [(''0'', B_Null)]" by (simp add: named_def show_nat.simps char_of_def bit_0)
  moreover have wf: "wf_doc [(''0'', B_Null)]" by (simp add: eval_simps as_scalar_def)
  moreover have "doc_bytes [(''0'', B_Null)] = [8, 0, 0, 0, 0x0A, 0x30, 0, 0]"
    by (simp add: frame_def eval_simps as_scalar_def bson_tag_def)
  ultimately show "array_encode [B_Null] = Ok [8, 0, 0, 0, 0x0A, 0x30, 0, 0]"
    using document_encode_layout [OF wf]
    by (simp only: array_encode_def document_encode_def encode_array_eq array_from_bytes_eq) simp
qed (simp add: as_scalar_def)

end
