(* ===== verification/Wire_Header.thy ===== *)
theory Wire_Header
  imports Bson_Encode
begin

text \<open>
  The ground of the message layer: protocol constants (\<open>consts.rs\<close>), the two-tier error model
  (\<open>mongowire/src/error.rs\<close>), opcodes and the 16-byte standard header
  (\<open>mongowire/src/messages/header.rs\<close>).
\<close>

unbundle bit_operations_syntax

section \<open>Constants\<close>

abbreviation (input) MSG_HEADER_LEN :: nat where "MSG_HEADER_LEN \<equiv> 16"
abbreviation (input) MAX_MSG_LEN :: i32 where "MAX_MSG_LEN \<equiv> 48000000"

abbreviation (input) CHECKSUM_PRESENT :: u32 where "CHECKSUM_PRESENT \<equiv> 0x00000001"
abbreviation (input) MORE_TO_COME :: u32 where "MORE_TO_COME \<equiv> 0x00000002"
abbreviation (input) EXHAUST_ALLOWED :: u32 where "EXHAUST_ALLOWED \<equiv> 0x00010000"

section \<open>Errors\<close>

text \<open>\<open>std::io::Error\<close>: a reader error wrapped as \<open>InvalidData\<close>, or an error of the socket.\<close>

datatype io_error = IO_InvalidData read_error | IO_Socket string

datatype protocol_error =
    PE_InvalidHeader string
  | PE_MessageTooLarge i32 i32
  | PE_UnsupportedOpcode i32
  | PE_InvalidOpMsg string
  | PE_InvalidBody string
  | PE_ChecksumMismatch u32 u32
  | PE_UnsupportedCompressor u8
  | PE_Compression string
  | PE_DecompressedSizeMismatch nat nat
  | PE_Bson bson_error
  | PE_Scalar scalar_error
  | PE_Io io_error

datatype error =
    Protocol protocol_error
  | CommandError (ce_code: i32) (ce_code_name: string) (ce_message: string)

text \<open>\<open>impl From<ReadError> for ProtocolError\<close>, the conversion of \<open>?\<close> in the body parsers.\<close>

definition protocol_error_of_read :: "read_error \<Rightarrow> protocol_error" where
  "protocol_error_of_read e = PE_Io (IO_InvalidData e)"

abbreviation pread :: "(read_error, 'a) result \<Rightarrow> (protocol_error, 'a) result" where
  "pread \<equiv> map_err protocol_error_of_read"

text \<open>The bit patterns of the doubles \<open>0.0\<close> and \<open>1.0\<close>.\<close>

abbreviation (input) F64_ZERO :: f64 where "F64_ZERO \<equiv> 0"
abbreviation (input) F64_ONE :: f64 where "F64_ONE \<equiv> 0x3FF0000000000000"

definition to_error_response_doc :: "error \<Rightarrow> document option" where
  "to_error_response_doc e = (case e of
     CommandError code code_name message \<Rightarrow>
       let d = document_new;
           d = document_add ''ok'' (B_Double F64_ZERO) d;
           d = document_add ''errmsg'' (B_String message) d;
           d = document_add ''code'' (B_Int32 code) d;
           d = document_add ''codeName'' (B_String code_name) d;
           d = document_add ''$db'' (B_String ''admin'') d
       in Some d
   | Protocol _ \<Rightarrow> None)"

section \<open>Opcodes\<close>

datatype opcode =
    Reply | Update | Insert | Reserved | Query | GetMore | Delete | KillCursors | Compressed | Msg

fun opcode_to_i32 :: "opcode \<Rightarrow> i32" where
  "opcode_to_i32 Reply = 1"
| "opcode_to_i32 Update = 2001"
| "opcode_to_i32 Insert = 2002"
| "opcode_to_i32 Reserved = 2003"
| "opcode_to_i32 Query = 2004"
| "opcode_to_i32 GetMore = 2005"
| "opcode_to_i32 Delete = 2006"
| "opcode_to_i32 KillCursors = 2007"
| "opcode_to_i32 Compressed = 2012"
| "opcode_to_i32 Msg = 2013"

definition opcode_from_i32 :: "i32 \<Rightarrow> opcode option" where
  "opcode_from_i32 v =
     (if v = 1 then Some Reply
      else if v = 2001 then Some Update
      else if v = 2002 then Some Insert
      else if v = 2003 then Some Reserved
      else if v = 2004 then Some Query
      else if v = 2005 then Some GetMore
      else if v = 2006 then Some Delete
      else if v = 2007 then Some KillCursors
      else if v = 2012 then Some Compressed
      else if v = 2013 then Some Msg
      else None)"

section \<open>The standard header\<close>

record header =
  message_length :: i32
  request_id :: i32
  response_to :: i32
  op_code :: opcode

definition header_new :: "i32 \<Rightarrow> i32 \<Rightarrow> opcode \<Rightarrow> header" where
  "header_new rid rto op = \<lparr>message_length = 0, request_id = rid, response_to = rto, op_code = op\<rparr>"

text \<open>\<open>read_i32_le().unwrap_or(0)\<close>: the cursor does not move on an error.\<close>

definition read_i32_or_0 :: "bytes \<Rightarrow> i32 \<times> bytes" where
  "read_i32_or_0 r = (case read_i32_le r of Ok (v, r') \<Rightarrow> (v, r') | _ \<Rightarrow> (0, r))"

definition header_parse :: "bytes \<Rightarrow> i32 \<Rightarrow> (protocol_error, header) result" where
  "header_parse buf max_len =
     andthen (ok_or (PE_InvalidHeader ''short header'')
       (if MSG_HEADER_LEN \<le> length buf then Some (take MSG_HEADER_LEN buf) else None)) (\<lambda>r.
     let (len, r) = read_i32_or_0 r in
     if sint len < 16 then Err (PE_InvalidHeader ''length below header size'')
     else if sint len > sint max_len then Err (PE_MessageTooLarge len max_len)
     else if sint len > sint MAX_MSG_LEN then Err (PE_MessageTooLarge len MAX_MSG_LEN)
     else let (rid, r) = read_i32_or_0 r;
              (rto, r) = read_i32_or_0 r;
              (raw_opcode, r) = read_i32_or_0 r in
       andthen (ok_or (PE_UnsupportedOpcode raw_opcode) (opcode_from_i32 raw_opcode)) (\<lambda>op.
       Ok \<lparr>message_length = len, request_id = rid, response_to = rto, op_code = op\<rparr>))"

definition header_encode :: "header \<Rightarrow> bytes \<Rightarrow> bytes" where
  "header_encode h out =
     (let out = put_bytes (to_le32 (message_length h)) out;
          out = put_bytes (to_le32 (request_id h)) out;
          out = put_bytes (to_le32 (response_to h)) out
      in put_bytes (to_le32 (opcode_to_i32 (op_code h))) out)"

section \<open>Lemmas\<close>

lemma opcode_from_to [simp, wire_simps]: "opcode_from_i32 (opcode_to_i32 op) = Some op"
  by (cases op) (simp_all add: opcode_from_i32_def)

lemma opcode_from_i32_Some: "opcode_from_i32 v = Some op \<longleftrightarrow> v = opcode_to_i32 op"
proof
  assume "opcode_from_i32 v = Some op"
  then show "v = opcode_to_i32 op" by (auto simp: opcode_from_i32_def split: if_splits)
qed simp

lemma sint_MAX_MSG_LEN [simp]: "sint (48000000 :: i32) = 48000000"
  by simp

text \<open>The bytes of a header, and the bounds \<open>header_parse\<close> checks.\<close>

definition header_bytes :: "header \<Rightarrow> bytes" where
  "header_bytes h = to_le32 (message_length h) @ to_le32 (request_id h) @ to_le32 (response_to h)
     @ to_le32 (opcode_to_i32 (op_code h))"

definition header_ok :: "header \<Rightarrow> i32 \<Rightarrow> bool" where
  "header_ok h max_len \<longleftrightarrow> 16 \<le> sint (message_length h) \<and> sint (message_length h) \<le> sint max_len
     \<and> sint (message_length h) \<le> 48000000"

lemma length_header_bytes [simp]: "length (header_bytes h) = 16"
  by (simp add: header_bytes_def)

lemma header_encode_eq: "header_encode h out = out @ header_bytes h"
  by (simp add: header_encode_def header_bytes_def put_defs Let_def)

lemma read_i32_or_0_append [simp]: "read_i32_or_0 (to_le32 w @ r) = (w, r)" "read_i32_or_0 (to_le32 w) = (w, [])"
  by (simp_all add: read_i32_or_0_def)

lemma split_header: "16 \<le> length buf \<Longrightarrow>
  \<exists>a b c d. take 16 buf = to_le32 a @ to_le32 b @ to_le32 c @ to_le32 d"
proof -
  assume len: "16 \<le> length buf"
  let ?t = "take 16 buf"
  have parts: "length (take 4 (drop k ?t)) = 4" if "k \<in> {0, 4, 8, 12}" for k
    using that len by auto
  have "?t = take 4 (drop 0 ?t) @ take 4 (drop 4 ?t) @ take 4 (drop 8 ?t) @ take 4 (drop 12 ?t)"
  proof -
    have "drop 12 ?t = take 4 (drop 12 ?t)" using len by simp
    moreover have "drop 8 ?t = take 4 (drop 8 ?t) @ drop 12 ?t" using append_take_drop_id [of 4 "drop 8 ?t"] by (simp del: append_take_drop_id)
    moreover have "drop 4 ?t = take 4 (drop 4 ?t) @ drop 8 ?t" using append_take_drop_id [of 4 "drop 4 ?t"] by (simp del: append_take_drop_id)
    moreover have "?t = take 4 (drop 0 ?t) @ drop 4 ?t" using append_take_drop_id [of 4 ?t] by (simp del: append_take_drop_id)
    ultimately show ?thesis by metis
  qed
  then have "?t = to_le32 (from_le32 (take 4 (drop 0 ?t))) @ to_le32 (from_le32 (take 4 (drop 4 ?t)))
      @ to_le32 (from_le32 (take 4 (drop 8 ?t))) @ to_le32 (from_le32 (take 4 (drop 12 ?t)))"
    using parts by (simp only: to_from_le32 insert_iff simp_thms)
  then show ?thesis by blast
qed

lemma header_parse_Ok:
  "header_parse buf max_len = Ok h \<longleftrightarrow> 16 \<le> length buf \<and> take 16 buf = header_bytes h \<and> header_ok h max_len"
proof (cases "16 \<le> length buf")
  case True
  from split_header [OF True] obtain a b c d where t: "take 16 buf = to_le32 a @ to_le32 b @ to_le32 c @ to_le32 d"
    by blast
  have inj: "to_le32 x @ xs = to_le32 y @ ys \<longleftrightarrow> x = y \<and> xs = ys" for x y xs ys
    by (metis append_eq_append_conv from_to_le32 length_to_le32)
  have inj': "to_le32 x = to_le32 y \<longleftrightarrow> x = y" for x y by (metis from_to_le32)
  show ?thesis using True
    by (cases h) (auto simp: header_parse_def t header_bytes_def header_ok_def inj inj' opcode_from_i32_Some andthen_eq_Ok
        split: if_splits)
qed (simp add: header_parse_def)

lemma header_parse_panic [simp, panic_free]: "header_parse buf max_len \<noteq> Panic"
  by (auto simp: header_parse_def andthen_eq_Panic Let_def split: prod.splits if_splits)

lemma header_parse_append: "16 \<le> length buf \<Longrightarrow> header_parse (buf @ rest) max_len = header_parse buf max_len"
  by (simp add: header_parse_def)

section \<open>The contract of a message body\<close>

text \<open>
  The \<open>Message\<close> trait of \<open>messages/mod.rs\<close> as a contract: \<open>ok\<close> are the bodies the wire can carry,
  \<open>body_len\<close> is the number of bytes \<open>encode_body\<close> appends, \<open>parse_body\<close> reads them back, accepts
  only bodies that encode again to the same number of bytes, and never panics.  Framing relies on
  nothing else.
\<close>

locale message =
  fixes body_len :: "'m \<Rightarrow> nat"
    and encode_body :: "'m \<Rightarrow> bytes \<Rightarrow> (protocol_error, bytes) result"
    and parse_body :: "bytes \<Rightarrow> (protocol_error, 'm) result"
    and ok :: "'m \<Rightarrow> bool"
  assumes encode_ok: "ok m \<Longrightarrow> \<exists>b. (\<forall>out. encode_body m out = Ok (out @ b)) \<and> length b = body_len m \<and> parse_body b = Ok m"
    and parse_ok: "parse_body b = Ok m \<Longrightarrow> ok m \<and> length b = body_len m"
    and parse_no_panic: "parse_body b \<noteq> Panic"
begin

lemma round_trip: "ok m \<Longrightarrow> \<exists>b. encode_body m out = Ok (out @ b) \<and> length b = body_len m \<and> parse_body b = Ok m"
  using encode_ok by blast

lemma encode_appends: "ok m \<Longrightarrow> encode_body m [] = Ok b \<Longrightarrow> encode_body m out = Ok (out @ b)"
  using encode_ok [of m] by fastforce

lemma parse_encode: "ok m \<Longrightarrow> encode_body m [] = Ok b \<Longrightarrow> length b = body_len m \<and> parse_body b = Ok m"
  using encode_ok [of m] by fastforce

lemma encode_inj: "ok m \<Longrightarrow> ok m' \<Longrightarrow> encode_body m [] = encode_body m' [] \<Longrightarrow> m = m'"
  using encode_ok [of m] encode_ok [of m'] by fastforce

lemma reencode: "parse_body b = Ok m \<Longrightarrow> \<exists>b'. encode_body m [] = Ok b' \<and> length b' = length b \<and> parse_body b' = Ok m"
  using parse_ok [of b m] encode_ok [of m] by fastforce

end

end
