(* ===== verification/Op_Msg.thy ===== *)
theory Op_Msg
  imports Wire_Header
begin

text \<open>
  OP_MSG (\<open>mongowire/src/messages/op_msg.rs\<close>): flag bits, sections, encoding and the section
  parser with its offsets.  \<open>region\<close> names the bytes between two offsets; the loops are proved to
  accept exactly the byte layouts \<open>seq_bytes\<close> and \<open>msg_sections_bytes\<close>, from which the round
  trip, the exactness of the parse and the absence of panics follow.
\<close>

unbundle bit_operations_syntax

section \<open>Flag bits\<close>

text \<open>\<open>MsgFlags\<close> is the set of its known bits; \<open>from_bits_truncate\<close> keeps those.\<close>

definition MSG_FLAGS_ALL :: u32 where
  "MSG_FLAGS_ALL = (CHECKSUM_PRESENT OR MORE_TO_COME OR EXHAUST_ALLOWED)"

definition flags_contain :: "u32 \<Rightarrow> u32 \<Rightarrow> bool" where
  "flags_contain flags b \<longleftrightarrow> flags AND b = b"

definition msg_flags_parse :: "u32 \<Rightarrow> (protocol_error, u32) result" where
  "msg_flags_parse raw =
     (let known = CHECKSUM_PRESENT OR MORE_TO_COME OR EXHAUST_ALLOWED in
      if raw AND 0x0000FFFF AND NOT known \<noteq> 0 then Err (PE_InvalidOpMsg ''unknown required flag bits'')
      else Ok (raw AND MSG_FLAGS_ALL))"

section \<open>Sections\<close>

record document_sequence =
  seq_identifier :: string
  seq_documents :: "raw_document list"

record sections =
  sec_body :: raw_document
  sec_sequences :: "document_sequence list"

text \<open>\<open>body.fields().map(..).collect::<Result<HashSet<_>, _>>()\<close>: the names, up to the first error.\<close>

function field_names_loop :: "fields_iter \<Rightarrow> (bson_error, bytes list) result" where
  "field_names_loop it =
     andthen (fields_iter_next it) (\<lambda>(item, it').
     case item of
       None \<Rightarrow> Ok []
     | Some item \<Rightarrow> andthen item (\<lambda>(name, v).
         andthen (field_names_loop it') (\<lambda>names. Ok (as_bytes name # names))))"
  by pat_completeness auto
termination
  by (relation "measure iter_left") (auto dest: fields_iter_next_decreases)

declare field_names_loop.simps [simp del]

fun check_identifiers :: "bytes list \<Rightarrow> document_sequence list \<Rightarrow> (protocol_error, unit) result" where
  "check_identifiers body_fields [] = Ok ()"
| "check_identifiers body_fields (s # seqs) =
     (if seq_identifier s = [] then Err (PE_InvalidOpMsg ''kind 1 section has no identifier'')
      else if 0 \<in> set (as_bytes (seq_identifier s)) then Err (PE_InvalidOpMsg ''kind 1 identifier contains NUL'')
      else if as_bytes (seq_identifier s) \<in> set body_fields then
        Err (PE_InvalidOpMsg ''kind 1 identifier duplicates a body field'')
      else check_identifiers body_fields seqs)"

definition sections_new :: "raw_document \<Rightarrow> document_sequence list \<Rightarrow> (protocol_error, sections) result" where
  "sections_new body seqs =
     (if seqs = [] then Ok \<lparr>sec_body = body, sec_sequences = seqs\<rparr>
      else andthen (map_err PE_Bson (field_names_loop (raw_fields body))) (\<lambda>body_fields.
           andthen (check_identifiers body_fields seqs) (\<lambda>_.
           Ok \<lparr>sec_body = body, sec_sequences = seqs\<rparr>)))"

definition sections_size :: "sections \<Rightarrow> nat" where
  "sections_size s =
     1 + length (sec_body s)
     + sum_list (map (\<lambda>q. 1 + 4 + length (seq_identifier q) + 1 + sum_list (map length (seq_documents q))) (sec_sequences s))"

text \<open>\<open>take_document\<close> of \<open>op_msg.rs\<close>, on offsets into the body.\<close>

definition take_document :: "bytes \<Rightarrow> nat \<Rightarrow> nat \<Rightarrow> (protocol_error, raw_document \<times> nat) result" where
  "take_document body offset end_pos =
     (if end_pos < offset then Err (PE_InvalidOpMsg ''section cursor overran its end'')
      else let rest = end_pos - offset in
      if rest < 4 then Err (PE_InvalidOpMsg ''truncated document'')
      else andthen (slice body offset (offset + 4)) (\<lambda>b4.
        let len = from_le32 b4 in
        if sint len < int MIN_DOC_LEN \<or> i32_as_usize len > rest
        then Err (PE_InvalidOpMsg ''invalid document length'')
        else andthen (slice body offset (offset + i32_as_usize len)) (\<lambda>b.
             andthen (map_err PE_Bson (from_bytes b)) (\<lambda>d.
             Ok (d, offset + i32_as_usize len)))))"

section \<open>OP_MSG\<close>

record op_msg =
  msg_flags :: u32
  msg_sections :: sections
  msg_checksum :: "u32 option"

definition op_msg_new ::
  "u32 \<Rightarrow> raw_document \<Rightarrow> document_sequence list \<Rightarrow> (protocol_error, op_msg) result" where
  "op_msg_new flags body seqs =
     andthen (sections_new body seqs) (\<lambda>secs.
     Ok \<lparr>msg_flags = flags AND NOT CHECKSUM_PRESENT, msg_sections = secs, msg_checksum = None\<rparr>)"

definition op_msg_body_len :: "op_msg \<Rightarrow> nat" where
  "op_msg_body_len m = 4 + sections_size (msg_sections m) + (if msg_checksum m \<noteq> None then 4 else 0)"

fun put_documents :: "raw_document list \<Rightarrow> bytes \<Rightarrow> bytes" where
  "put_documents [] out = out"
| "put_documents (d # ds) out = put_documents ds (put_bytes d out)"

fun put_sequences :: "document_sequence list \<Rightarrow> bytes \<Rightarrow> bytes" where
  "put_sequences [] out = out"
| "put_sequences (s # seqs) out =
     (let out = put_u8 1 out;
          size = 4 + length (as_bytes (seq_identifier s)) + 1 + sum_list (map length (seq_documents s));
          out = put_u32_le (u32_of_nat size) out;
          out = put_bytes (as_bytes (seq_identifier s)) out;
          out = put_u8 0 out
      in put_sequences seqs (put_documents (seq_documents s) out))"

text \<open>The failing \<open>debug_assert!\<close> is a panic.\<close>

definition op_msg_encode_body :: "op_msg \<Rightarrow> bytes \<Rightarrow> (protocol_error, bytes) result" where
  "op_msg_encode_body m out =
     debug_assert ((msg_checksum m \<noteq> None) = flags_contain (msg_flags m) CHECKSUM_PRESENT)
     (let out = put_u32_le (msg_flags m) out;
          out = put_u8 0 out;
          out = put_bytes (sec_body (msg_sections m)) out;
          out = put_sequences (sec_sequences (msg_sections m)) out
      in Ok (case msg_checksum m of Some c \<Rightarrow> put_u32_le c out | None \<Rightarrow> out))"

section \<open>Parsing OP_MSG\<close>

lemma take_document_progress: "take_document body off e = Ok (d, off') \<Longrightarrow> off < off'"
proof -
  assume "take_document body off e = Ok (d, off')"
  then obtain len where "5 \<le> sint len" "off' = off + i32_as_usize len"
    by (force simp: take_document_def Let_def andthen_eq_Ok not_less split: if_splits)
  moreover from this(1) have "5 \<le> i32_as_usize len" using sint_ge_unat32 [of 5 len] by simp
  ultimately show "off < off'" by simp
qed

text \<open>The \<open>while sec_rest != 0\<close> loop of a kind-1 section.\<close>

function documents_loop :: "bytes \<Rightarrow> nat \<Rightarrow> nat \<Rightarrow> nat \<Rightarrow> (protocol_error, raw_document list \<times> nat) result" where
  "documents_loop body sec_end offset sec_rest =
     (if sec_rest = 0 then Ok ([], offset)
      else andthen (take_document body offset sec_end) (\<lambda>(d, nxt).
           andthen (usub nxt offset) (\<lambda>n.
           andthen (usub sec_rest n) (\<lambda>sec_rest'.
           andthen (documents_loop body sec_end nxt sec_rest') (\<lambda>(ds, offset).
           Ok (d # ds, offset))))))"
  by pat_completeness auto
termination
  by (relation "measure (\<lambda>(_, _, _, rest). rest)") (auto simp: usub_eq_Ok dest!: take_document_progress)

declare documents_loop.simps [simp del]

text \<open>The \<open>1 =>\<close> arm; \<open>offset\<close> is past the kind byte.\<close>

definition parse_sequence :: "bytes \<Rightarrow> nat \<Rightarrow> nat \<Rightarrow> (protocol_error, document_sequence \<times> nat) result" where
  "parse_sequence body end_pos offset =
     (if end_pos < offset then Err (PE_InvalidOpMsg ''section cursor overran its end'')
      else if end_pos - offset < 4 then Err (PE_InvalidOpMsg ''truncated section size'')
      else andthen (slice body offset (offset + 4)) (\<lambda>b4.
        let sec_size = int (unat (from_le32 b4)) - 4 in
        if sec_size < 5 then Err (PE_InvalidOpMsg ''section size too small'')
        else if sec_size > int (end_pos - offset - 4) then Err (PE_InvalidOpMsg ''section exceeds the message'')
        else let offset = offset + 4; sec_end = offset + nat sec_size in
        andthen (slice body offset sec_end) (\<lambda>sec.
        andthen (ok_or (PE_InvalidOpMsg ''truncated section identifier'') (nul_pos sec)) (\<lambda>ident_len.
        andthen (slice body offset (offset + ident_len)) (\<lambda>ib.
        andthen (ok_or (PE_InvalidOpMsg ''invalid UTF-8 in section identifier'') (from_utf8 ib)) (\<lambda>ident.
        let offset = offset + (ident_len + 1) in
        andthen (usub sec_end offset) (\<lambda>sec_rest.
        andthen (documents_loop body sec_end offset sec_rest) (\<lambda>(ds, offset).
        Ok (\<lparr>seq_identifier = ident, seq_documents = ds\<rparr>, offset)))))))))"

lemma documents_loop_0 [simp]: "documents_loop body e off 0 = Ok ([], off)"
  by (simp add: documents_loop.simps)

lemma documents_loop_step:
  assumes "documents_loop body e off n = Ok (ds, off')" "n \<noteq> 0"
  shows "\<exists>d nxt ds'. take_document body off e = Ok (d, nxt) \<and> off < nxt \<and> nxt - off \<le> n
    \<and> documents_loop body e nxt (n - (nxt - off)) = Ok (ds', off') \<and> ds = d # ds'"
proof -
  have "andthen (take_document body off e) (\<lambda>(d, nxt).
           andthen (usub nxt off) (\<lambda>k.
           andthen (usub n k) (\<lambda>n'.
           andthen (documents_loop body e nxt n') (\<lambda>(ds, offset). Ok (d # ds, offset))))) = Ok (ds, off')"
    using assms by (simp add: documents_loop.simps [of body e off n])
  then obtain d nxt where "take_document body off e = Ok (d, nxt)"
    "andthen (usub nxt off) (\<lambda>k. andthen (usub n k) (\<lambda>n'.
           andthen (documents_loop body e nxt n') (\<lambda>(ds, offset). Ok (d # ds, offset)))) = Ok (ds, off')"
    by (auto simp: andthen_eq_Ok)
  with take_document_progress [OF this(1)] show ?thesis
    by (auto simp: andthen_eq_Ok usub_eq_Ok)
qed

lemma documents_loop_mono: "documents_loop body e off n = Ok (ds, off') \<Longrightarrow> off \<le> off'"
proof (induction n arbitrary: ds off rule: less_induct)
  case (less n)
  show ?case
  proof (cases "n = 0")
    case True
    with less.prems show ?thesis by simp
  next
    case False
    from documents_loop_step [OF less.prems False] obtain d nxt ds' where
      "off < nxt" "documents_loop body e nxt (n - (nxt - off)) = Ok (ds', off')" by blast
    moreover have "n - (nxt - off) < n" using False \<open>off < nxt\<close> by simp
    ultimately have "nxt \<le> off'" using less.IH by blast
    with \<open>off < nxt\<close> show ?thesis by simp
  qed
qed

lemma parse_sequence_progress: "parse_sequence body e off = Ok (s, off') \<Longrightarrow> off < off'"
  by (auto simp: parse_sequence_def Let_def andthen_eq_Ok split: if_splits dest!: documents_loop_mono)

text \<open>The section loop; it ends when a section boundary lands on \<open>end_pos\<close>.\<close>

function sections_loop ::
  "bytes \<Rightarrow> nat \<Rightarrow> nat \<Rightarrow> raw_document option \<Rightarrow> document_sequence list
     \<Rightarrow> (protocol_error, raw_document option \<times> document_sequence list) result" where
  "sections_loop body end_pos offset body_doc seqs =
     (if \<not> offset < length body then Err (PE_InvalidOpMsg ''truncated section kind'')
      else let kind = body ! offset in
        andthen
          (if kind = 0 then
             if body_doc \<noteq> None then Err (PE_InvalidOpMsg ''multiple kind 0 sections'')
             else if seqs \<noteq> [] then Err (PE_InvalidOpMsg ''kind 0 section must be the first section'')
             else andthen (take_document body (offset + 1) end_pos) (\<lambda>(d, nxt). Ok (Some d, seqs, nxt))
           else if kind = 1 then
             andthen (parse_sequence body end_pos (offset + 1)) (\<lambda>(s, nxt). Ok (body_doc, seqs @ [s], nxt))
           else Err (PE_InvalidOpMsg ''unknown section kind''))
          (\<lambda>(body_doc, seqs, nxt).
             if nxt = end_pos then Ok (body_doc, seqs)
             else sections_loop body end_pos nxt body_doc seqs))"
  by pat_completeness auto
termination
  by (relation "measure (\<lambda>(body, _, offset, _). length body - offset)")
    (auto simp: andthen_eq_Ok split: if_splits dest!: take_document_progress parse_sequence_progress)

declare sections_loop.simps [simp del]

definition op_msg_parse_body :: "bytes \<Rightarrow> (protocol_error, op_msg) result" where
  "op_msg_parse_body body =
     (if length body < 5 then Err (PE_InvalidOpMsg ''body too short for OP_MSG'')
      else andthen (slice body 0 4) (\<lambda>b4.
        andthen (msg_flags_parse (from_le32 b4)) (\<lambda>flags.
        let checksummed = flags_contain flags CHECKSUM_PRESENT in
        if length body < 6 + (if checksummed then 1 else 0) * 4
        then Err (PE_InvalidOpMsg ''body too short for OP_MSG'')
        else andthen (usub (length body) ((if checksummed then 1 else 0) * 4)) (\<lambda>end_pos.
        andthen (sections_loop body end_pos 4 None []) (\<lambda>(body_doc, seqs).
        andthen (if checksummed
                 then andthen (slice body end_pos (end_pos + 4)) (\<lambda>t. Ok (Some (from_le32 t)))
                 else Ok None) (\<lambda>checksum.
        andthen (ok_or (PE_InvalidOpMsg ''no kind 0 section'') body_doc) (\<lambda>body_doc.
        andthen (sections_new body_doc seqs) (\<lambda>secs.
        debug_assert (sections_size secs = end_pos - 4)
        (Ok \<lparr>msg_flags = flags, msg_sections = secs, msg_checksum = checksum\<rparr>)))))))))"


section \<open>What the parser accepts\<close>

text \<open>Documents, sequences and section lists as they stand on the wire.\<close>

definition doc_ok :: "raw_document \<Rightarrow> bool" where
  "doc_ok d \<longleftrightarrow> frame_ok d \<and> length d \<le> 2147483647"

definition seq_size :: "document_sequence \<Rightarrow> nat" where
  "seq_size s = 4 + length (seq_identifier s) + 1 + length (concat (seq_documents s))"

definition seq_ok :: "document_sequence \<Rightarrow> bool" where
  "seq_ok s \<longleftrightarrow> wf_str (seq_identifier s) \<and> 0 \<notin> set (as_bytes (seq_identifier s)) \<and> list_all doc_ok (seq_documents s)
     \<and> 9 \<le> seq_size s \<and> seq_size s < 4294967296"

definition seq_payload :: "document_sequence \<Rightarrow> bytes" where
  "seq_payload s = to_le32 (u32_of_nat (seq_size s)) @ as_bytes (seq_identifier s) @ [0] @ concat (seq_documents s)"

lemma length_seq_payload [simp]: "length (seq_payload s) = seq_size s"
  by (simp add: seq_payload_def seq_size_def)

text \<open>The bytes between two offsets.\<close>

abbreviation region :: "bytes \<Rightarrow> nat \<Rightarrow> nat \<Rightarrow> bytes" where
  "region body from to \<equiv> take (to - from) (drop from body)"

lemma region_split:
  "from \<le> mid \<Longrightarrow> mid \<le> to \<Longrightarrow> region body from to = region body from mid @ region body mid to"
proof -
  assume a: "from \<le> mid" "mid \<le> to"
  then have "to - from = (mid - from) + (to - mid)" by simp
  with a show ?thesis by (simp only: take_add drop_drop) (simp add: add.commute)
qed

lemma region_prefix:
  assumes "region body from to = xs @ ys" "from \<le> to" "to \<le> length body"
  shows "from + length xs \<le> to" "region body from (from + length xs) = xs" "region body (from + length xs) to = ys"
proof -
  have len: "length xs + length ys = to - from"
    using arg_cong [OF assms(1), of length] assms(2,3) by simp
  then show "from + length xs \<le> to" using assms(2) by simp
  have "take (length xs) (region body from to) = xs" using assms(1) by simp
  then show "region body from (from + length xs) = xs" using len by (simp add: min_def split: if_splits)
  have "drop (length xs) (region body from to) = ys" using assms(1) by simp
  then show "region body (from + length xs) to = ys" by (simp add: drop_take add.commute)
qed

lemma take_document_Ok:
  assumes "off \<le> e" "e \<le> length body"
  shows "take_document body off e = Ok (d, nxt) \<longleftrightarrow>
    doc_ok d \<and> nxt = off + length d \<and> nxt \<le> e \<and> region body off nxt = d"
proof
  assume "take_document body off e = Ok (d, nxt)"
  then obtain len where len: "len = from_le32 (take 4 (drop off body))" "4 \<le> e - off" "5 \<le> sint len" "i32_as_usize len \<le> e - off"
    and d: "d = take (i32_as_usize len) (drop off body)" "frame_ok d" and nxt: "nxt = off + i32_as_usize len"
    using assms
    by (force simp: take_document_def Let_def andthen_eq_Ok from_bytes_Ok slice_eq_Ok not_less split: if_splits)
  from sint_ge_unat32 [of 5 len] len have u: "i32_as_usize len = unat len" "unat len \<le> 2147483647" by auto
  from d u len have "length d = unat len" using assms by simp
  with d nxt u len assms show "doc_ok d \<and> nxt = off + length d \<and> nxt \<le> e \<and> region body off nxt = d"
    by (simp add: doc_ok_def)
next
  assume r: "doc_ok d \<and> nxt = off + length d \<and> nxt \<le> e \<and> region body off nxt = d"
  then have d: "take (length d) (drop off body) = d" and f: "frame_ok d" and l: "length d \<le> 2147483647" "off + length d \<le> e"
    by (auto simp: doc_ok_def)
  define len where "len = from_le32 (take 4 (drop off body))"
  have "5 \<le> length d" using frame_ok_length [OF f] by simp
  then have "take 4 (take (length d) (drop off body)) = take 4 (drop off body)" by simp
  with d have "take 4 (drop off body) = take 4 d" by simp
  then have "unat len = length d" using f by (simp add: len_def frame_ok_def)
  with sint_of_unat32 [of len] l have len': "sint len = int (length d)" "i32_as_usize len = length d" by simp_all
  have "from_bytes d = Ok d" using f by (simp add: from_bytes_Ok)
  then show "take_document body off e = Ok (d, nxt)"
    using assms l len' d r \<open>5 \<le> length d\<close> by (auto simp: take_document_def Let_def len_def)
qed

lemma take_document_panic: "off \<le> e \<Longrightarrow> e \<le> length body \<Longrightarrow> take_document body off e \<noteq> Panic"
  by (auto simp: take_document_def Let_def andthen_eq_Panic slice_def split: if_splits)

lemma documents_loop_Ok:
  "off \<le> e \<Longrightarrow> e \<le> length body \<Longrightarrow> documents_loop body e off (e - off) = Ok (ds, off') \<Longrightarrow>
     off' = e \<and> list_all doc_ok ds \<and> region body off e = concat ds"
proof (induction "e - off" arbitrary: off ds rule: less_induct)
  case less
  show ?case
  proof (cases "e - off = 0")
    case True
    with less.prems show ?thesis by simp
  next
    case False
    from documents_loop_step [OF less.prems(3) False] obtain d nxt ds' where
      d: "take_document body off e = Ok (d, nxt)" and nxt: "off < nxt" "nxt - off \<le> e - off"
      and ds: "documents_loop body e nxt (e - off - (nxt - off)) = Ok (ds', off')" "ds = d # ds'" by blast
    from d take_document_Ok [OF less.prems(1,2)] have d': "doc_ok d" "nxt = off + length d" "nxt \<le> e"
      "region body off nxt = d" by auto
    have e: "e - off - (nxt - off) = e - nxt" using nxt(1) by simp
    have "e - nxt < e - off" using nxt(1) d'(3) by (intro diff_less_mono2) simp_all
    with less.hyps [OF this(1) d'(3) less.prems(2) ds(1) [unfolded e]]
    have ih: "off' = e \<and> list_all doc_ok ds' \<and> region body nxt e = concat ds'" by blast
    moreover have "region body off e = d @ region body nxt e"
      using region_split [of off nxt e body] d' nxt by simp
    ultimately show ?thesis using d' ds by simp
  qed
qed

lemma documents_loop_layout:
  "list_all doc_ok ds \<Longrightarrow> off \<le> e \<Longrightarrow> e \<le> length body \<Longrightarrow> region body off e = concat ds \<Longrightarrow>
     documents_loop body e off (e - off) = Ok (ds, e)"
proof (induction ds arbitrary: off)
  case Nil
  then have "e - off = 0" using arg_cong [OF Nil.prems(4), of length] by simp
  with Nil show ?case by simp
next
  case (Cons d ds)
  have pre: "off + length d \<le> e" "region body off (off + length d) = d" "region body (off + length d) e = concat ds"
    using region_prefix [where xs = d and ys = "concat ds", OF _ Cons.prems(2,3)] Cons.prems by simp_all
  have "take_document body off e = Ok (d, off + length d)"
    using take_document_Ok [OF Cons.prems(2,3)] pre Cons.prems(1) by simp
  moreover have "documents_loop body e (off + length d) (e - (off + length d)) = Ok (ds, e)"
    using Cons.IH [of "off + length d"] pre Cons.prems by simp
  moreover have "e - off \<noteq> 0"
    using pre(1) Cons.prems(1) frame_ok_length [of d] by (simp add: doc_ok_def)
  ultimately show ?case
    using pre(1) by (subst documents_loop.simps) (simp add: usub_def)
qed

lemma documents_loop_panic:
  "off \<le> e \<Longrightarrow> e \<le> length body \<Longrightarrow> documents_loop body e off (e - off) \<noteq> Panic"
proof (induction "e - off" arbitrary: off rule: less_induct)
  case less
  show ?case
  proof (cases "e - off = 0")
    case False
    have "documents_loop body e nxt (e - nxt) \<noteq> Panic \<and> off \<le> nxt \<and> nxt - off \<le> e - off"
      if td: "take_document body off e = Ok (d, nxt)" for d nxt
    proof -
      from take_document_Ok [OF less.prems, of d nxt] td have d: "doc_ok d" "nxt = off + length d" "nxt \<le> e" by auto
      then have "e - nxt < e - off" using frame_ok_length [of d] by (simp add: doc_ok_def)
      from less.hyps [OF this d(3) less.prems(2)] d show ?thesis by simp
    qed
    with False take_document_panic [OF less.prems] show ?thesis
      by (subst documents_loop.simps) (fastforce simp: andthen_eq_Panic usub_def)
  qed simp
qed


lemma parse_sequence_short:
  assumes "off \<le> e" "e \<le> length body" "sz = unat (from_le32 (take 4 (drop off body)))"
    and "\<not> (4 \<le> e - off \<and> 9 \<le> sz \<and> sz \<le> e - off)"
  shows "\<exists>x. parse_sequence body e off = Err x"
proof (cases "4 \<le> e - off")
  case True
  then have s4: "slice body off (off + 4) = Ok (take 4 (drop off body))" using assms(1,2) by simp
  have chk: "\<not> e < off" "\<not> e - off < 4" using True assms(1) by auto
  have "int sz - 4 < 5 \<or> \<not> int sz - 4 < 5 \<and> int sz - 4 > int (e - off - 4)" using True assms(4) by linarith
  then show ?thesis using chk
    by (elim disjE conjE)
      (simp_all only: parse_sequence_def s4 andthen_simps Let_def assms(3) [symmetric] if_True if_False, blast+)
next
  case False
  with assms(1) show ?thesis by (simp add: parse_sequence_def)
qed

lemma parse_sequence_eq:
  assumes "off \<le> e" "e \<le> length body" "sz = unat (from_le32 (take 4 (drop off body)))"
    and cond: "4 \<le> e - off" "9 \<le> sz" "sz \<le> e - off"
  shows "parse_sequence body e off =
        andthen (ok_or (PE_InvalidOpMsg ''truncated section identifier'') (nul_pos (region body (off + 4) (off + sz)))) (\<lambda>n.
        andthen (ok_or (PE_InvalidOpMsg ''invalid UTF-8 in section identifier'') (from_utf8 (take n (drop (off + 4) body)))) (\<lambda>ident.
        andthen (documents_loop body (off + sz) (off + 4 + (n + 1)) (off + sz - (off + 4 + (n + 1)))) (\<lambda>(ds, offset).
        Ok (\<lparr>seq_identifier = ident, seq_documents = ds\<rparr>, offset))))"
proof -
  have se: "off + 4 + nat (int sz - 4) = off + sz" using cond by linarith
  have s4: "slice body off (off + 4) = Ok (take 4 (drop off body))" using cond assms(1,2) by simp
  have ss: "slice body (off + 4) (off + sz) = Ok (region body (off + 4) (off + sz))" using cond assms(1,2) by simp
  have chk: "\<not> int sz - 4 < 5" "\<not> int sz - 4 > int (e - off - 4)" "\<not> e < off" "\<not> e - off < 4"
    using cond assms(1,2) by auto
  have "parse_sequence body e off =
        andthen (ok_or (PE_InvalidOpMsg ''truncated section identifier'') (nul_pos (region body (off + 4) (off + sz)))) (\<lambda>n.
        andthen (slice body (off + 4) (off + 4 + n)) (\<lambda>ib.
        andthen (ok_or (PE_InvalidOpMsg ''invalid UTF-8 in section identifier'') (from_utf8 ib)) (\<lambda>ident.
        andthen (usub (off + sz) (off + 4 + (n + 1))) (\<lambda>sec_rest.
        andthen (documents_loop body (off + sz) (off + 4 + (n + 1)) sec_rest) (\<lambda>(ds, offset).
        Ok (\<lparr>seq_identifier = ident, seq_documents = ds\<rparr>, offset))))))"
    using chk by (simp only: parse_sequence_def s4 andthen_simps Let_def assms(3) [symmetric] se ss if_False)
  also have "\<dots> =
        andthen (ok_or (PE_InvalidOpMsg ''truncated section identifier'') (nul_pos (region body (off + 4) (off + sz)))) (\<lambda>n.
        andthen (ok_or (PE_InvalidOpMsg ''invalid UTF-8 in section identifier'') (from_utf8 (take n (drop (off + 4) body)))) (\<lambda>ident.
        andthen (documents_loop body (off + sz) (off + 4 + (n + 1)) (off + sz - (off + 4 + (n + 1)))) (\<lambda>(ds, offset).
        Ok (\<lparr>seq_identifier = ident, seq_documents = ds\<rparr>, offset))))"
  proof (rule andthen_cong [OF refl])
    fix n
    assume "ok_or (PE_InvalidOpMsg ''truncated section identifier'') (nul_pos (region body (off + 4) (off + sz))) = Ok n"
    then have "nul_pos (region body (off + 4) (off + sz)) = Some n" by simp
    from nul_pos_Some [OF this] have "n < length (region body (off + 4) (off + sz))" by blast
    then have "off + 4 + (n + 1) \<le> off + sz" by auto
    moreover from this have "off + 4 + n \<le> length body" using cond assms(1,2) by simp
    ultimately show "andthen (slice body (off + 4) (off + 4 + n)) (\<lambda>ib.
        andthen (ok_or (PE_InvalidOpMsg ''invalid UTF-8 in section identifier'') (from_utf8 ib)) (\<lambda>ident.
        andthen (usub (off + sz) (off + 4 + (n + 1))) (\<lambda>sec_rest.
        andthen (documents_loop body (off + sz) (off + 4 + (n + 1)) sec_rest) (\<lambda>(ds, offset).
        Ok (\<lparr>seq_identifier = ident, seq_documents = ds\<rparr>, offset))))) =
        andthen (ok_or (PE_InvalidOpMsg ''invalid UTF-8 in section identifier'') (from_utf8 (take n (drop (off + 4) body)))) (\<lambda>ident.
        andthen (documents_loop body (off + sz) (off + 4 + (n + 1)) (off + sz - (off + 4 + (n + 1)))) (\<lambda>(ds, offset).
        Ok (\<lparr>seq_identifier = ident, seq_documents = ds\<rparr>, offset)))"
      by (simp del: add_Suc_right add_2_eq_Suc' )
  qed
  finally show ?thesis .
qed

lemma parse_sequence_panic:
  assumes "off \<le> e" "e \<le> length body"
  shows "parse_sequence body e off \<noteq> Panic"
proof -
  define sz where "sz = unat (from_le32 (take 4 (drop off body)))"
  have "documents_loop body (off + sz) (off + 4 + (n + 1)) (off + sz - (off + 4 + (n + 1))) \<noteq> Panic"
    if "nul_pos (region body (off + 4) (off + sz)) = Some n" "sz \<le> e - off" for n
  proof (rule documents_loop_panic)
    from nul_pos_Some [OF that(1)] show "off + 4 + (n + 1) \<le> off + sz" by auto
    show "off + sz \<le> length body" using that(2) assms by simp
  qed
  then show ?thesis
    using parse_sequence_short [OF assms sz_def] parse_sequence_eq [OF assms sz_def]
    by (cases "4 \<le> e - off \<and> 9 \<le> sz \<and> sz \<le> e - off") (auto simp: andthen_eq_Panic)
qed

lemma parse_sequence_Ok:
  assumes "off \<le> e" "e \<le> length body"
  shows "parse_sequence body e off = Ok (q, nxt) \<longleftrightarrow>
    seq_ok q \<and> nxt = off + seq_size q \<and> nxt \<le> e \<and> region body off nxt = seq_payload q" (is "?l \<longleftrightarrow> ?r")
proof
  define sz where "sz = unat (from_le32 (take 4 (drop off body)))"
  assume l: ?l
  have "\<not> (\<exists>x. parse_sequence body e off = Err x)" using l by simp
  then have cond: "4 \<le> e - off" "9 \<le> sz" "sz \<le> e - off"
    using parse_sequence_short [OF assms sz_def] by blast+
  from l [unfolded parse_sequence_eq [OF assms sz_def cond]] cond obtain n ident ds where sz: "9 \<le> sz" "sz \<le> e - off"
    and n: "nul_pos (region body (off + 4) (off + sz)) = Some n"
    and ident: "from_utf8 (take n (drop (off + 4) body)) = Some ident"
    and ds: "documents_loop body (off + sz) (off + 4 + (n + 1)) (off + sz - (off + 4 + (n + 1))) = Ok (ds, nxt)"
    and q: "q = \<lparr>seq_identifier = ident, seq_documents = ds\<rparr>"
    by (auto simp: andthen_eq_Ok)
  from nul_pos_Some [OF n] have nsz: "off + 4 + (n + 1) \<le> off + sz" by auto
  have "off + sz \<le> length body" using sz assms by simp
  from documents_loop_Ok [OF nsz this ds] have nxt: "nxt = off + sz" and dok: "list_all doc_ok ds"
    and reg: "region body (off + 4 + (n + 1)) (off + sz) = concat ds" by auto
  have tk: "take n (region body (off + 4) (off + sz)) = as_bytes ident" and wf: "wf_str ident"
    using from_utf8_Some_wf [OF ident] nsz by (auto simp: min_def)
  have nz: "0 \<notin> set (as_bytes ident)" using nul_pos_Some [OF n, unfolded tk] by blast
  have dr: "drop (Suc n) (region body (off + 4) (off + sz)) = concat ds"
    using reg by (simp add: drop_take add_ac)
  have r4: "region body (off + 4) (off + sz) = as_bytes ident @ 0 # concat ds"
    using nul_pos_split [OF n] tk dr by simp
  have size: "seq_size q = sz"
    using arg_cong [OF r4, of length] \<open>off + sz \<le> length body\<close> sz by (simp add: q seq_size_def)
  have "length (take 4 (drop off body)) = 4" using sz assms by simp
  then have "take 4 (drop off body) = to_le32 (u32_of_nat sz)"
    using to_from_le32 [of "take 4 (drop off body)"] by (simp add: sz_def)
  with region_split [of off "off + 4" "off + sz" body] r4 sz
  have "region body off nxt = seq_payload q" by (simp add: nxt seq_payload_def size) (simp add: q)
  moreover have "sz < 4294967296" by (simp add: sz_def unat_word32_less)
  ultimately show ?r using size nxt sz wf nz dok assms by (simp add: seq_ok_def) (simp add: q)
next
  assume r: ?r
  let ?sz = "seq_size q"
  have le: "off \<le> off + ?sz" "off + ?sz \<le> length body" using r assms by simp_all
  have reg: "region body off (off + ?sz) = to_le32 (u32_of_nat ?sz) @ (as_bytes (seq_identifier q) @ 0 # concat (seq_documents q))"
  proof -
    from r have "nxt = off + ?sz" "region body off nxt = seq_payload q" by blast+
    then show ?thesis by (simp only: seq_payload_def append.simps)
  qed
  note p = region_prefix [OF reg le]
  have t4: "take 4 (drop off body) = to_le32 (u32_of_nat ?sz)" using p(2) by simp
  have ok: "seq_ok q" "off + ?sz \<le> e" using r by auto
  then have sz: "unat (from_le32 (take 4 (drop off body))) = ?sz" "9 \<le> ?sz" "?sz \<le> e - off"
    by (simp_all add: t4 seq_ok_def)
  have r4: "region body (off + 4) (off + ?sz) = as_bytes (seq_identifier q) @ (0 # concat (seq_documents q))"
    using p(3) by simp
  have le4: "off + 4 \<le> off + ?sz" using sz by simp
  note p4 = region_prefix [OF r4 le4 le(2)]
  have np: "nul_pos (region body (off + 4) (off + ?sz)) = Some (length (seq_identifier q))"
    unfolding r4 using ok by (simp add: seq_ok_def)
  have tk: "take (length (seq_identifier q)) (drop (off + 4) body) = as_bytes (seq_identifier q)"
    using p4(2) by simp
  have r5: "region body (off + 4 + length (seq_identifier q)) (off + ?sz) = [0] @ concat (seq_documents q)"
    using p4(3) by simp
  note p5 = region_prefix [OF r5 _ le(2)]
  have le5: "off + 4 + length (seq_identifier q) \<le> off + ?sz" using p4(1) by simp
  have dl: "documents_loop body (off + ?sz) (off + 4 + (length (seq_identifier q) + 1))
      (off + ?sz - (off + 4 + (length (seq_identifier q) + 1))) = Ok (seq_documents q, off + ?sz)"
    using p5(1,3) [OF le5] ok le by (intro documents_loop_layout) (simp_all add: seq_ok_def add.assoc)
  have "4 \<le> e - off" using sz by simp
  from parse_sequence_eq [OF assms sz(1) [symmetric] this sz(2,3)] np tk dl ok
  show ?l using r by (simp add: seq_ok_def)
qed


subsection \<open>The section loop\<close>

definition seq_bytes :: "document_sequence \<Rightarrow> bytes" where
  "seq_bytes q = 1 # seq_payload q"

lemma region_Cons:
  assumes "off < e" "e \<le> length body"
  shows "region body off e = body ! off # region body (Suc off) e"
proof -
  have "drop off body = body ! off # drop (Suc off) body" using assms by (simp add: Cons_nth_drop_Suc)
  moreover have "e - off = Suc (e - Suc off)" using assms by simp
  ultimately show ?thesis by simp
qed

text \<open>Past the body document only kind-1 sections are accepted.\<close>

lemma sections_loop_Some:
  "off < e \<Longrightarrow> e \<le> length body \<Longrightarrow>
   sections_loop body e off (Some d) seqs = Ok res \<longleftrightarrow>
     (\<exists>qs. list_all seq_ok qs \<and> res = (Some d, seqs @ qs) \<and> region body off e = concat (map seq_bytes qs))"
proof (induction "e - off" arbitrary: off seqs rule: less_induct)
  case less
  note le = less.prems
  have o: "off < length body" using le by simp
  note reg = region_Cons [OF le]
  have suc: "off + 1 \<le> e" using le by simp
  show ?case
  proof (cases "body ! off = 1")
    case True
    have eq: "sections_loop body e off (Some d) seqs =
        andthen (parse_sequence body e (off + 1)) (\<lambda>(q, nxt).
          if nxt = e then Ok (Some d, seqs @ [q]) else sections_loop body e nxt (Some d) (seqs @ [q]))"
      using o True by (subst sections_loop.simps) (simp add: Let_def andthen_assoc split_def cong: if_cong)
    show ?thesis
    proof
      assume "sections_loop body e off (Some d) seqs = Ok res"
      then obtain q nxt where q: "parse_sequence body e (off + 1) = Ok (q, nxt)"
        and rest: "(if nxt = e then Ok (Some d, seqs @ [q]) else sections_loop body e nxt (Some d) (seqs @ [q])) = Ok res"
        unfolding eq by (auto simp: andthen_eq_Ok)
      from q parse_sequence_Ok [OF suc le(2)] have q': "seq_ok q" "nxt = off + 1 + seq_size q" "nxt \<le> e"
        "region body (off + 1) nxt = seq_payload q" by auto
      have split: "region body off e = seq_bytes q @ region body nxt e"
        using region_split [of "off + 1" nxt e body] q' reg True by (simp add: seq_bytes_def)
      show "\<exists>qs. list_all seq_ok qs \<and> res = (Some d, seqs @ qs) \<and> region body off e = concat (map seq_bytes qs)"
      proof (cases "nxt = e")
        case True
        with rest split q' show ?thesis by (intro exI [of _ "[q]"]) simp
      next
        case False
        with q' have "e - nxt < e - off" "nxt < e" by simp_all
        with less.hyps [OF this le(2), of "seqs @ [q]"] rest False obtain qs where
          "list_all seq_ok qs" "res = (Some d, (seqs @ [q]) @ qs)" "region body nxt e = concat (map seq_bytes qs)" by auto
        with split q' show ?thesis by (intro exI [of _ "q # qs"]) simp
      qed
    next
      assume "\<exists>qs. list_all seq_ok qs \<and> res = (Some d, seqs @ qs) \<and> region body off e = concat (map seq_bytes qs)"
      then obtain qs where qs: "list_all seq_ok qs" "res = (Some d, seqs @ qs)" "region body off e = concat (map seq_bytes qs)"
        by blast
      with reg obtain q qs' where cons: "qs = q # qs'" by (cases qs) auto
      have r1: "region body (off + 1) e = seq_payload q @ concat (map seq_bytes qs')"
        using qs(3) reg cons by (simp add: seq_bytes_def)
      note p = region_prefix [OF r1 suc le(2)]
      have ps: "parse_sequence body e (off + 1) = Ok (q, off + 1 + seq_size q)"
        using parse_sequence_Ok [OF suc le(2)] p(1,2) qs(1) cons by simp
      show "sections_loop body e off (Some d) seqs = Ok res"
      proof (cases "off + 1 + seq_size q = e")
        case True
        with p(3) have "concat (map seq_bytes qs') = []" by simp
        then have "qs' = []" by (cases qs') (simp_all add: seq_bytes_def)
        with True ps qs cons show ?thesis by (simp add: eq)
      next
        case False
        with p(1) have lt: "off + 1 + seq_size q < e" by simp
        then have "e - (off + 1 + seq_size q) < e - off" by simp
        from less.hyps [OF this lt le(2), of "seqs @ [q]"] p(3) qs cons False ps show ?thesis by (simp add: eq)
      qed
    qed
  next
    case False
    then have "\<nexists>x. sections_loop body e off (Some d) seqs = Ok x"
      using o by (subst sections_loop.simps) (simp add: Let_def)
    moreover have "region body off e \<noteq> concat (map seq_bytes qs)" for qs
      using reg False by (cases qs) (auto simp: seq_bytes_def)
    ultimately show ?thesis by blast
  qed
qed

text \<open>Without a body document first, no later section can supply one.\<close>

lemma sections_loop_no_body:
  "off \<le> length body \<Longrightarrow> seqs \<noteq> [] \<Longrightarrow> sections_loop body e off None seqs = Ok (bd, qs) \<Longrightarrow> bd = None"
proof (induction "length body - off" arbitrary: off seqs rule: less_induct)
  case less
  have o: "off < length body" using less.prems(3) by (subst (asm) sections_loop.simps) (simp split: if_splits)
  with less.prems have eq: "andthen (if body ! off = 1 then
             andthen (parse_sequence body e (off + 1)) (\<lambda>(s, nxt). Ok (None, seqs @ [s], nxt))
           else Err (PE_InvalidOpMsg (if body ! off = 0 then ''kind 0 section must be the first section'' else ''unknown section kind'')))
          (\<lambda>(body_doc, seqs, nxt).
             if nxt = e then Ok (body_doc, seqs)
             else sections_loop body e nxt body_doc seqs) = Ok (bd, qs)"
    by (subst (asm) sections_loop.simps) (simp add: Let_def split: if_splits)
  then obtain q nxt where q: "parse_sequence body e (off + 1) = Ok (q, nxt)"
    and rest: "(if nxt = e then Ok (None, seqs @ [q]) else sections_loop body e nxt None (seqs @ [q])) = Ok (bd, qs)"
    by (auto simp: andthen_eq_Ok split: if_splits)
  show ?case
  proof (cases "nxt = e")
    case True
    with rest show ?thesis by simp
  next
    case False
    with rest have r: "sections_loop body e nxt None (seqs @ [q]) = Ok (bd, qs)" by simp
    have n: "nxt < length body" using r by (subst (asm) sections_loop.simps) (simp split: if_splits)
    have "length body - nxt < length body - off" using parse_sequence_progress [OF q] o n by simp
    from less.hyps [OF this _ _ r] n show ?thesis by simp
  qed
qed

lemma sections_loop_Ok:
  assumes "off < e" "e \<le> length body"
  shows "sections_loop body e off None [] = Ok (Some d, qs) \<longleftrightarrow>
    doc_ok d \<and> list_all seq_ok qs \<and> region body off e = 0 # d @ concat (map seq_bytes qs)"
proof -
  have o: "off < length body" and suc: "off + 1 \<le> e" using assms by simp_all
  note reg = region_Cons [OF assms]
  consider "body ! off = 0" | "body ! off = 1" | "body ! off \<noteq> 0" "body ! off \<noteq> 1" by blast
  then show ?thesis
  proof cases
    case 1
    have eq: "sections_loop body e off None [] =
        andthen (take_document body (off + 1) e) (\<lambda>(d, nxt).
          if nxt = e then Ok (Some d, []) else sections_loop body e nxt (Some d) [])"
      using o 1 by (subst sections_loop.simps) (simp add: Let_def andthen_assoc split_def cong: if_cong)
    show ?thesis
    proof
      assume "sections_loop body e off None [] = Ok (Some d, qs)"
      then obtain d' nxt where d: "take_document body (off + 1) e = Ok (d', nxt)"
        and rest: "(if nxt = e then Ok (Some d', []) else sections_loop body e nxt (Some d') []) = Ok (Some d, qs)"
        unfolding eq by (auto simp: andthen_eq_Ok)
      from d take_document_Ok [OF suc assms(2)] have d': "doc_ok d'" "nxt = off + 1 + length d'" "nxt \<le> e"
        "region body (off + 1) nxt = d'" by auto
      have split: "region body off e = 0 # d' @ region body nxt e"
        using region_split [of "off + 1" nxt e body] d' reg 1 by simp
      show "doc_ok d \<and> list_all seq_ok qs \<and> region body off e = 0 # d @ concat (map seq_bytes qs)"
      proof (cases "nxt = e")
        case True
        with rest d' split show ?thesis by auto
      next
        case False
        with d' have "nxt < e" by simp
        from sections_loop_Some [OF this assms(2), of d' "[]" "(Some d, qs)"] rest False d' split show ?thesis by auto
      qed
    next
      assume r: "doc_ok d \<and> list_all seq_ok qs \<and> region body off e = 0 # d @ concat (map seq_bytes qs)"
      then have r1: "region body (off + 1) e = d @ concat (map seq_bytes qs)" using reg by simp
      note p = region_prefix [OF r1 suc assms(2)]
      have td: "take_document body (off + 1) e = Ok (d, off + 1 + length d)"
        using take_document_Ok [OF suc assms(2)] p(1,2) r by simp
      show "sections_loop body e off None [] = Ok (Some d, qs)"
      proof (cases "off + 1 + length d = e")
        case True
        with p(3) have "concat (map seq_bytes qs) = []" by simp
        then have "qs = []" by (cases qs) (simp_all add: seq_bytes_def)
        with True td show ?thesis by (simp add: eq)
      next
        case False
        with p(1) have lt: "off + 1 + length d < e" by simp
        from sections_loop_Some [OF lt assms(2), of d "[]" "(Some d, qs)"] p(3) r False td show ?thesis
          by (simp add: eq)
      qed
    qed
  next
    case 2
    have eq: "sections_loop body e off None [] =
        andthen (parse_sequence body e (off + 1)) (\<lambda>(q, nxt).
          if nxt = e then Ok (None, [q]) else sections_loop body e nxt None [q])"
      using o 2 by (subst sections_loop.simps) (simp add: Let_def andthen_assoc split_def cong: if_cong)
    have "sections_loop body e off None [] \<noteq> Ok (Some d, qs)"
    proof
      assume "sections_loop body e off None [] = Ok (Some d, qs)"
      then obtain q nxt where q: "parse_sequence body e (off + 1) = Ok (q, nxt)" "nxt \<noteq> e"
        and rest: "sections_loop body e nxt None [q] = Ok (Some d, qs)"
        unfolding eq by (auto simp: andthen_eq_Ok split: if_splits)
      from q parse_sequence_Ok [OF suc assms(2), of q nxt] have "nxt \<le> length body" using assms(2) by auto
      from sections_loop_no_body [OF this _ rest] show False by simp
    qed
    with reg 2 show ?thesis by simp
  next
    case 3
    then have "sections_loop body e off None [] \<noteq> Ok (Some d, qs)"
      using o by (subst sections_loop.simps) (simp add: Let_def)
    with reg 3 show ?thesis by simp
  qed
qed

lemma sections_loop_panic:
  "off < e \<Longrightarrow> e \<le> length body \<Longrightarrow> sections_loop body e off bd seqs \<noteq> Panic"
proof (induction "e - off" arbitrary: off bd seqs rule: less_induct)
  case less
  have suc: "off + 1 \<le> e" and o: "off < length body" using less.prems by simp_all
  have rec: "sections_loop body e nxt bd' seqs' \<noteq> Panic" if "off < nxt" "nxt \<le> e" "nxt \<noteq> e" for nxt bd' seqs'
    using that less.prems by (intro less.hyps) auto
  have td: "off < nxt \<and> nxt \<le> e" if "take_document body (off + 1) e = Ok (d, nxt)" for d nxt
    using that take_document_Ok [OF suc less.prems(2), of d nxt] by auto
  have ps: "off < nxt \<and> nxt \<le> e" if "parse_sequence body e (off + 1) = Ok (q, nxt)" for q nxt
    using that parse_sequence_Ok [OF suc less.prems(2), of q nxt] by auto
  show ?case
    using o rec td ps take_document_panic [OF suc less.prems(2)] parse_sequence_panic [OF suc less.prems(2)]
    by (subst sections_loop.simps)
      (auto simp: Let_def andthen_eq_Panic andthen_eq_Ok split: if_splits; blast)
qed


section \<open>Messages\<close>

text \<open>Section names: the body is scanned only when there are sequences.\<close>

lemma field_names_loop_eq:
  "field_names_loop \<lparr>fi_scanner = sc, fi_done = False\<rparr> =
     andthen (scanner_next sc) (\<lambda>(item, sc').
     case item of
       None \<Rightarrow> Ok []
     | Some (name, v) \<Rightarrow> andthen (field_names_loop \<lparr>fi_scanner = sc', fi_done = False\<rparr>) (\<lambda>names.
         Ok (as_bytes name # names)))"
  by (subst field_names_loop.simps)
    (auto simp: fields_iter_next_def andthen_def split: result.splits option.splits prod.splits)

lemma field_names_loop_scan:
  "field_names_loop \<lparr>fi_scanner = sc, fi_done = False\<rparr> = scan_loop (\<lambda>(name, v). Ok (as_bytes name)) sc"
proof (induction "length (sc_body sc) - sc_offset sc" arbitrary: sc rule: less_induct)
  case less
  have ih: "field_names_loop \<lparr>fi_scanner = sc', fi_done = False\<rparr> = scan_loop (\<lambda>(name, v). Ok (as_bytes name)) sc'"
    if "scanner_next sc = Ok (Some f, sc')" for f sc'
    using scanner_next_progress [OF that] by (intro less) auto
  show ?case
    by (subst field_names_loop_eq, subst scan_loop.simps, rule andthen_cong [OF refl])
      (auto simp: ih split: option.splits)
qed

lemma field_names_panic: "field_names_loop (raw_fields d) \<noteq> Panic"
  unfolding raw_fields_def field_names_loop_scan by (rule scan_loop_not_Panic) auto

lemma check_identifiers_Ok:
  "check_identifiers names seqs = Ok () \<longleftrightarrow>
     list_all (\<lambda>q. seq_identifier q \<noteq> [] \<and> 0 \<notin> set (as_bytes (seq_identifier q)) \<and> as_bytes (seq_identifier q) \<notin> set names) seqs"
  by (induction seqs) auto

lemma check_identifiers_panic [simp]: "check_identifiers names seqs \<noteq> Panic"
  by (induction seqs) auto

lemma sections_new_panic [simp, panic_free]: "sections_new d seqs \<noteq> Panic"
  by (auto simp: sections_new_def andthen_eq_Panic field_names_panic)

lemma sections_new_Ok: "sections_new d seqs = Ok s \<Longrightarrow> s = \<lparr>sec_body = d, sec_sequences = seqs\<rparr>"
  by (auto simp: sections_new_def andthen_eq_Ok split: if_splits)

definition msg_sections_bytes :: "sections \<Rightarrow> bytes" where
  "msg_sections_bytes s = 0 # sec_body s @ concat (map seq_bytes (sec_sequences s))"

definition checksum_bytes :: "u32 option \<Rightarrow> bytes" where
  "checksum_bytes c = (case c of Some w \<Rightarrow> to_le32 w | None \<Rightarrow> [])"

definition op_msg_bytes :: "op_msg \<Rightarrow> bytes" where
  "op_msg_bytes m = to_le32 (msg_flags m) @ msg_sections_bytes (msg_sections m) @ checksum_bytes (msg_checksum m)"

definition op_msg_ok :: "op_msg \<Rightarrow> bool" where
  "op_msg_ok m \<longleftrightarrow> msg_flags m AND MSG_FLAGS_ALL = msg_flags m
     \<and> (msg_checksum m \<noteq> None) = flags_contain (msg_flags m) CHECKSUM_PRESENT
     \<and> doc_ok (sec_body (msg_sections m)) \<and> list_all seq_ok (sec_sequences (msg_sections m))
     \<and> sections_new (sec_body (msg_sections m)) (sec_sequences (msg_sections m)) = Ok (msg_sections m)"

lemma length_sections_bytes [simp]: "length (msg_sections_bytes s) = sections_size s"
proof -
  have "length (concat (map seq_bytes qs)) =
      sum_list (map (\<lambda>q. 1 + 4 + length (seq_identifier q) + 1 + sum_list (map length (seq_documents q))) qs)" for qs
    by (induction qs) (simp_all add: seq_bytes_def seq_size_def length_concat)
  then show ?thesis by (simp add: msg_sections_bytes_def sections_size_def)
qed

lemma length_op_msg_bytes: "length (op_msg_bytes m) = op_msg_body_len m"
  by (simp add: op_msg_bytes_def op_msg_body_len_def checksum_bytes_def split: option.splits)

lemma put_documents_eq [simp]: "put_documents ds out = out @ concat ds"
  by (induction ds arbitrary: out) (simp_all add: put_defs)

lemma put_sequences_eq: "put_sequences qs out = out @ concat (map seq_bytes qs)"
  by (induction qs arbitrary: out)
    (simp_all add: put_defs Let_def seq_bytes_def seq_payload_def seq_size_def length_concat)

lemma op_msg_encode_eq:
  "op_msg_encode_body m out =
     debug_assert ((msg_checksum m \<noteq> None) = flags_contain (msg_flags m) CHECKSUM_PRESENT) (Ok (out @ op_msg_bytes m))"
  by (simp add: op_msg_encode_body_def put_sequences_eq op_msg_bytes_def msg_sections_bytes_def checksum_bytes_def
      put_defs Let_def split: option.splits)

definition flags_accept :: "u32 \<Rightarrow> u32 \<Rightarrow> bool" where
  "flags_accept raw flags \<longleftrightarrow> raw AND 0x0000FFFF AND NOT MSG_FLAGS_ALL = 0 \<and> flags = raw AND MSG_FLAGS_ALL"

lemma msg_flags_parse_Ok: "msg_flags_parse raw = Ok flags \<longleftrightarrow> flags_accept raw flags"
  by (auto simp: msg_flags_parse_def flags_accept_def MSG_FLAGS_ALL_def Let_def)

lemma msg_flags_parse_panic [simp, panic_free]: "msg_flags_parse raw \<noteq> Panic"
  by (simp add: msg_flags_parse_def Let_def)

lemma flags_accept_known: "flags AND MSG_FLAGS_ALL = flags \<Longrightarrow> flags_accept flags flags"
proof -
  assume k: "flags AND MSG_FLAGS_ALL = flags"
  have "flags AND 0x0000FFFF AND NOT MSG_FLAGS_ALL = (flags AND MSG_FLAGS_ALL) AND 0x0000FFFF AND NOT MSG_FLAGS_ALL"
    by (simp only: k)
  also have "\<dots> = 0" by (simp add: bit_eq_iff bit_simps)
  finally show ?thesis using k by (simp add: flags_accept_def)
qed

lemma flags_accept_idem: "flags_accept raw flags \<Longrightarrow> flags AND MSG_FLAGS_ALL = flags"
  by (auto simp: flags_accept_def ac_simps)

lemma op_msg_parse_Ok:
  "op_msg_parse_body body = Ok m \<longleftrightarrow> op_msg_ok m \<and> (\<exists>raw. flags_accept raw (msg_flags m)
     \<and> body = to_le32 raw @ msg_sections_bytes (msg_sections m) @ checksum_bytes (msg_checksum m))" (is "?l \<longleftrightarrow> ?r")
proof
  define c :: nat where "c = (if flags_contain (msg_flags m) CHECKSUM_PRESENT then 4 else 0)"
  define e where "e = length body - c"
  define raw where "raw = from_le32 (take 4 body)"
  note c = c_def and e = e_def and raw = raw_def
  assume ?l
  then obtain d qs where len: "6 + c \<le> length body" and fl: "flags_accept raw (msg_flags m)"
    and loop: "sections_loop body e 4 None [] = Ok (Some d, qs)"
    and new: "sections_new d qs = Ok (msg_sections m)"
    and m: "msg_checksum m =
      (if flags_contain (msg_flags m) CHECKSUM_PRESENT then Some (from_le32 (take 4 (drop e body))) else None)"
    unfolding op_msg_parse_body_def c_def e_def raw_def
    by (auto simp: andthen_eq_Ok Let_def msg_flags_parse_Ok usub_eq_Ok not_less split: if_splits)
  from len e c have e': "4 < e" "e \<le> length body" by (auto split: if_splits)
  from loop sections_loop_Ok [OF e', of d qs] have d: "doc_ok d" "list_all seq_ok qs"
    "region body 4 e = 0 # d @ concat (map seq_bytes qs)" by auto
  note secs = sections_new_Ok [OF new]
  have "take 4 body = to_le32 raw" using raw len by (simp add: to_from_le32)
  moreover have "drop e body = checksum_bytes (msg_checksum m)"
    using e c len by (simp add: m checksum_bytes_def to_from_le32)
  moreover have "body = take 4 body @ region body 4 e @ drop e body"
    using e' by (metis append_take_drop_id drop_drop le_add_diff_inverse2 less_imp_le_nat)
  ultimately have "body = to_le32 raw @ msg_sections_bytes (msg_sections m) @ checksum_bytes (msg_checksum m)"
    using d by (simp add: secs msg_sections_bytes_def)
  moreover have "op_msg_ok m"
    using fl d new m secs by (auto simp: op_msg_ok_def dest: flags_accept_idem)
  ultimately show ?r using fl by blast
next
  assume ?r
  then obtain raw where ok: "op_msg_ok m" and fl: "flags_accept raw (msg_flags m)"
    and body: "body = to_le32 raw @ msg_sections_bytes (msg_sections m) @ checksum_bytes (msg_checksum m)" by blast
  let ?e = "4 + sections_size (msg_sections m)"
  obtain d qs where secs: "msg_sections m = \<lparr>sec_body = d, sec_sequences = qs\<rparr>" by (cases "msg_sections m") simp
  have size: "6 \<le> sections_size (msg_sections m)" using ok frame_ok_length [of d]
    by (simp add: op_msg_ok_def secs sections_size_def doc_ok_def)
  have len: "length body = ?e + length (checksum_bytes (msg_checksum m))" by (simp add: body)
  have reg: "region body 4 ?e = 0 # d @ concat (map seq_bytes qs)"
    by (simp add: body) (simp add: msg_sections_bytes_def secs)
  have "4 < ?e" "?e \<le> length body" using size len by simp_all
  from sections_loop_Ok [OF this, of d qs] reg ok
  have loop: "sections_loop body ?e 4 None [] = Ok (Some d, qs)" by (simp add: op_msg_ok_def secs)
  have new: "sections_new d qs = Ok (msg_sections m)" using ok by (simp add: op_msg_ok_def secs)
  have t4: "take 4 body = to_le32 raw" by (simp add: body)
  have dr: "drop ?e body = checksum_bytes (msg_checksum m)" by (simp add: body)
  show ?l
  proof (cases "msg_checksum m")
    case None
    then have nc: "\<not> flags_contain (msg_flags m) CHECKSUM_PRESENT" using ok by (simp add: op_msg_ok_def)
    have "?e = length body" using len None by (simp add: checksum_bytes_def)
    with nc loop new t4 fl size None show ?thesis
      unfolding op_msg_parse_body_def by (simp add: msg_flags_parse_Ok [THEN iffD2])
  next
    case (Some w)
    then have nc: "flags_contain (msg_flags m) CHECKSUM_PRESENT" using ok by (simp add: op_msg_ok_def)
    have e: "length body = ?e + 4" using len Some by (simp add: checksum_bytes_def)
    with nc loop new t4 dr fl size Some show ?thesis
      unfolding op_msg_parse_body_def by (simp add: msg_flags_parse_Ok [THEN iffD2] checksum_bytes_def)
  qed
qed

lemma op_msg_parse_panic [simp, panic_free]: "op_msg_parse_body body \<noteq> Panic"
proof -
  have loop: "sections_loop body e 4 None [] \<noteq> Panic" if "4 < e" "e \<le> length body" for e
    using that by (rule sections_loop_panic)
  have size: "sections_size secs = e - 4"
    if "4 < e" "e \<le> length body" "sections_loop body e 4 None [] = Ok (Some d, qs)" "sections_new d qs = Ok secs" for e d qs secs
  proof -
    from that sections_loop_Ok [OF that(1,2), of d qs] have "region body 4 e = msg_sections_bytes secs"
      by (auto simp: msg_sections_bytes_def dest!: sections_new_Ok)
    from arg_cong [OF this, of length] that show ?thesis by simp
  qed
  have size8: "sections_size secs = length body - 8"
    if "\<not> length body < 10" "sections_loop body (length body - 4) 4 None [] = Ok (Some d, qs)" "sections_new d qs = Ok secs" for d qs secs
    using size [of "length body - 4" d qs secs] that by simp
  show ?thesis
    unfolding op_msg_parse_body_def
    using loop size size8
    by (auto simp: andthen_eq_Panic andthen_eq_Ok Let_def usub_def usub_eq_Ok slice_def debug_assert_def split: if_splits)
qed


lemma field_names_Ok:
  assumes "field_names_loop (raw_fields d) = Ok names" "0 \<notin> set (as_bytes key)"
  shows "raw_get d key = Ok None \<longleftrightarrow> as_bytes key \<notin> set names"
proof -
  from assms(1) obtain rs where rs: "list_all field_ok rs" "drop 4 d = fields_body rs @ [0]"
    "list_all2 (\<lambda>x y. (\<lambda>(name, v). Ok (as_bytes name) :: (bson_error, bytes) result) x = Ok y) rs names"
    unfolding raw_fields_def field_names_loop_scan using scan_loop_Ok [of _ "scanner_new d" names] by force
  have "raw_get d key = Ok (map_of rs key)"
    unfolding raw_get_def raw_fields_def using rs by (simp add: raw_get_loop_layout)
  moreover have "names = map (\<lambda>r. as_bytes (fst r)) rs"
    using rs(3) by (induction rs names rule: list_all2_induct) auto
  ultimately show ?thesis by (auto simp: map_of_eq_None_iff image_iff)
qed

lemma op_msg_ok_identifiers:
  assumes "op_msg_ok m" "q \<in> set (sec_sequences (msg_sections m))"
  shows "seq_identifier q \<noteq> [] \<and> raw_get (sec_body (msg_sections m)) (seq_identifier q) = Ok None"
proof -
  let ?qs = "sec_sequences (msg_sections m)" and ?d = "sec_body (msg_sections m)"
  have "?qs \<noteq> []" using assms(2) by auto
  with assms(1) obtain names where names: "field_names_loop (raw_fields ?d) = Ok names" "check_identifiers names ?qs = Ok ()"
    by (auto simp: op_msg_ok_def sections_new_def andthen_eq_Ok)
  with assms(2) have "seq_identifier q \<noteq> []" "0 \<notin> set (as_bytes (seq_identifier q))"
    "as_bytes (seq_identifier q) \<notin> set names"
    by (auto simp: check_identifiers_Ok list_all_iff)
  with field_names_Ok [OF names(1), of "seq_identifier q"] show ?thesis by simp
qed

text \<open>A freshly built message is one the wire can carry, given that its parts are.\<close>

lemma op_msg_new_ok:
  assumes "op_msg_new flags d qs = Ok m" "flags AND MSG_FLAGS_ALL = flags" "doc_ok d" "list_all seq_ok qs"
  shows "op_msg_ok m \<and> msg_checksum m = None \<and> sec_body (msg_sections m) = d \<and> sec_sequences (msg_sections m) = qs
    \<and> msg_flags m = flags AND NOT CHECKSUM_PRESENT"
proof -
  from assms(1) have m: "msg_flags m = flags AND NOT CHECKSUM_PRESENT" "msg_checksum m = None"
    and new: "sections_new d qs = Ok (msg_sections m)"
    by (auto simp: op_msg_new_def andthen_eq_Ok)
  have "(flags AND NOT CHECKSUM_PRESENT) AND MSG_FLAGS_ALL = (flags AND MSG_FLAGS_ALL) AND NOT CHECKSUM_PRESENT"
    by (simp only: ac_simps)
  moreover have "\<not> flags_contain (flags AND NOT CHECKSUM_PRESENT) CHECKSUM_PRESENT"
    by (simp add: flags_contain_def and.assoc)
  ultimately show ?thesis
    using assms m new sections_new_Ok [OF new] by (simp add: op_msg_ok_def)
qed

lemma op_msg_parse_bytes [simp, wire_simps]: "op_msg_ok m \<Longrightarrow> op_msg_parse_body (op_msg_bytes m) = Ok m"
  using flags_accept_known [of "msg_flags m"] by (auto simp: op_msg_parse_Ok op_msg_bytes_def op_msg_ok_def)

lemma op_msg_encode_bytes [simp, wire_simps]: "op_msg_ok m \<Longrightarrow> op_msg_encode_body m out = Ok (out @ op_msg_bytes m)"
  by (simp add: op_msg_encode_eq op_msg_ok_def)

interpretation msg: message op_msg_body_len op_msg_encode_body op_msg_parse_body op_msg_ok
proof
  fix m assume "op_msg_ok m"
  then show "\<exists>b. (\<forall>out. op_msg_encode_body m out = Ok (out @ b)) \<and> length b = op_msg_body_len m \<and> op_msg_parse_body b = Ok m"
    by (intro exI [of _ "op_msg_bytes m"]) (simp add: length_op_msg_bytes)
next
  fix b m assume "op_msg_parse_body b = Ok m"
  then show "op_msg_ok m \<and> length b = op_msg_body_len m"
    using length_op_msg_bytes [of m] by (auto simp: op_msg_parse_Ok op_msg_bytes_def)
qed simp

section \<open>Properties\<close>

text \<open>
  (C9) OP_MSG round trip: a message whose parts fit the wire encodes to exactly \<open>body_len\<close> bytes,
  appended to the buffer, and parsing those bytes gives the message back, with its flags, body,
  sequences in order and checksum.
\<close>

theorem op_msg_round_trip:
  assumes "op_msg_ok m"
  shows "\<exists>b. op_msg_encode_body m out = Ok (out @ b) \<and> length b = op_msg_body_len m \<and> op_msg_parse_body b = Ok m"
  using assms by (rule msg.round_trip)

lemma empty_doc_ok: "doc_ok [5, 0, 0, 0, 0]"
  by (simp add: doc_ok_def frame_ok_def eval_simps)

lemma sample_msg_ok:
  "op_msg_ok \<lparr>msg_flags = 2, msg_sections = \<lparr>sec_body = [5, 0, 0, 0, 0], sec_sequences = []\<rparr>, msg_checksum = None\<rparr>"
  by (simp add: op_msg_ok_def MSG_FLAGS_ALL_def flags_contain_def empty_doc_ok sections_new_def)

theorem op_msg_round_trip_witness:
  "let m = \<lparr>msg_flags = 2, msg_sections = \<lparr>sec_body = [5, 0, 0, 0, 0], sec_sequences = []\<rparr>, msg_checksum = None\<rparr>
   in \<exists>b. op_msg_encode_body m [7] = Ok ([7] @ b) \<and> length b = op_msg_body_len m \<and> op_msg_parse_body b = Ok m"
  unfolding Let_def by (rule op_msg_round_trip [OF sample_msg_ok])

text \<open>
  No OP_MSG body makes the parser panic: neither an index, a slice nor the \<open>debug_assert_eq!\<close> on
  the section sizes can fail, whatever the bytes.
\<close>

theorem op_msg_parse_never_panics: "op_msg_parse_body body \<noteq> Panic"
  by (rule msg.parse_no_panic)

text \<open>
  (C17) What a parsed OP_MSG guarantees: its flags hold known bits only, a checksum is present exactly
  when its flag is set, every sequence identifier is non-empty and names no top-level field of the
  body, and the sections with the checksum occupy the body exactly, so that encoding the message
  again reproduces every byte after the flag bits and parses to the same message.
\<close>

theorem op_msg_parse_faithful:
  assumes "op_msg_parse_body body = Ok m"
  shows "msg_flags m AND MSG_FLAGS_ALL = msg_flags m
    \<and> (msg_checksum m \<noteq> None) = flags_contain (msg_flags m) CHECKSUM_PRESENT
    \<and> (\<forall>q \<in> set (sec_sequences (msg_sections m)).
         seq_identifier q \<noteq> [] \<and> raw_get (sec_body (msg_sections m)) (seq_identifier q) = Ok None)
    \<and> length body = op_msg_body_len m
    \<and> (\<exists>b. op_msg_encode_body m [] = Ok b \<and> drop 4 b = drop 4 body \<and> op_msg_parse_body b = Ok m)"
proof -
  from assms obtain raw where ok: "op_msg_ok m"
    and body: "body = to_le32 raw @ msg_sections_bytes (msg_sections m) @ checksum_bytes (msg_checksum m)"
    by (auto simp: op_msg_parse_Ok)
  have "length body = op_msg_body_len m"
    using length_op_msg_bytes [of m] by (simp add: body op_msg_bytes_def)
  moreover have "op_msg_encode_body m [] = Ok (op_msg_bytes m)" "drop 4 (op_msg_bytes m) = drop 4 body"
    using ok by (simp_all add: body op_msg_bytes_def)
  moreover have "op_msg_parse_body (op_msg_bytes m) = Ok m" using ok by simp
  ultimately show ?thesis using ok op_msg_ok_identifiers [OF ok] by (auto simp: op_msg_ok_def)
qed

theorem op_msg_parse_faithful_witness:
  "let body = [2, 0, 0, 0, 0, 5, 0, 0, 0, 0];
       m = \<lparr>msg_flags = 2, msg_sections = \<lparr>sec_body = [5, 0, 0, 0, 0], sec_sequences = []\<rparr>, msg_checksum = None\<rparr>
   in msg_flags m AND MSG_FLAGS_ALL = msg_flags m
    \<and> (msg_checksum m \<noteq> None) = flags_contain (msg_flags m) CHECKSUM_PRESENT
    \<and> (\<forall>q \<in> set (sec_sequences (msg_sections m)).
         seq_identifier q \<noteq> [] \<and> raw_get (sec_body (msg_sections m)) (seq_identifier q) = Ok None)
    \<and> length body = op_msg_body_len m
    \<and> (\<exists>b. op_msg_encode_body m [] = Ok b \<and> drop 4 b = drop 4 body \<and> op_msg_parse_body b = Ok m)"
proof -
  let ?m = "\<lparr>msg_flags = 2, msg_sections = \<lparr>sec_body = [5, 0, 0, 0, 0], sec_sequences = []\<rparr>, msg_checksum = None\<rparr>"
  have "[2, 0, 0, 0, 0, 5, 0, 0, 0, 0] = to_le32 2 @ msg_sections_bytes (msg_sections ?m) @ checksum_bytes (msg_checksum ?m)"
    by (simp add: msg_sections_bytes_def checksum_bytes_def eval_simps)
  moreover have "flags_accept 2 (msg_flags ?m)" by (simp add: flags_accept_def MSG_FLAGS_ALL_def)
  ultimately have "op_msg_parse_body [2, 0, 0, 0, 0, 5, 0, 0, 0, 0] = Ok ?m"
    unfolding op_msg_parse_Ok using sample_msg_ok by blast
  from op_msg_parse_faithful [OF this] show ?thesis unfolding Let_def .
qed

text \<open>
  Flag bits follow the specification: parsing fails exactly when one of the bits 0 to 15 is set
  that is neither \<open>checksumPresent\<close> nor \<open>moreToCome\<close>; otherwise the result keeps bits 0, 1 and 16 as
  they are on the wire and clears every other bit.
\<close>

theorem msg_flags_parse_bits:
  "(if \<exists>n<16. bit raw n \<and> n \<noteq> 0 \<and> n \<noteq> 1
    then msg_flags_parse raw = Err (PE_InvalidOpMsg ''unknown required flag bits'')
    else \<exists>flags. msg_flags_parse raw = Ok flags \<and> (\<forall>n. bit flags n \<longleftrightarrow> bit raw n \<and> n \<in> {0, 1, 16}))"
proof -
  have eq: "MSG_FLAGS_ALL = 1 OR push_bit 1 1 OR push_bit 16 1" by (simp add: MSG_FLAGS_ALL_def push_bit_eq_mult)
  have all: "bit MSG_FLAGS_ALL n \<longleftrightarrow> n \<in> {0, 1, 16}" for n
    unfolding eq bit_or_iff bit_push_bit_iff bit_1_iff possible_bit_word by auto
  have mask: "(0x0000FFFF :: u32) = mask 16" by (simp add: mask_eq_exp_minus_1)
  have low: "bit (0x0000FFFF :: u32) n \<longleftrightarrow> n < 16" for n
    unfolding mask bit_mask_iff possible_bit_word by auto
  have nz: "w \<noteq> 0 \<longleftrightarrow> (\<exists>n. bit w n)" for w :: u32
    by (metis bit_0_eq bit_word_eqI bot_apply bot_bool_def)
  have "bit (raw AND 0x0000FFFF AND NOT MSG_FLAGS_ALL) n \<longleftrightarrow> n < 16 \<and> bit raw n \<and> n \<noteq> 0 \<and> n \<noteq> 1" for n
    unfolding bit_and_iff bit_not_iff low all possible_bit_word by auto
  then have "raw AND 0x0000FFFF AND NOT MSG_FLAGS_ALL \<noteq> 0 \<longleftrightarrow> (\<exists>n<16. bit raw n \<and> n \<noteq> 0 \<and> n \<noteq> 1)"
    unfolding nz by blast
  moreover have "bit (raw AND MSG_FLAGS_ALL) n \<longleftrightarrow> bit raw n \<and> n \<in> {0, 1, 16}" for n
    by (simp add: bit_and_iff all)
  moreover have "msg_flags_parse raw = (if raw AND 0x0000FFFF AND NOT MSG_FLAGS_ALL \<noteq> 0
      then Err (PE_InvalidOpMsg ''unknown required flag bits'') else Ok (raw AND MSG_FLAGS_ALL))"
    unfolding msg_flags_parse_def MSG_FLAGS_ALL_def Let_def ..
  ultimately show ?thesis by auto
qed


end
