(* ===== verification/Op_Query.thy ===== *)
theory Op_Query
  imports Op_Msg
begin

text \<open>
  OP_QUERY, the legacy handshake query (\<open>mongowire/src/messages/op_query.rs\<close>): flags, encoding,
  parsing over a cursor and the canonical handshake.
\<close>

section \<open>Model\<close>

text \<open>\<open>QueryFlags\<close>: bits 1 to 7.\<close>

definition QUERY_FLAGS_ALL :: i32 where
  "QUERY_FLAGS_ALL = 0x000000FE"

record op_query =
  query_flags :: i32
  full_collection_name :: string
  number_to_skip :: i32
  number_to_return :: i32
  query_doc :: raw_document
  return_fields_selector :: "raw_document option"

text \<open>\<open>take_document\<close>: \<open>r\<close> is the cursor over \<open>body\<close>; the document is sliced from \<open>body\<close>.\<close>

definition query_take_document :: "bytes \<Rightarrow> bytes \<Rightarrow> (protocol_error, raw_document \<times> bytes) result" where
  "query_take_document body r =
     andthen (usub (length body) (remaining r)) (\<lambda>start.
     andthen (map_err (\<lambda>_. PE_InvalidBody ''truncated document'') (peek_i32_le r)) (\<lambda>len.
     if sint len < int MIN_DOC_LEN \<or> i32_as_usize len > remaining r
     then Err (PE_InvalidBody ''invalid document length'')
     else andthen (slice body start (start + i32_as_usize len)) (\<lambda>b.
          andthen (map_err PE_Bson (from_bytes b)) (\<lambda>d.
          andthen (map_err (\<lambda>_. PE_InvalidBody ''truncated document'') (read_bytes (i32_as_usize len) r)) (\<lambda>(_, r).
          Ok (d, r))))))"

definition op_query_body_len :: "op_query \<Rightarrow> nat" where
  "op_query_body_len q =
     12 + length (as_bytes (full_collection_name q)) + 1 + length (query_doc q)
     + (case return_fields_selector q of None \<Rightarrow> 0 | Some d \<Rightarrow> length d)"

definition op_query_encode_body :: "op_query \<Rightarrow> bytes \<Rightarrow> (protocol_error, bytes) result" where
  "op_query_encode_body q out =
     debug_assert (0 \<notin> set (as_bytes (full_collection_name q)))
     (let out = put_i32_le (query_flags q) out;
          out = put_bytes (as_bytes (full_collection_name q)) out;
          out = put_u8 0 out;
          out = put_i32_le (number_to_skip q) out;
          out = put_i32_le (number_to_return q) out;
          out = put_bytes (query_doc q) out
      in Ok (case return_fields_selector q of Some d \<Rightarrow> put_bytes d out | None \<Rightarrow> out))"

definition op_query_parse_body :: "bytes \<Rightarrow> (protocol_error, op_query) result" where
  "op_query_parse_body body =
     andthen (pread (read_i32_le body)) (\<lambda>(raw, r).
     let flags = raw AND QUERY_FLAGS_ALL in
     andthen (pread (read_cstring r)) (\<lambda>(name, r).
     if name = [] then Err (PE_InvalidBody ''empty fullCollectionName'')
     else andthen (ok_or (PE_InvalidBody ''invalid UTF-8 in fullCollectionName'') (from_utf8 name)) (\<lambda>fcn.
     andthen (pread (read_i32_le r)) (\<lambda>(skip, r).
     andthen (pread (read_i32_le r)) (\<lambda>(ret, r).
     andthen (query_take_document body r) (\<lambda>(q, r).
     andthen (if r = [] then Ok (None, r)
              else andthen (query_take_document body r) (\<lambda>(d, r). Ok (Some d, r))) (\<lambda>(sel, r).
     if r \<noteq> [] then Err (PE_InvalidBody ''trailing bytes after returnFieldsSelector'')
     else Ok \<lparr>query_flags = flags, full_collection_name = fcn, number_to_skip = skip, number_to_return = ret,
              query_doc = q, return_fields_selector = sel\<rparr>)))))))"

text \<open>\<open>OpQuery::handshake\<close>; \<open>-1\<close> is the all-ones word.\<close>

definition op_query_handshake :: "raw_document \<Rightarrow> op_query" where
  "op_query_handshake request =
     \<lparr>query_flags = 0, full_collection_name = ''admin.$cmd'', number_to_skip = 0, number_to_return = -1,
      query_doc = request, return_fields_selector = None\<rparr>"

section \<open>One document off a cursor\<close>

lemma query_take_document_at:
  assumes "body = pre @ r"
  shows "query_take_document body r =
    andthen (map_err (\<lambda>_. PE_InvalidBody ''truncated document'') (peek_i32_le r)) (\<lambda>len.
    if sint len < int MIN_DOC_LEN \<or> i32_as_usize len > length r
    then Err (PE_InvalidBody ''invalid document length'')
    else andthen (map_err PE_Bson (from_bytes (take (i32_as_usize len) r))) (\<lambda>d. Ok (d, drop (i32_as_usize len) r)))"
proof -
  have "usub (length body) (length r) = (Ok (length pre) :: (protocol_error, nat) result)"
    using assms by simp
  moreover have "slice body (length pre) (length pre + n) = (Ok (take n r) :: (protocol_error, bytes) result)"
    if "n \<le> length r" for n
    using assms that by (simp add: slice_def)
  ultimately show ?thesis
    unfolding query_take_document_def remaining_def
    by (auto simp: read_bytes_def intro!: andthen_cong)
qed

lemma query_take_document_Ok:
  assumes "body = pre @ r"
  shows "query_take_document body r = Ok (d, r') \<longleftrightarrow> doc_ok d \<and> r = d @ r'"
proof
  assume "query_take_document body r = Ok (d, r')"
  then obtain len where len: "5 \<le> sint len" "i32_as_usize len \<le> length r"
    and d: "d = take (i32_as_usize len) r" "frame_ok d" "r' = drop (i32_as_usize len) r"
    unfolding query_take_document_at [OF assms]
    by (auto simp: andthen_eq_Ok from_bytes_Ok not_less split: if_splits)
  from sint_ge_unat32 [of 5 len] len have "length d \<le> 2147483647" by (simp add: d)
  with d show "doc_ok d \<and> r = d @ r'" by (simp add: doc_ok_def)
next
  assume a: "doc_ok d \<and> r = d @ r'"
  then have f: "frame_ok d" "length d \<le> 2147483647" "5 \<le> length d" using frame_ok_length [of d] by (auto simp: doc_ok_def)
  define len where "len = from_le32 (take 4 d)"
  have "peek_i32_le r = Ok len" using a f by (simp add: peek_i32_le_eq len_def)
  moreover have "unat len = length d" using f by (simp add: len_def frame_ok_def)
  moreover from this have "sint len = int (length d)" "i32_as_usize len = length d"
    using sint_of_unat32 [of len] f by simp_all
  moreover have "from_bytes d = Ok d" using f by (simp add: from_bytes_Ok)
  ultimately show "query_take_document body r = Ok (d, r')"
    unfolding query_take_document_at [OF assms] using a f by simp
qed

lemma query_take_document_panic:
  assumes "body = pre @ r"
  shows "query_take_document body r \<noteq> Panic"
  unfolding query_take_document_at [OF assms] by (auto simp: andthen_eq_Panic)

section \<open>Properties\<close>

definition op_query_ok :: "op_query \<Rightarrow> bool" where
  "op_query_ok q \<longleftrightarrow> query_flags q AND QUERY_FLAGS_ALL = query_flags q
     \<and> full_collection_name q \<noteq> [] \<and> wf_str (full_collection_name q) \<and> 0 \<notin> set (as_bytes (full_collection_name q))
     \<and> doc_ok (query_doc q) \<and> pred_option doc_ok (return_fields_selector q)"

definition op_query_bytes :: "i32 \<Rightarrow> op_query \<Rightarrow> bytes" where
  "op_query_bytes raw q = to_le32 raw @ as_bytes (full_collection_name q) @ [0] @ to_le32 (number_to_skip q)
     @ to_le32 (number_to_return q) @ query_doc q
     @ (case return_fields_selector q of Some d \<Rightarrow> d | None \<Rightarrow> [])"

lemma op_query_encode_eq:
  "0 \<notin> set (as_bytes (full_collection_name q)) \<Longrightarrow>
     op_query_encode_body q out = Ok (out @ op_query_bytes (query_flags q) q)"
  by (simp add: op_query_encode_body_def op_query_bytes_def put_defs Let_def split: option.splits)

lemma op_query_parse_layout:
  assumes ok: "op_query_ok q" and raw: "raw AND QUERY_FLAGS_ALL = query_flags q"
  shows "op_query_parse_body (op_query_bytes raw q) = Ok q"
proof -
  let ?b = "op_query_bytes raw q"
  let ?sel = "case return_fields_selector q of Some d \<Rightarrow> d | None \<Rightarrow> []"
  let ?pre = "to_le32 raw @ as_bytes (full_collection_name q) @ [0] @ to_le32 (number_to_skip q) @ to_le32 (number_to_return q)"
  have b: "?b = ?pre @ (query_doc q @ ?sel)" by (simp add: op_query_bytes_def)
  have d1: "query_take_document ?b (query_doc q @ ?sel) = Ok (query_doc q, ?sel)"
    using ok by (simp add: query_take_document_Ok [OF b] op_query_ok_def)
  have d2: "query_take_document ?b d = Ok (d, [])" if "return_fields_selector q = Some d" for d
  proof -
    have "?b = (?pre @ query_doc q) @ d" using that by (simp add: op_query_bytes_def)
    from query_take_document_Ok [OF this, of d "[]"] ok that show ?thesis by (simp add: op_query_ok_def)
  qed
  have ne: "d \<noteq> []" if "return_fields_selector q = Some d" for d
    using ok that frame_ok_length [of d] by (auto simp: op_query_ok_def doc_ok_def)
  have "op_query_parse_body ?b = andthen (query_take_document ?b (query_doc q @ ?sel)) (\<lambda>(d, r).
     andthen (if r = [] then Ok (None, r)
              else andthen (query_take_document ?b r) (\<lambda>(d, r). Ok (Some d, r))) (\<lambda>(sel, r).
     if r \<noteq> [] then Err (PE_InvalidBody ''trailing bytes after returnFieldsSelector'')
     else Ok \<lparr>query_flags = query_flags q, full_collection_name = full_collection_name q,
              number_to_skip = number_to_skip q, number_to_return = number_to_return q,
              query_doc = d, return_fields_selector = sel\<rparr>))"
    unfolding op_query_parse_body_def using ok raw
    by (subst (1) op_query_bytes_def) (simp add: op_query_ok_def cong: if_cong)
  with d1 d2 ne show ?thesis by (cases "return_fields_selector q") simp_all
qed

lemma op_query_parse_Ok:
  assumes "op_query_parse_body body = Ok q"
  shows "op_query_ok q \<and> (\<exists>raw. query_flags q = raw AND QUERY_FLAGS_ALL \<and> body = op_query_bytes raw q)"
proof -
  from assms obtain raw name r1 r2 d s s' where body: "body = to_le32 raw @ name @ 0 # r1" and nn: "0 \<notin> set name" "name \<noteq> []"
    and fcn: "from_utf8 name = Some (full_collection_name q)"
    and r1: "r1 = to_le32 (number_to_skip q) @ to_le32 (number_to_return q) @ r2"
    and d: "query_take_document body r2 = Ok (query_doc q, s)"
    and sel: "(if s = [] then Ok (None, s) else andthen (query_take_document body s) (\<lambda>(d, r). Ok (Some d, r)))
        = Ok (return_fields_selector q, s')" and s': "s' = []"
    and fl: "query_flags q = raw AND QUERY_FLAGS_ALL"
    by (auto simp: op_query_parse_body_def andthen_eq_Ok Let_def read_field_Ok read_cstring_Ok split: if_splits) 
  have pre: "body = (to_le32 raw @ name @ [0] @ to_le32 (number_to_skip q) @ to_le32 (number_to_return q)) @ r2"
    by (simp add: body r1)
  from query_take_document_Ok [OF pre, of "query_doc q" s] d have q: "doc_ok (query_doc q)" "r2 = query_doc q @ s" by auto
  have pre2: "body = ((to_le32 raw @ name @ [0] @ to_le32 (number_to_skip q) @ to_le32 (number_to_return q)) @ query_doc q) @ s"
    by (simp add: pre q)
  have s: "s = (case return_fields_selector q of Some d \<Rightarrow> d | None \<Rightarrow> []) \<and> pred_option doc_ok (return_fields_selector q)"
    using sel s' query_take_document_Ok [OF pre2]
    by (cases "return_fields_selector q") (auto simp: andthen_eq_Ok split: if_splits)
  have "op_query_ok q"
    using fl nn from_utf8_Some_wf [OF fcn] q s by (auto simp: op_query_ok_def ac_simps)
  moreover have "body = op_query_bytes raw q"
    using from_utf8_Some_wf [OF fcn] s q by (simp add: op_query_bytes_def body r1)
  ultimately show ?thesis using fl by blast
qed

lemma op_query_parse_panic [simp, panic_free]: "op_query_parse_body body \<noteq> Panic"
proof -
  have "query_take_document body r \<noteq> Panic" "query_take_document body r = Ok (d, s) \<Longrightarrow> query_take_document body s \<noteq> Panic"
    if "body = to_le32 raw @ name @ 0 # to_le32 a @ to_le32 b @ r" for raw name a b r d s
  proof -
    from that have pre: "body = (to_le32 raw @ name @ [0] @ to_le32 a @ to_le32 b) @ r" by simp
    from query_take_document_panic [OF pre] show "query_take_document body r \<noteq> Panic" .
    assume "query_take_document body r = Ok (d, s)"
    with query_take_document_Ok [OF pre] have "body = (to_le32 raw @ name @ [0] @ to_le32 a @ to_le32 b @ d) @ s"
      using pre by simp
    then show "query_take_document body s \<noteq> Panic" by (rule query_take_document_panic)
  qed
  then show ?thesis
    by (auto simp: op_query_parse_body_def andthen_eq_Panic andthen_eq_Ok Let_def read_field_Ok read_cstring_Ok split: if_splits)
qed

lemma length_op_query_bytes: "length (op_query_bytes raw q) = op_query_body_len q"
  by (simp add: op_query_bytes_def op_query_body_len_def split: option.splits)

interpretation query: message op_query_body_len op_query_encode_body op_query_parse_body op_query_ok
proof
  fix q assume "op_query_ok q"
  then show "\<exists>b. (\<forall>out. op_query_encode_body q out = Ok (out @ b)) \<and> length b = op_query_body_len q \<and> op_query_parse_body b = Ok q"
    by (intro exI [of _ "op_query_bytes (query_flags q) q"])
      (simp add: op_query_encode_eq op_query_parse_layout length_op_query_bytes op_query_ok_def)
next
  fix b q assume "op_query_parse_body b = Ok q"
  then show "op_query_ok q \<and> length b = op_query_body_len q"
    using op_query_parse_Ok [of b q] length_op_query_bytes [of _ q] by auto
qed simp

section \<open>Properties of OP_QUERY\<close>

lemma op_query_handshake_ok: "doc_ok d \<Longrightarrow> op_query_ok (op_query_handshake d)"
  by (simp add: op_query_ok_def op_query_handshake_def eval_simps)

text \<open>
  OP_QUERY round trip: a query whose collection name is non-empty and free of NUL bytes and whose
  documents are framed encodes to exactly \<open>body_len\<close> bytes, appended to the buffer, and parsing
  those bytes gives the query back, with or without a field selector.
\<close>

theorem op_query_round_trip:
  assumes "op_query_ok q"
  shows "\<exists>b. op_query_encode_body q out = Ok (out @ b) \<and> length b = op_query_body_len q \<and> op_query_parse_body b = Ok q"
  using assms by (rule query.round_trip)

theorem op_query_round_trip_witness:
  "let q = op_query_handshake [5, 0, 0, 0, 0]
   in \<exists>b. op_query_encode_body q [7] = Ok ([7] @ b) \<and> length b = op_query_body_len q \<and> op_query_parse_body b = Ok q"
  unfolding Let_def by (rule op_query_round_trip [OF op_query_handshake_ok [OF empty_doc_ok]])

text \<open>
  A parsed OP_QUERY accounts for every byte of the body: unknown flag bits are dropped, the
  collection name is non-empty and without NUL, both documents are framed BSON documents, and
  encoding the query again reproduces every byte after the flags and parses to the same query.
\<close>

theorem op_query_parse_faithful:
  assumes "op_query_parse_body body = Ok q"
  shows "query_flags q AND QUERY_FLAGS_ALL = query_flags q
    \<and> full_collection_name q \<noteq> [] \<and> 0 \<notin> set (as_bytes (full_collection_name q))
    \<and> frame_ok (query_doc q) \<and> pred_option frame_ok (return_fields_selector q)
    \<and> length body = op_query_body_len q
    \<and> (\<exists>b. op_query_encode_body q [] = Ok b \<and> drop 4 b = drop 4 body \<and> op_query_parse_body b = Ok q)"
proof -
  from op_query_parse_Ok [OF assms] obtain raw where ok: "op_query_ok q" and body: "body = op_query_bytes raw q" by blast
  have "op_query_encode_body q [] = Ok (op_query_bytes (query_flags q) q)"
    using ok by (simp add: op_query_encode_eq op_query_ok_def)
  moreover have "drop 4 (op_query_bytes (query_flags q) q) = drop 4 body" by (simp add: body op_query_bytes_def)
  moreover have "op_query_parse_body (op_query_bytes (query_flags q) q) = Ok q"
    using ok by (simp add: op_query_parse_layout op_query_ok_def)
  moreover have "pred_option frame_ok (return_fields_selector q)"
    using ok by (cases "return_fields_selector q") (simp_all add: op_query_ok_def doc_ok_def)
  ultimately show ?thesis using ok by (simp add: op_query_ok_def doc_ok_def body length_op_query_bytes)
qed

theorem op_query_parse_faithful_witness:
  "\<exists>body. let q = op_query_handshake [5, 0, 0, 0, 0] in
    op_query_parse_body body = Ok q \<and> length body = 28
    \<and> (\<exists>b. op_query_encode_body q [] = Ok b \<and> drop 4 b = drop 4 body \<and> op_query_parse_body b = Ok q)"
proof -
  let ?q = "op_query_handshake [5, 0, 0, 0, 0]"
  have p: "op_query_parse_body (op_query_bytes 0x100 ?q) = Ok ?q"
    using op_query_handshake_ok [OF empty_doc_ok]
    by (intro op_query_parse_layout) (simp_all add: QUERY_FLAGS_ALL_def op_query_handshake_def)
  from op_query_parse_faithful [OF p] have "length (op_query_bytes 0x100 ?q) = 28"
    by (simp add: op_query_body_len_def op_query_handshake_def eval_simps)
  with op_query_parse_faithful [OF p] p show ?thesis unfolding Let_def by blast
qed

end
