(* ===== verification/Op_Reply.thy ===== *)
theory Op_Reply
  imports Op_Query
begin

text \<open>
  OP_REPLY, the legacy reply (\<open>mongowire/src/messages/op_reply.rs\<close>): flags, encoding and parsing of
  the counted documents over a cursor.
\<close>

section \<open>Model\<close>

text \<open>\<open>ReplyFlags\<close>: bits 0 to 3.\<close>

definition REPLY_FLAGS_ALL :: i32 where
  "REPLY_FLAGS_ALL = 0x0000000F"

record op_reply =
  response_flags :: i32
  cursor_id :: i64
  starting_from :: i32
  number_returned :: i32
  documents :: "raw_document list"

text \<open>\<open>take_document\<close>: the file has its own copy of the routine of \<open>op_query.rs\<close>.\<close>

definition reply_take_document :: "bytes \<Rightarrow> bytes \<Rightarrow> (protocol_error, raw_document \<times> bytes) result" where
  "reply_take_document body r =
     andthen (usub (length body) (remaining r)) (\<lambda>start.
     andthen (map_err (\<lambda>_. PE_InvalidBody ''truncated document'') (peek_i32_le r)) (\<lambda>len.
     if sint len < int MIN_DOC_LEN \<or> i32_as_usize len > remaining r
     then Err (PE_InvalidBody ''invalid document length'')
     else andthen (slice body start (start + i32_as_usize len)) (\<lambda>b.
          andthen (map_err PE_Bson (from_bytes b)) (\<lambda>doc.
          andthen (map_err (\<lambda>_. PE_InvalidBody ''truncated document'') (read_bytes (i32_as_usize len) r)) (\<lambda>(_, r).
          Ok (doc, r))))))"

definition op_reply_body_len :: "op_reply \<Rightarrow> nat" where
  "op_reply_body_len m = 20 + sum_list (map length (documents m))"

text \<open>\<open>encode_body\<close>: \<open>documents.len() as i32\<close> truncates; the count goes out, not \<open>number_returned\<close>.\<close>

definition op_reply_encode_body :: "op_reply \<Rightarrow> bytes \<Rightarrow> (protocol_error, bytes) result" where
  "op_reply_encode_body m out =
     debug_assert (number_returned m = of_nat (length (documents m)))
     (let out = put_i32_le (response_flags m) out;
          out = put_i64_le (cursor_id m) out;
          out = put_i32_le (starting_from m) out;
          out = put_i32_le (of_nat (length (documents m))) out
      in Ok (fold put_bytes (documents m) out))"

text \<open>\<open>for _ in 0..number_returned\<close>.\<close>

fun reply_documents_loop ::
    "bytes \<Rightarrow> nat \<Rightarrow> raw_document list \<Rightarrow> bytes \<Rightarrow> (protocol_error, raw_document list \<times> bytes) result" where
  "reply_documents_loop body 0 docs r = Ok (docs, r)"
| "reply_documents_loop body (Suc n) docs r =
     andthen (reply_take_document body r) (\<lambda>(doc, r). reply_documents_loop body n (docs @ [doc]) r)"

definition op_reply_parse_body :: "bytes \<Rightarrow> (protocol_error, op_reply) result" where
  "op_reply_parse_body body =
     andthen (pread (read_i32_le body)) (\<lambda>(raw, r).
     let flags = raw AND REPLY_FLAGS_ALL in
     andthen (pread (read_i64_le r)) (\<lambda>(cursor, r).
     andthen (pread (read_i32_le r)) (\<lambda>(starting, r).
     andthen (pread (read_i32_le r)) (\<lambda>(number, r).
     if sint number < 0 then Err (PE_InvalidBody ''negative numberReturned'')
     else if i32_as_usize number > remaining r div MIN_DOC_LEN
     then Err (PE_InvalidBody ''numberReturned exceeds the body size'')
     else andthen (reply_documents_loop body (i32_as_usize number) [] r) (\<lambda>(docs, r).
     if r \<noteq> [] then Err (PE_InvalidBody ''trailing bytes after the documents'')
     else Ok \<lparr>response_flags = flags, cursor_id = cursor, starting_from = starting, number_returned = number,
              documents = docs\<rparr>)))))"

section \<open>Lemmas\<close>

lemma reply_take_document_eq: "reply_take_document = query_take_document"
  by (intro ext) (simp add: reply_take_document_def query_take_document_def)

lemma reply_documents_loop_Ok:
  assumes "body = pre @ r"
  shows "reply_documents_loop body n docs r = Ok (docs', r') \<longleftrightarrow>
    (\<exists>ds. docs' = docs @ ds \<and> length ds = n \<and> r = concat ds @ r' \<and> list_all doc_ok ds)"
  using assms
proof (induction n arbitrary: pre r docs)
  case (Suc n)
  have step: "reply_documents_loop body n (docs @ [d]) s = Ok (docs', r') \<longleftrightarrow>
      (\<exists>ds. docs' = docs @ d # ds \<and> length ds = n \<and> s = concat ds @ r' \<and> list_all doc_ok ds)"
    if "r = d @ s" for d s
    using Suc.IH [of "pre @ d" s "docs @ [d]"] Suc.prems that by simp
  have "reply_documents_loop body (Suc n) docs r = Ok (docs', r') \<longleftrightarrow>
      (\<exists>d s. doc_ok d \<and> r = d @ s \<and> reply_documents_loop body n (docs @ [d]) s = Ok (docs', r'))"
    by (auto simp: andthen_eq_Ok reply_take_document_eq query_take_document_Ok [OF Suc.prems])
  also have "\<dots> \<longleftrightarrow> (\<exists>ds. docs' = docs @ ds \<and> length ds = Suc n \<and> r = concat ds @ r' \<and> list_all doc_ok ds)"
  proof
    assume "\<exists>d s. doc_ok d \<and> r = d @ s \<and> reply_documents_loop body n (docs @ [d]) s = Ok (docs', r')"
    then obtain d s ds where "doc_ok d" "r = d @ s" "docs' = docs @ d # ds" "length ds = n" "s = concat ds @ r'" "list_all doc_ok ds"
      using step by blast
    then show "\<exists>ds. docs' = docs @ ds \<and> length ds = Suc n \<and> r = concat ds @ r' \<and> list_all doc_ok ds"
      by (intro exI [of _ "d # ds"]) simp
  next
    assume "\<exists>ds. docs' = docs @ ds \<and> length ds = Suc n \<and> r = concat ds @ r' \<and> list_all doc_ok ds"
    then obtain d ds where "docs' = docs @ d # ds" "length ds = n" "r = d @ concat ds @ r'" "list_all doc_ok (d # ds)"
      by (auto simp: length_Suc_conv)
    then show "\<exists>d s. doc_ok d \<and> r = d @ s \<and> reply_documents_loop body n (docs @ [d]) s = Ok (docs', r')"
      using step [of d "concat ds @ r'"] by (intro exI [of _ d] exI [of _ "concat ds @ r'"]) simp
  qed
  finally show ?case .
qed auto

lemma reply_documents_loop_panic:
  assumes "body = pre @ r"
  shows "reply_documents_loop body n docs r \<noteq> Panic"
  using assms
proof (induction n arbitrary: pre r docs)
  case (Suc n)
  have "reply_documents_loop body n (docs @ [d]) s \<noteq> Panic" if "reply_take_document body r = Ok (d, s)" for d s
  proof -
    from that have "r = d @ s" by (simp add: reply_take_document_eq query_take_document_Ok [OF Suc.prems])
    with Suc.IH [of "pre @ d" s] Suc.prems show ?thesis by simp
  qed
  then show ?case
    using query_take_document_panic [OF Suc.prems] by (auto simp: andthen_eq_Panic reply_take_document_eq)
qed simp

lemma fold_put_bytes: "fold put_bytes ds out = out @ concat ds"
  by (induction ds arbitrary: out) (simp_all add: put_defs)

definition op_reply_ok :: "op_reply \<Rightarrow> bool" where
  "op_reply_ok m \<longleftrightarrow> response_flags m AND REPLY_FLAGS_ALL = response_flags m
     \<and> list_all doc_ok (documents m) \<and> sint (number_returned m) = int (length (documents m))"

definition op_reply_bytes :: "i32 \<Rightarrow> op_reply \<Rightarrow> bytes" where
  "op_reply_bytes raw m = to_le32 raw @ to_le64 (cursor_id m) @ to_le32 (starting_from m)
     @ to_le32 (number_returned m) @ concat (documents m)"

lemma number_returned_of_nat: "sint (n :: i32) = int k \<Longrightarrow> n = of_nat k \<and> i32_as_usize n = k"
proof -
  assume a: "sint n = int k"
  then have "int (unat n) = int k" using sint_nonneg_unat32 [of n] by linarith
  then have "unat n = k" by (simp only: of_nat_eq_iff)
  moreover from this have "n = of_nat k" by auto
  ultimately show ?thesis using a sint_ge_unat32 [of 0 n] by simp
qed

lemma doc_ok_concat_length: "list_all doc_ok ds \<Longrightarrow> 5 * length ds \<le> length (concat ds)"
  by (induction ds) (auto simp: doc_ok_def dest: frame_ok_length)

lemma op_reply_encode_eq:
  "number_returned m = of_nat (length (documents m)) \<Longrightarrow>
     op_reply_encode_body m out = Ok (out @ op_reply_bytes (response_flags m) m)"
  by (simp add: op_reply_encode_body_def op_reply_bytes_def put_defs fold_put_bytes Let_def)

lemma length_op_reply_bytes: "length (op_reply_bytes raw m) = op_reply_body_len m"
  by (simp add: op_reply_bytes_def op_reply_body_len_def length_concat)

lemma op_reply_parse_layout:
  assumes ok: "op_reply_ok m" and raw: "raw AND REPLY_FLAGS_ALL = response_flags m"
  shows "op_reply_parse_body (op_reply_bytes raw m) = Ok m"
proof -
  let ?b = "op_reply_bytes raw m" and ?n = "number_returned m"
  have n: "i32_as_usize ?n = length (documents m)" "0 \<le> sint ?n"
    using ok number_returned_of_nat [of ?n "length (documents m)"] by (auto simp: op_reply_ok_def)
  have fit: "length (documents m) \<le> length (concat (documents m)) div 5"
    using doc_ok_concat_length [of "documents m"] ok by (simp add: op_reply_ok_def)
  have b: "?b = (to_le32 raw @ to_le64 (cursor_id m) @ to_le32 (starting_from m) @ to_le32 ?n) @ concat (documents m)"
    by (simp add: op_reply_bytes_def)
  have loop: "reply_documents_loop ?b (length (documents m)) [] (concat (documents m)) = Ok (documents m, [])"
    using ok by (simp add: reply_documents_loop_Ok [OF b] op_reply_ok_def)
  have "op_reply_parse_body ?b = andthen (reply_documents_loop ?b (length (documents m)) [] (concat (documents m))) (\<lambda>(docs, r).
     if r \<noteq> [] then Err (PE_InvalidBody ''trailing bytes after the documents'')
     else Ok \<lparr>response_flags = response_flags m, cursor_id = cursor_id m, starting_from = starting_from m,
              number_returned = ?n, documents = docs\<rparr>)"
    unfolding op_reply_parse_body_def using raw n fit
    by (subst (1) op_reply_bytes_def) (simp add: not_less remaining_def cong: if_cong)
  with loop show ?thesis by simp
qed

lemma op_reply_parse_Ok:
  assumes "op_reply_parse_body body = Ok m"
  shows "op_reply_ok m \<and> (\<exists>raw. response_flags m = raw AND REPLY_FLAGS_ALL \<and> body = op_reply_bytes raw m)"
proof -
  let ?n = "number_returned m"
  from assms obtain raw r where b: "body = (to_le32 raw @ to_le64 (cursor_id m) @ to_le32 (starting_from m) @ to_le32 ?n) @ r"
    and nn: "0 \<le> sint ?n" and loop: "reply_documents_loop body (i32_as_usize ?n) [] r = Ok (documents m, [])"
    and fl: "response_flags m = raw AND REPLY_FLAGS_ALL"
    by (auto simp: op_reply_parse_body_def andthen_eq_Ok Let_def read_field_Ok not_less split: if_splits)
  from loop have d: "length (documents m) = i32_as_usize ?n" "r = concat (documents m)" "list_all doc_ok (documents m)"
    by (auto simp: reply_documents_loop_Ok [OF b])
  have "sint ?n = int (i32_as_usize ?n)" using nn sint_nonneg_unat32 [of ?n] sint_ge_unat32 [of 0 ?n] by simp
  with d fl have "op_reply_ok m" by (simp add: op_reply_ok_def ac_simps)
  moreover have "body = op_reply_bytes raw m" using b d by (simp add: op_reply_bytes_def)
  ultimately show ?thesis using fl by blast
qed

lemma op_reply_parse_panic [simp, panic_free]: "op_reply_parse_body body \<noteq> Panic"
proof -
  have "reply_documents_loop body k [] r \<noteq> Panic"
    if "body = to_le32 a @ to_le64 b @ to_le32 c @ to_le32 d @ r" for a b c d r k
    using that reply_documents_loop_panic [of body "to_le32 a @ to_le64 b @ to_le32 c @ to_le32 d" r] by simp
  then show ?thesis
    by (auto simp: op_reply_parse_body_def andthen_eq_Panic andthen_eq_Ok Let_def read_field_Ok split: if_splits)
qed

interpretation reply: message op_reply_body_len op_reply_encode_body op_reply_parse_body op_reply_ok
proof
  fix m assume ok: "op_reply_ok m"
  then have "number_returned m = of_nat (length (documents m))" "response_flags m AND REPLY_FLAGS_ALL = response_flags m"
    using number_returned_of_nat by (auto simp: op_reply_ok_def)
  with ok show "\<exists>b. (\<forall>out. op_reply_encode_body m out = Ok (out @ b)) \<and> length b = op_reply_body_len m \<and> op_reply_parse_body b = Ok m"
    by (intro exI [of _ "op_reply_bytes (response_flags m) m"])
      (simp add: op_reply_encode_eq op_reply_parse_layout length_op_reply_bytes)
next
  fix b m assume "op_reply_parse_body b = Ok m"
  then show "op_reply_ok m \<and> length b = op_reply_body_len m"
    using op_reply_parse_Ok [of b m] length_op_reply_bytes [of _ m] by auto
qed simp

section \<open>Properties\<close>

text \<open>
  OP_REPLY round trip: a reply whose count is the number of its documents encodes to exactly
  \<open>body_len\<close> bytes, appended to the buffer, and parsing those bytes gives the reply back.
\<close>

theorem op_reply_round_trip:
  assumes "op_reply_ok m"
  shows "\<exists>b. op_reply_encode_body m out = Ok (out @ b) \<and> length b = op_reply_body_len m \<and> op_reply_parse_body b = Ok m"
  using assms by (rule reply.round_trip)

lemma sample_reply_ok:
  "op_reply_ok \<lparr>response_flags = 8, cursor_id = -1, starting_from = 3, number_returned = 2,
     documents = [[5, 0, 0, 0, 0], [5, 0, 0, 0, 0]]\<rparr>"
  by (simp add: op_reply_ok_def REPLY_FLAGS_ALL_def empty_doc_ok)

theorem op_reply_round_trip_witness:
  "let m = \<lparr>response_flags = 8, cursor_id = -1, starting_from = 3, number_returned = 2,
            documents = [[5, 0, 0, 0, 0], [5, 0, 0, 0, 0]]\<rparr>
   in \<exists>b. op_reply_encode_body m [7] = Ok ([7] @ b) \<and> length b = op_reply_body_len m \<and> op_reply_parse_body b = Ok m"
  unfolding Let_def by (rule op_reply_round_trip [OF sample_reply_ok])

text \<open>
  A parsed OP_REPLY holds exactly \<open>number_returned\<close> documents, each a framed BSON document, that
  together with the 20 fixed bytes account for every byte of the body; the count can therefore never
  exceed a fifth of the body, which bounds the allocation made before the documents are read.
\<close>

theorem op_reply_parse_faithful:
  assumes "op_reply_parse_body body = Ok m"
  shows "sint (number_returned m) = int (length (documents m))
    \<and> list_all frame_ok (documents m)
    \<and> drop 20 body = concat (documents m) \<and> 5 * length (documents m) + 20 \<le> length body
    \<and> (\<exists>b. op_reply_encode_body m [] = Ok b \<and> drop 4 b = drop 4 body \<and> op_reply_parse_body b = Ok m)"
proof -
  from op_reply_parse_Ok [OF assms] obtain raw where ok: "op_reply_ok m" and body: "body = op_reply_bytes raw m" by blast
  then have s: "sint (number_returned m) = int (length (documents m))" and docs: "list_all doc_ok (documents m)"
    and fl: "response_flags m AND REPLY_FLAGS_ALL = response_flags m" by (simp_all add: op_reply_ok_def)
  have "op_reply_encode_body m [] = Ok (op_reply_bytes (response_flags m) m)"
    using number_returned_of_nat [OF s] by (simp add: op_reply_encode_eq)
  moreover have "drop 4 (op_reply_bytes (response_flags m) m) = drop 4 body" by (simp add: body op_reply_bytes_def)
  moreover have "op_reply_parse_body (op_reply_bytes (response_flags m) m) = Ok m"
    using ok fl by (rule op_reply_parse_layout)
  moreover have "list_all frame_ok (documents m)" using docs by (auto simp: doc_ok_def list_all_iff)
  ultimately show ?thesis
    using s doc_ok_concat_length [OF docs] by (simp add: body op_reply_bytes_def)
qed

theorem op_reply_parse_faithful_witness:
  "\<exists>body. let m = \<lparr>response_flags = 8, cursor_id = -1, starting_from = 3, number_returned = 2,
                   documents = [[5, 0, 0, 0, 0], [5, 0, 0, 0, 0]]\<rparr> in
     op_reply_parse_body body = Ok m \<and> drop 20 body = [5, 0, 0, 0, 0, 5, 0, 0, 0, 0]
     \<and> (\<exists>b. op_reply_encode_body m [] = Ok b \<and> drop 4 b = drop 4 body \<and> op_reply_parse_body b = Ok m)"
proof -
  let ?m = "\<lparr>response_flags = 8, cursor_id = -1, starting_from = 3, number_returned = 2,
              documents = [[5, 0, 0, 0, 0], [5, 0, 0, 0, 0]]\<rparr>"
  have p: "op_reply_parse_body (op_reply_bytes 0x18 ?m) = Ok ?m"
    using sample_reply_ok by (rule op_reply_parse_layout) (simp add: REPLY_FLAGS_ALL_def)
  from op_reply_parse_faithful [OF p] have "drop 20 (op_reply_bytes 0x18 ?m) = [5, 0, 0, 0, 0, 5, 0, 0, 0, 0]" by simp
  with op_reply_parse_faithful [OF p] p show ?thesis unfolding Let_def by blast
qed

end
