(* ===== verification/Compression.thy ===== *)
theory Compression
  imports Op_Reply
begin

text \<open>
  Pluggable compression (\<open>mongowire/src/compression\<close>): compressor ids and names, and the dispatch over
  the codecs.  The snappy, zlib and zstd crates are a parameter of the model, the record \<open>codecs\<close>.
\<close>

section \<open>Model\<close>

text \<open>
  The third-party codecs and the build's feature flags.  \<open>snap_frame_encode\<close> and \<open>zlib_encode\<close> are a
  \<open>write_all\<close> (with \<open>finish\<close>) of the whole input: the error text or the stream.  \<open>snap_frame_decode\<close>
  and \<open>zlib_decode\<close> are readers: the bytes the reader delivers and the error, if any, it then raises
  instead of the end of the stream.  \<open>zstd_bulk_compress\<close> and \<open>zstd_bulk_decompress\<close> take the level and
  the capacity.
\<close>

record codecs =
  feature_snappy :: bool
  feature_zlib :: bool
  feature_zstd :: bool
  snap_frame_encode :: "bytes \<Rightarrow> string + bytes"
  snap_frame_decode :: "bytes \<Rightarrow> bytes \<times> string option"
  zlib_encode :: "bytes \<Rightarrow> string + bytes"
  zlib_decode :: "bytes \<Rightarrow> bytes \<times> string option"
  zstd_bulk_compress :: "bytes \<Rightarrow> int \<Rightarrow> string + bytes"
  zstd_bulk_decompress :: "bytes \<Rightarrow> nat \<Rightarrow> string + bytes"

datatype compressor_id = Noop | Snappy | Zlib | Zstd

fun compressor_to_u8 :: "compressor_id \<Rightarrow> u8" where
  "compressor_to_u8 Noop = 0"
| "compressor_to_u8 Snappy = 1"
| "compressor_to_u8 Zlib = 2"
| "compressor_to_u8 Zstd = 3"

definition compressor_from_u8 :: "u8 \<Rightarrow> compressor_id option" where
  "compressor_from_u8 v =
     (if v = 0 then Some Noop
      else if v = 1 then Some Snappy
      else if v = 2 then Some Zlib
      else if v = 3 then Some Zstd
      else None)"

fun compressor_name :: "compressor_id \<Rightarrow> string" where
  "compressor_name Noop = ''noop''"
| "compressor_name Snappy = ''snappy''"
| "compressor_name Zlib = ''zlib''"
| "compressor_name Zstd = ''zstd''"

definition compressor_from_name :: "string \<Rightarrow> compressor_id option" where
  "compressor_from_name n =
     (if n = ''noop'' then Some Noop
      else if n = ''snappy'' then Some Snappy
      else if n = ''zlib'' then Some Zlib
      else if n = ''zstd'' then Some Zstd
      else None)"

fun is_enabled :: "codecs \<Rightarrow> compressor_id \<Rightarrow> bool" where
  "is_enabled c Noop = True"
| "is_enabled c Snappy = feature_snappy c"
| "is_enabled c Zlib = feature_zlib c"
| "is_enabled c Zstd = feature_zstd c"

text \<open>\<open>.map_err(|e| ProtocolError::Compression(e.to_string()))\<close>.\<close>

definition compression_result :: "string + bytes \<Rightarrow> (protocol_error, bytes) result" where
  "compression_result x = (case x of Inl e \<Rightarrow> Err (PE_Compression e) | Inr b \<Rightarrow> Ok b)"

text \<open>
  \<open>dec.take(limit).read_to_end(..)\<close>: after \<open>limit\<close> bytes the adapter reports the end of the stream
  without asking the reader, so an error that comes later is not seen.
\<close>

definition take_read_to_end :: "nat \<Rightarrow> bytes \<times> string option \<Rightarrow> (protocol_error, bytes) result" where
  "take_read_to_end limit r = (case r of (ys, e) \<Rightarrow>
     if limit \<le> length ys then Ok (take limit ys)
     else case e of Some msg \<Rightarrow> Err (PE_Compression msg) | None \<Rightarrow> Ok ys)"

definition noop_compress :: "bytes \<Rightarrow> bytes" where
  "noop_compress data = data"

definition snappy_compress :: "codecs \<Rightarrow> bytes \<Rightarrow> (protocol_error, bytes) result" where
  "snappy_compress c data = compression_result (snap_frame_encode c data)"

definition snappy_decompress :: "codecs \<Rightarrow> bytes \<Rightarrow> nat \<Rightarrow> (protocol_error, bytes) result" where
  "snappy_decompress c data expected_len = take_read_to_end (expected_len + 1) (snap_frame_decode c data)"

definition zlib_compress :: "codecs \<Rightarrow> bytes \<Rightarrow> (protocol_error, bytes) result" where
  "zlib_compress c data = compression_result (zlib_encode c data)"

definition zlib_decompress :: "codecs \<Rightarrow> bytes \<Rightarrow> nat \<Rightarrow> (protocol_error, bytes) result" where
  "zlib_decompress c data expected_len = take_read_to_end (expected_len + 1) (zlib_decode c data)"

definition zstd_compress :: "codecs \<Rightarrow> bytes \<Rightarrow> (protocol_error, bytes) result" where
  "zstd_compress c data = compression_result (zstd_bulk_compress c data 3)"

definition zstd_decompress :: "codecs \<Rightarrow> bytes \<Rightarrow> nat \<Rightarrow> (protocol_error, bytes) result" where
  "zstd_decompress c data expected_len = compression_result (zstd_bulk_decompress c data (expected_len + 1))"

definition compress :: "codecs \<Rightarrow> compressor_id \<Rightarrow> bytes \<Rightarrow> (protocol_error, bytes) result" where
  "compress c cid data = (case cid of
     Noop \<Rightarrow> Ok (noop_compress data)
   | Snappy \<Rightarrow> if feature_snappy c then snappy_compress c data else Err (PE_UnsupportedCompressor (compressor_to_u8 cid))
   | Zlib \<Rightarrow> if feature_zlib c then zlib_compress c data else Err (PE_UnsupportedCompressor (compressor_to_u8 cid))
   | Zstd \<Rightarrow> if feature_zstd c then zstd_compress c data else Err (PE_UnsupportedCompressor (compressor_to_u8 cid)))"

definition decompress :: "codecs \<Rightarrow> compressor_id \<Rightarrow> bytes \<Rightarrow> nat \<Rightarrow> (protocol_error, bytes) result" where
  "decompress c cid data expected_len =
     andthen (case cid of
       Noop \<Rightarrow> Ok (noop_compress data)
     | Snappy \<Rightarrow> if feature_snappy c then snappy_decompress c data expected_len
                  else Err (PE_UnsupportedCompressor (compressor_to_u8 cid))
     | Zlib \<Rightarrow> if feature_zlib c then zlib_decompress c data expected_len
                else Err (PE_UnsupportedCompressor (compressor_to_u8 cid))
     | Zstd \<Rightarrow> if feature_zstd c then zstd_decompress c data expected_len
                else Err (PE_UnsupportedCompressor (compressor_to_u8 cid))) (\<lambda>out.
     if length out \<noteq> expected_len then Err (PE_DecompressedSizeMismatch expected_len (length out))
     else Ok out)"

section \<open>The contract of the codecs\<close>

text \<open>
  What the crates document: a stream an encoder produced decodes to the encoder's input and then
  ends, and a bulk decompression succeeds when the capacity suffices.
\<close>

definition codecs_lossless :: "codecs \<Rightarrow> bool" where
  "codecs_lossless c \<longleftrightarrow>
     (\<forall>d z. snap_frame_encode c d = Inr z \<longrightarrow> snap_frame_decode c z = (d, None))
   \<and> (\<forall>d z. zlib_encode c d = Inr z \<longrightarrow> zlib_decode c z = (d, None))
   \<and> (\<forall>d z cap. zstd_bulk_compress c d 3 = Inr z \<longrightarrow> length d \<le> cap \<longrightarrow> zstd_bulk_decompress c z cap = Inr d)"

text \<open>A build with every feature and codecs that store their input behind a marker byte.\<close>

definition stored_codecs :: codecs where
  "stored_codecs = \<lparr>feature_snappy = True, feature_zlib = True, feature_zstd = True,
     snap_frame_encode = (\<lambda>d. Inr (0xFF # d)),
     snap_frame_decode = (\<lambda>z. case z of [] \<Rightarrow> ([], Some ''eof'') | _ # d \<Rightarrow> (d, None)),
     zlib_encode = (\<lambda>d. Inr (0x78 # d)),
     zlib_decode = (\<lambda>z. case z of [] \<Rightarrow> ([], Some ''eof'') | _ # d \<Rightarrow> (d, None)),
     zstd_bulk_compress = (\<lambda>d _. Inr (0x28 # d)),
     zstd_bulk_decompress = (\<lambda>z cap. case z of [] \<Rightarrow> Inl ''eof''
       | _ # d \<Rightarrow> if length d \<le> cap then Inr d else Inl ''capacity'')\<rparr>"

lemma stored_codecs_lossless: "codecs_lossless stored_codecs"
  by (auto simp: codecs_lossless_def stored_codecs_def)

section \<open>Lemmas\<close>

lemma compressor_from_to_u8 [simp, wire_simps]: "compressor_from_u8 (compressor_to_u8 cid) = Some cid"
  by (cases cid) (simp_all add: compressor_from_u8_def)

lemma compressor_from_u8_Some: "compressor_from_u8 v = Some cid \<longleftrightarrow> v = compressor_to_u8 cid"
proof
  assume "compressor_from_u8 v = Some cid"
  then show "v = compressor_to_u8 cid" by (auto simp: compressor_from_u8_def split: if_splits)
qed simp

lemma compressor_from_name_Some: "compressor_from_name n = Some cid \<longleftrightarrow> n = compressor_name cid"
proof
  assume "compressor_from_name n = Some cid"
  then show "n = compressor_name cid" by (auto simp: compressor_from_name_def split: if_splits)
next
  assume "n = compressor_name cid"
  then show "compressor_from_name n = Some cid" by (cases cid) (simp_all add: compressor_from_name_def)
qed

lemma compression_result_panic [simp, panic_free]: "compression_result x \<noteq> Panic"
  by (simp add: compression_result_def split: sum.splits)

lemma take_read_to_end_panic [simp, panic_free]: "take_read_to_end n r \<noteq> Panic"
  by (simp add: take_read_to_end_def split: prod.splits option.splits)

lemmas compressor_defs = noop_compress_def snappy_compress_def snappy_decompress_def zlib_compress_def
  zlib_decompress_def zstd_compress_def zstd_decompress_def

lemma compress_panic [simp, panic_free]: "compress c cid d \<noteq> Panic"
  by (simp add: compress_def compressor_defs split: compressor_id.splits)

lemma decompress_panic [simp, panic_free]: "decompress c cid d n \<noteq> Panic"
  by (auto simp: decompress_def compressor_defs andthen_eq_Panic split: compressor_id.splits if_splits)

lemma decompress_length: "decompress c cid d n = Ok b \<Longrightarrow> length b = n"
  by (auto simp: decompress_def andthen_eq_Ok split: if_splits)

lemma decompress_compress:
  assumes "codecs_lossless c" and "compress c cid d = Ok z"
  shows "decompress c cid z (length d) = Ok d"
  using assms
  by (cases cid) (auto simp: codecs_lossless_def compress_def decompress_def compressor_defs compression_result_def
      take_read_to_end_def split: if_splits sum.splits)

lemma compress_disabled: "\<not> is_enabled c cid \<Longrightarrow> compress c cid d = Err (PE_UnsupportedCompressor (compressor_to_u8 cid))
    \<and> decompress c cid d n = Err (PE_UnsupportedCompressor (compressor_to_u8 cid))"
  by (cases cid) (simp_all add: compress_def decompress_def)

section \<open>Properties\<close>

text \<open>
  Decompression undoes compression for every compressor of the build, provided the codecs are
  lossless: the one byte of headroom asked of the decoders does not make an exact stream fail.
  A compressor whose feature is off is refused on both sides with its wire id.
\<close>

theorem compression_round_trip:
  assumes "codecs_lossless c"
  shows "(\<forall>z. compress c cid d = Ok z \<longrightarrow> decompress c cid z (length d) = Ok d)
    \<and> (\<not> is_enabled c cid \<longrightarrow> compress c cid d = Err (PE_UnsupportedCompressor (compressor_to_u8 cid))
         \<and> decompress c cid z' n = Err (PE_UnsupportedCompressor (compressor_to_u8 cid)))"
  using decompress_compress [OF assms] compress_disabled by blast

theorem compression_round_trip_witness:
  "\<exists>z. compress stored_codecs Zstd [1, 2, 3] = Ok z \<and> z \<noteq> [1, 2, 3] \<and> decompress stored_codecs Zstd z 3 = Ok [1, 2, 3]"
proof -
  have z: "compress stored_codecs Zstd [1, 2, 3] = Ok [0x28, 1, 2, 3]"
    by (simp add: compress_def stored_codecs_def compressor_defs compression_result_def)
  have "decompress stored_codecs Zstd [0x28, 1, 2, 3] (length [1 :: u8, 2, 3]) = Ok [1, 2, 3]"
    using compression_round_trip [OF stored_codecs_lossless, of Zstd "[1, 2, 3]" "[]" 0] z by blast
  with z show ?thesis by (simp add: numeral_3_eq_3)
qed



end
