(* ===== verification/Op_Compressed.thy ===== *)
theory Op_Compressed
  imports Compression
begin

text \<open>
  OP_COMPRESSED (\<open>mongowire/src/messages/op_compressed.rs\<close>) and the sum of all bodies with its
  opcode dispatch (\<open>MessageBody\<close> of \<open>mongowire/src/messages/mod.rs\<close>).
\<close>

section \<open>Model\<close>

record op_compressed =
  original_opcode :: opcode
  uncompressed_size :: i32
  compressor_id :: compressor_id
  compressed_message :: bytes

definition op_compressed_wrap :: "codecs \<Rightarrow> opcode \<Rightarrow> bytes \<Rightarrow> compressor_id \<Rightarrow> (protocol_error, op_compressed) result" where
  "op_compressed_wrap c op body cid =
     andthen (ok_or (PE_Compression ''body larger than i32::MAX'') (i32_try_from (length body))) (\<lambda>size.
     andthen (compress c cid body) (\<lambda>z.
     Ok \<lparr>original_opcode = op, uncompressed_size = size, compressor_id = cid, compressed_message = z\<rparr>))"

definition op_compressed_body_len :: "op_compressed \<Rightarrow> nat" where
  "op_compressed_body_len m = 4 + 4 + 1 + length (compressed_message m)"

definition op_compressed_encode_body :: "op_compressed \<Rightarrow> bytes \<Rightarrow> (protocol_error, bytes) result" where
  "op_compressed_encode_body m out =
     (let out = put_i32_le (opcode_to_i32 (original_opcode m)) out;
          out = put_i32_le (uncompressed_size m) out;
          out = put_u8 (compressor_to_u8 (compressor_id m)) out
      in Ok (put_bytes (compressed_message m) out))"

definition op_compressed_parse_body :: "bytes \<Rightarrow> (protocol_error, op_compressed) result" where
  "op_compressed_parse_body body =
     andthen (pread (read_i32_le body)) (\<lambda>(raw_opcode, r).
     andthen (ok_or (PE_UnsupportedOpcode raw_opcode) (opcode_from_i32 raw_opcode)) (\<lambda>op.
     andthen (pread (read_i32_le r)) (\<lambda>(size, r).
     if sint size < 0 then Err (PE_InvalidOpMsg ''negative uncompressedSize'')
     else andthen (pread (read_u8 r)) (\<lambda>(raw_id, r).
     andthen (ok_or (PE_UnsupportedCompressor raw_id) (compressor_from_u8 raw_id)) (\<lambda>cid.
     andthen (usub (length body) (remaining r)) (\<lambda>start.
     andthen (slice body start (length body)) (\<lambda>z.
     Ok \<lparr>original_opcode = op, uncompressed_size = size, compressor_id = cid, compressed_message = z\<rparr>)))))))"

text \<open>\<open>MessageBody\<close>: any body, tagged by opcode.\<close>

datatype message_body =
    MB_Msg op_msg
  | MB_Query op_query
  | MB_Reply op_reply
  | MB_Compressed op_compressed

fun message_opcode :: "message_body \<Rightarrow> opcode" where
  "message_opcode (MB_Msg _) = Msg"
| "message_opcode (MB_Query _) = Query"
| "message_opcode (MB_Reply _) = Reply"
| "message_opcode (MB_Compressed _) = Compressed"

fun message_body_len :: "message_body \<Rightarrow> nat" where
  "message_body_len (MB_Msg m) = op_msg_body_len m"
| "message_body_len (MB_Query q) = op_query_body_len q"
| "message_body_len (MB_Reply r) = op_reply_body_len r"
| "message_body_len (MB_Compressed c) = op_compressed_body_len c"

fun message_encode_body :: "message_body \<Rightarrow> bytes \<Rightarrow> (protocol_error, bytes) result" where
  "message_encode_body (MB_Msg m) out = op_msg_encode_body m out"
| "message_encode_body (MB_Query q) out = op_query_encode_body q out"
| "message_encode_body (MB_Reply r) out = op_reply_encode_body r out"
| "message_encode_body (MB_Compressed c) out = op_compressed_encode_body c out"

definition message_parse_body :: "opcode \<Rightarrow> bytes \<Rightarrow> (protocol_error, message_body) result" where
  "message_parse_body op body = (case op of
     Msg \<Rightarrow> map_ok MB_Msg (op_msg_parse_body body)
   | Query \<Rightarrow> map_ok MB_Query (op_query_parse_body body)
   | Reply \<Rightarrow> map_ok MB_Reply (op_reply_parse_body body)
   | Compressed \<Rightarrow> map_ok MB_Compressed (op_compressed_parse_body body)
   | _ \<Rightarrow> Err (PE_UnsupportedOpcode (opcode_to_i32 op)))"

definition unwrap_body :: "codecs \<Rightarrow> op_compressed \<Rightarrow> i32 \<Rightarrow> (protocol_error, message_body) result" where
  "unwrap_body c m max_msg_len =
     (if sint (uncompressed_size m) < 0 then Err (PE_InvalidOpMsg ''negative uncompressedSize'')
      else if original_opcode m = Compressed then Err (PE_InvalidOpMsg ''nested OP_COMPRESSED'')
      else if sint (uncompressed_size m) > sint max_msg_len then Err (PE_MessageTooLarge (uncompressed_size m) max_msg_len)
      else andthen (decompress c (compressor_id m) (compressed_message m) (i32_as_usize (uncompressed_size m)))
             (message_parse_body (original_opcode m)))"

section \<open>OP_COMPRESSED as a message\<close>

definition op_compressed_ok :: "op_compressed \<Rightarrow> bool" where
  "op_compressed_ok m \<longleftrightarrow> 0 \<le> sint (uncompressed_size m)"

definition op_compressed_bytes :: "op_compressed \<Rightarrow> bytes" where
  "op_compressed_bytes m = to_le32 (opcode_to_i32 (original_opcode m)) @ to_le32 (uncompressed_size m)
     @ compressor_to_u8 (compressor_id m) # compressed_message m"

lemma op_compressed_encode_eq: "op_compressed_encode_body m out = Ok (out @ op_compressed_bytes m)"
  by (simp add: op_compressed_encode_body_def op_compressed_bytes_def put_defs Let_def)

lemma op_compressed_parse_Ok:
  "op_compressed_parse_body body = Ok m \<longleftrightarrow> op_compressed_ok m \<and> body = op_compressed_bytes m"
proof
  assume "op_compressed_parse_body body = Ok m"
  then show "op_compressed_ok m \<and> body = op_compressed_bytes m"
    by (auto simp: op_compressed_parse_body_def andthen_eq_Ok read_field_Ok opcode_from_i32_Some compressor_from_u8_Some
        op_compressed_ok_def op_compressed_bytes_def usub_eq_Ok slice_eq_Ok remaining_def not_less split: if_splits)
next
  assume "op_compressed_ok m \<and> body = op_compressed_bytes m"
  then show "op_compressed_parse_body body = Ok m"
    by (simp add: op_compressed_parse_body_def op_compressed_bytes_def op_compressed_ok_def slice_def remaining_def)
qed

lemma op_compressed_parse_panic [simp, panic_free]: "op_compressed_parse_body body \<noteq> Panic"
  by (auto simp: op_compressed_parse_body_def andthen_eq_Panic andthen_eq_Ok read_field_Ok slice_def usub_eq_Ok remaining_def
      split: if_splits)

lemma length_op_compressed_bytes [simp]: "length (op_compressed_bytes m) = op_compressed_body_len m"
  by (simp add: op_compressed_bytes_def op_compressed_body_len_def)

interpretation compressed: message op_compressed_body_len op_compressed_encode_body op_compressed_parse_body op_compressed_ok
proof
  fix m assume "op_compressed_ok m"
  then show "\<exists>b. (\<forall>out. op_compressed_encode_body m out = Ok (out @ b)) \<and> length b = op_compressed_body_len m \<and> op_compressed_parse_body b = Ok m"
    by (intro exI [of _ "op_compressed_bytes m"]) (simp add: op_compressed_encode_eq op_compressed_parse_Ok)
qed (simp_all add: op_compressed_parse_Ok)

section \<open>Any body as a message\<close>

fun message_ok :: "message_body \<Rightarrow> bool" where
  "message_ok (MB_Msg m) \<longleftrightarrow> op_msg_ok m"
| "message_ok (MB_Query q) \<longleftrightarrow> op_query_ok q"
| "message_ok (MB_Reply r) \<longleftrightarrow> op_reply_ok r"
| "message_ok (MB_Compressed c) \<longleftrightarrow> op_compressed_ok c"

lemma message_parse_body_simps [simp]:
  "message_parse_body Msg b = map_ok MB_Msg (op_msg_parse_body b)"
  "message_parse_body Query b = map_ok MB_Query (op_query_parse_body b)"
  "message_parse_body Reply b = map_ok MB_Reply (op_reply_parse_body b)"
  "message_parse_body Compressed b = map_ok MB_Compressed (op_compressed_parse_body b)"
  by (simp_all add: message_parse_body_def)

lemma message_parse_panic [simp, panic_free]: "message_parse_body op b \<noteq> Panic"
  by (cases op) (simp_all add: message_parse_body_def)

lemma message_parse_opcode: "message_parse_body op b = Ok m \<Longrightarrow> message_opcode m = op"
  by (cases op) (auto simp: message_parse_body_def map_ok_eq_Ok)

text \<open>For each opcode, its bodies satisfy the contract framing relies on.\<close>

interpretation body: message message_body_len message_encode_body "message_parse_body op"
    "\<lambda>m. message_ok m \<and> message_opcode m = op" for op
proof
  fix m assume "message_ok m \<and> message_opcode m = op"
  then show "\<exists>b. (\<forall>out. message_encode_body m out = Ok (out @ b)) \<and> length b = message_body_len m \<and> message_parse_body op b = Ok m"
    using msg.encode_ok query.encode_ok reply.encode_ok compressed.encode_ok by (cases m) fastforce+
next
  fix b m assume p: "message_parse_body op b = Ok m"
  then show "(message_ok m \<and> message_opcode m = op) \<and> length b = message_body_len m"
    using message_parse_opcode [OF p] msg.parse_ok query.parse_ok reply.parse_ok compressed.parse_ok
    by (cases m) (auto simp: map_ok_eq_Ok)
qed simp

section \<open>Properties\<close>

lemma unwrap_wrap:
  assumes "codecs_lossless c" and "op_compressed_wrap c op b cid = Ok w" and "op \<noteq> Compressed"
    and "int (length b) \<le> sint max_msg_len"
  shows "unwrap_body c w max_msg_len = message_parse_body op b"
proof -
  from assms(2) obtain size z where size: "i32_try_from (length b) = Some size" and z: "compress c cid b = Ok z"
    and w: "w = \<lparr>original_opcode = op, uncompressed_size = size, compressor_id = cid, compressed_message = z\<rparr>"
    by (auto simp: op_compressed_wrap_def andthen_eq_Ok)
  from size have "sint size = int (length b)" "i32_as_usize size = length b"
    by (auto simp: i32_try_from_def split: if_splits)
  with assms decompress_compress [OF assms(1) z] show ?thesis by (simp add: unwrap_body_def w)
qed

text \<open>
  (C31) Compression is transparent: a body the wire can carry, encoded, wrapped with any enabled
  compressor, sent as OP_COMPRESSED, parsed and unwrapped under a limit it respects is the body
  itself.
\<close>

theorem compressed_round_trip:
  assumes "codecs_lossless c" and "message_ok m" and "message_opcode m \<noteq> Compressed"
    and "message_encode_body m [] = Ok b" and "int (message_body_len m) \<le> sint max_msg_len"
    and "op_compressed_wrap c (message_opcode m) b cid = Ok w"
  shows "\<exists>z. op_compressed_encode_body w out = Ok (out @ z) \<and> op_compressed_parse_body z = Ok w
    \<and> unwrap_body c w max_msg_len = Ok m"
proof -
  have b: "length b = message_body_len m" "message_parse_body (message_opcode m) b = Ok m"
    using body.parse_encode [of m "message_opcode m" b] assms by simp_all
  have "op_compressed_ok w"
    using assms(6) by (auto simp: op_compressed_wrap_def andthen_eq_Ok op_compressed_ok_def i32_try_from_def split: if_splits)
  then obtain z where "op_compressed_encode_body w out = Ok (out @ z)" "op_compressed_parse_body z = Ok w"
    using compressed.round_trip by blast
  moreover have "unwrap_body c w max_msg_len = Ok m"
    using unwrap_wrap [OF assms(1,6,3), of max_msg_len] assms b by simp
  ultimately show ?thesis by blast
qed

theorem compressed_round_trip_witness:
  "let m = MB_Query (op_query_handshake [5, 0, 0, 0, 0]) in
   \<exists>b w z. message_encode_body m [] = Ok b \<and> op_compressed_wrap stored_codecs Query b Zlib = Ok w
     \<and> op_compressed_encode_body w [] = Ok ([] @ z) \<and> op_compressed_parse_body z = Ok w
     \<and> unwrap_body stored_codecs w 48000000 = Ok m"
proof -
  let ?q = "op_query_handshake [5, 0, 0, 0, 0]" and ?b = "op_query_bytes 0 (op_query_handshake [5, 0, 0, 0, 0])"
  have ok: "op_query_ok ?q" by (rule op_query_handshake_ok [OF empty_doc_ok])
  then have e: "message_encode_body (MB_Query ?q) [] = Ok ?b"
    by (simp add: op_query_encode_eq op_query_ok_def op_query_handshake_def [of "[5, 0, 0, 0, 0]"])
  have len: "op_query_body_len ?q = 28" by (simp add: op_query_body_len_def op_query_handshake_def eval_simps)
  obtain w where w: "op_compressed_wrap stored_codecs Query ?b Zlib = Ok w"
    using len length_op_query_bytes [of 0 ?q]
    by (simp add: op_compressed_wrap_def i32_try_from_def compress_def stored_codecs_def compressor_defs compression_result_def)
  have "\<exists>z. op_compressed_encode_body w [] = Ok ([] @ z) \<and> op_compressed_parse_body z = Ok w
      \<and> unwrap_body stored_codecs w 48000000 = Ok (MB_Query ?q)"
    using compressed_round_trip [OF stored_codecs_lossless, of "MB_Query ?q" ?b 48000000 Zlib w "[]"] ok e w len by simp
  with e w show ?thesis unfolding Let_def by blast
qed

text \<open>
  (C32) Unwrapping is safe against hostile frames whatever the codecs do: it never panics, refuses a
  nested OP_COMPRESSED, hands the decoders a size between 0 and the limit only, and a body it returns
  is of the declared opcode, is not compressed, and takes exactly the declared number of bytes.
\<close>

theorem unwrap_body_safe:
  "unwrap_body c w max_msg_len \<noteq> Panic
   \<and> (original_opcode w = Compressed \<longrightarrow> unwrap_body c w max_msg_len = Err (PE_InvalidOpMsg ''nested OP_COMPRESSED'')
        \<or> unwrap_body c w max_msg_len = Err (PE_InvalidOpMsg ''negative uncompressedSize''))
   \<and> (sint (uncompressed_size w) > sint max_msg_len \<longrightarrow> (\<exists>e. unwrap_body c w max_msg_len = Err e))
   \<and> (\<forall>m. unwrap_body c w max_msg_len = Ok m \<longrightarrow>
        message_ok m \<and> message_opcode m = original_opcode w \<and> message_opcode m \<noteq> Compressed
        \<and> int (message_body_len m) = sint (uncompressed_size w) \<and> int (message_body_len m) \<le> sint max_msg_len)"
proof -
  have "message_ok m \<and> message_opcode m = original_opcode w \<and> message_opcode m \<noteq> Compressed
      \<and> int (message_body_len m) = sint (uncompressed_size w) \<and> int (message_body_len m) \<le> sint max_msg_len"
    if u: "unwrap_body c w max_msg_len = Ok m" for m
  proof -
    let ?s = "uncompressed_size w"
    from u obtain d where s: "0 \<le> sint ?s" "sint ?s \<le> sint max_msg_len" and op: "original_opcode w \<noteq> Compressed"
      and d: "decompress c (compressor_id w) (compressed_message w) (i32_as_usize ?s) = Ok d"
      and p: "message_parse_body (original_opcode w) d = Ok m"
      by (auto simp: unwrap_body_def andthen_eq_Ok not_less split: if_splits)
    have "int (length d) = sint ?s"
      using decompress_length [OF d] sint_nonneg_unat32 [OF s(1)] sint_ge_unat32 [of 0 ?s] s by simp
    with body.parse_ok [OF p] op s show ?thesis by auto
  qed
  moreover have "unwrap_body c w max_msg_len \<noteq> Panic"
    by (auto simp: unwrap_body_def andthen_eq_Panic)
  ultimately show ?thesis by (auto simp: unwrap_body_def)
qed

theorem unwrap_body_safe_witness:
  "unwrap_body stored_codecs \<lparr>original_opcode = Compressed, uncompressed_size = 1, compressor_id = Zlib,
     compressed_message = [0x78, 0]\<rparr> 100 = Err (PE_InvalidOpMsg ''nested OP_COMPRESSED'')"
proof -
  let ?w = "\<lparr>original_opcode = Compressed, uncompressed_size = 1, compressor_id = Zlib, compressed_message = [0x78, 0]\<rparr>"
  have "original_opcode ?w = Compressed" "unwrap_body stored_codecs ?w 100 \<noteq> Err (PE_InvalidOpMsg ''negative uncompressedSize'')"
    by (simp_all add: unwrap_body_def)
  with unwrap_body_safe [of stored_codecs ?w 100] show ?thesis by blast
qed

end
