(* ===== verification/Framing.thy ===== *)
theory Framing
  imports Op_Compressed
begin

text \<open>
  Frames over a byte buffer (\<open>mongowire/src/framing.rs\<close>): header, length limits, checksum.  The CRC-32C
  function of the \<open>crc32c\<close> crate is the parameter \<open>crc\<close>; \<open>&mut\<close> arguments are returned beside the result,
  so that what a call leaves behind on an error is visible.
\<close>

section \<open>Model\<close>

text \<open>\<open>BytesMut::split_to\<close> and \<open>Bytes::split_off\<close> panic out of range.\<close>

definition freeze :: "bytes \<Rightarrow> nat \<Rightarrow> (protocol_error, bytes \<times> bytes) result" where
  "freeze buf len = (if len \<le> length buf then Ok (take len buf, drop len buf) else Panic)"

definition split_off :: "bytes \<Rightarrow> nat \<Rightarrow> (protocol_error, bytes \<times> bytes) result" where
  "split_off msg at = (if at \<le> length msg then Ok (take at msg, drop at msg) else Panic)"

text \<open>The checks on a complete OP_MSG frame before it is consumed.\<close>

definition check_frame :: "(bytes \<Rightarrow> u32) \<Rightarrow> header \<Rightarrow> nat \<Rightarrow> bytes \<Rightarrow> (protocol_error, unit) result" where
  "check_frame crc h message_len buf =
     andthen (if op_code h = Msg \<and> MSG_HEADER_LEN + 4 \<le> message_len \<and> message_len < MSG_HEADER_LEN + 10
              then map_ok (\<lambda>b. from_le32 b AND CHECKSUM_PRESENT \<noteq> 0) (slice buf MSG_HEADER_LEN (MSG_HEADER_LEN + 4))
              else Ok False) (\<lambda>short.
     if short then Err (PE_InvalidOpMsg ''frame too short for a checksummed OP_MSG'')
     else if op_code h = Msg \<and> message_len \<ge> MSG_HEADER_LEN + 8
     then andthen (slice buf 0 message_len) (\<lambda>frame.
          andthen (map_ok from_le32 (slice frame MSG_HEADER_LEN (MSG_HEADER_LEN + 4))) (\<lambda>flag_bits.
          if flag_bits AND CHECKSUM_PRESENT \<noteq> 0
          then andthen (map_ok from_le32 (slice frame (message_len - 4) (length frame))) (\<lambda>expected.
               andthen (slice frame 0 (message_len - 4)) (\<lambda>covered.
               if crc covered \<noteq> expected then Err (PE_ChecksumMismatch expected (crc covered)) else Ok ()))
          else Ok ()))
     else Ok ())"

definition parse_message ::
    "(bytes \<Rightarrow> u32) \<Rightarrow> bytes \<Rightarrow> i32 \<Rightarrow> (protocol_error, (header \<times> message_body) option) result \<times> bytes" where
  "parse_message crc buf max_len =
     (if length buf < MSG_HEADER_LEN then (Ok None, buf)
      else keep buf (andthen (slice buf 0 MSG_HEADER_LEN) (\<lambda>b. header_parse b max_len)) (\<lambda>h.
      let message_len = i32_as_usize (message_length h) in
      if length buf < message_len then (Ok None, buf)
      else keep buf (check_frame crc h message_len buf) (\<lambda>_.
      keep buf (freeze buf message_len) (\<lambda>(frame, rest).
      (andthen (split_off frame MSG_HEADER_LEN) (\<lambda>(_, body_bytes).
       andthen (message_parse_body (op_code h) body_bytes) (\<lambda>body.
       Ok (Some (h, body)))), rest)))))"

text \<open>
  The checksum trailer: patch \<open>checksumPresent\<close> into the flags of an OP_MSG, then append the CRC of
  the bytes from \<open>start\<close> on.
\<close>

definition append_checksum :: "(bytes \<Rightarrow> u32) \<Rightarrow> nat \<Rightarrow> message_body \<Rightarrow> bytes \<Rightarrow> (protocol_error, unit) result \<times> bytes" where
  "append_checksum crc start body out =
     keep out (case body of
         MB_Msg m \<Rightarrow>
           if msg_checksum m \<noteq> None then Err (PE_InvalidOpMsg ''body already carries a checksum trailer'')
           else let flags_at = start + MSG_HEADER_LEN in
             andthen (slice out flags_at (flags_at + 4)) (\<lambda>b.
             let flag_bits = from_le32 b OR CHECKSUM_PRESENT in
             Ok (take flags_at out @ to_le32 flag_bits @ drop (flags_at + 4) out))
       | _ \<Rightarrow> Ok out) (\<lambda>out.
     keep out (slice out start (length out)) (\<lambda>b.
     (Ok (), put_bytes (to_le32 (crc b)) out)))"

definition encode_message ::
    "(bytes \<Rightarrow> u32) \<Rightarrow> header \<Rightarrow> message_body \<Rightarrow> bool \<Rightarrow> bytes \<Rightarrow> (protocol_error, unit) result \<times> header \<times> bytes" where
  "encode_message crc h body checksum out =
     (let total = MSG_HEADER_LEN + message_body_len body + (if checksum then 4 else 0) in
      keep (h, out) (ok_or (PE_MessageTooLarge 0x7FFFFFFF MAX_MSG_LEN) (i32_try_from total)) (\<lambda>total.
      if sint total > sint MAX_MSG_LEN then (Err (PE_MessageTooLarge total MAX_MSG_LEN), h, out)
      else let h = h\<lparr>message_length := total\<rparr>;
               start = length out;
               out = header_encode h out in
        keep (h, out) (message_encode_body body out) (\<lambda>out.
        if checksum then (case append_checksum crc start body out of (r, out) \<Rightarrow> (r, h, out))
        else (Ok (), h, out))))"

section \<open>Lemmas\<close>

definition crc_flagged :: "bytes \<Rightarrow> bool" where
  "crc_flagged b \<longleftrightarrow> from_le32 (take 4 (drop 16 b)) AND CHECKSUM_PRESENT \<noteq> 0"

lemma check_frame_eq:
  assumes "16 \<le> n" "n \<le> length buf"
  shows "check_frame crc h n buf =
    (if op_code h = Msg \<and> 20 \<le> n \<and> crc_flagged (take n buf)
     then if n < 26 then Err (PE_InvalidOpMsg ''frame too short for a checksummed OP_MSG'')
          else if crc (take (n - 4) buf) \<noteq> from_le32 (drop (n - 4) (take n buf))
          then Err (PE_ChecksumMismatch (from_le32 (drop (n - 4) (take n buf))) (crc (take (n - 4) buf)))
          else Ok ()
     else Ok ())"
proof -
  have t: "take 4 (drop 16 (take n buf)) = take 4 (drop 16 buf)" if "20 \<le> n"
    using that assms by (simp add: drop_take min_def)
  have m: "slice buf 16 20 = (Ok (take 4 (drop 16 buf)) :: (protocol_error, bytes) result)" if "20 \<le> n"
    using that assms by (simp add: slice_def)
  have f: "slice buf 0 n = (Ok (take n buf) :: (protocol_error, bytes) result)" using assms by (simp add: slice_def)
  have g: "slice (take n buf) 16 20 = (Ok (take 4 (drop 16 (take n buf))) :: (protocol_error, bytes) result)"
    "slice (take n buf) (n - 4) (length (take n buf)) = (Ok (drop (n - 4) (take n buf)) :: (protocol_error, bytes) result)"
    "slice (take n buf) 0 (n - 4) = (Ok (take (n - 4) buf) :: (protocol_error, bytes) result)" if "20 \<le> n"
    using that assms by (simp_all add: slice_def min_def)
  consider "op_code h \<noteq> Msg \<or> n < 20" | "op_code h = Msg" "20 \<le> n" "n < 26" | "op_code h = Msg" "26 \<le> n" by linarith
  then show ?thesis
  proof cases
    case 2
    then show ?thesis using m t f g assms by (simp add: check_frame_def crc_flagged_def del: length_take)
  next
    case 3
    then show ?thesis using f g assms by (simp add: check_frame_def crc_flagged_def del: length_take)
  qed (auto simp: check_frame_def)
qed

lemma freeze_split:
  "n \<le> length buf \<Longrightarrow> freeze buf n = Ok (take n buf, drop n buf)"
  "16 \<le> n \<Longrightarrow> n \<le> length buf \<Longrightarrow> split_off (take n buf) 16 = Ok (take 16 buf, drop 16 (take n buf))"
  by (simp_all add: freeze_def split_off_def min_def)

text \<open>The outcome of \<open>parse_message\<close> once the header is known.\<close>

lemma parse_message_header:
  assumes "16 \<le> length buf"
  shows "parse_message crc buf max_len = keep buf (header_parse (take 16 buf) max_len) (\<lambda>h.
    let n = i32_as_usize (message_length h) in
    if length buf < n then (Ok None, buf)
    else keep buf (check_frame crc h n buf) (\<lambda>_.
      (map_ok (\<lambda>b. Some (h, b)) (message_parse_body (op_code h) (drop 16 (take n buf))), drop n buf)))"
proof -
  have n: "16 \<le> i32_as_usize (message_length h)" if "header_parse (take 16 buf) max_len = Ok h" for h
    using that sint_ge_unat32 [of 16 "message_length h"] by (auto simp: header_parse_Ok header_ok_def)
  show ?thesis
  proof (cases "header_parse (take 16 buf) max_len")
    case (Ok h)
    with n [OF Ok] assms show ?thesis
      by (auto simp: parse_message_def slice_def Let_def freeze_split map_ok_andthen not_less keep_def split: result.splits)
  qed (use assms in \<open>simp_all add: parse_message_def slice_def\<close>)
qed

lemma check_frame_panic: "16 \<le> n \<Longrightarrow> n \<le> length buf \<Longrightarrow> check_frame crc h n buf \<noteq> Panic"
  by (simp add: check_frame_eq)

lemma check_frame_take: "16 \<le> n \<Longrightarrow> n \<le> length buf \<Longrightarrow> check_frame crc h n (take n buf) = check_frame crc h n buf"
  by (simp add: check_frame_eq min_def)

lemma header_length: "header_parse b max_len = Ok h \<Longrightarrow>
    16 \<le> i32_as_usize (message_length h) \<and> sint (message_length h) = int (i32_as_usize (message_length h))"
  using sint_ge_unat32 [of 16 "message_length h"] sint_nonneg_unat32 [of "message_length h"]
  by (auto simp: header_parse_Ok header_ok_def)

text \<open>A frame that can be consumed: a complete header, body and valid checksum.\<close>

definition good_frame :: "(bytes \<Rightarrow> u32) \<Rightarrow> i32 \<Rightarrow> bytes \<Rightarrow> header \<Rightarrow> message_body \<Rightarrow> bool" where
  "good_frame crc max_len f h m \<longleftrightarrow> 16 \<le> length f \<and> header_parse (take 16 f) max_len = Ok h
     \<and> i32_as_usize (message_length h) = length f \<and> check_frame crc h (length f) f = Ok ()
     \<and> message_parse_body (op_code h) (drop 16 f) = Ok m"

lemma parse_message_good: "good_frame crc max_len f h m \<Longrightarrow> parse_message crc (f @ rest) max_len = (Ok (Some (h, m)), rest)"
proof -
  assume g: "good_frame crc max_len f h m"
  then have "check_frame crc h (length f) (f @ rest) = Ok ()"
    using check_frame_take [of "length f" "f @ rest" crc h] by (simp add: good_frame_def)
  with g show ?thesis by (simp add: good_frame_def parse_message_header Let_def)
qed

lemma parse_message_Some:
  "parse_message crc buf max_len = (Ok (Some (h, m)), rest) \<longleftrightarrow> (\<exists>f. buf = f @ rest \<and> good_frame crc max_len f h m)"
proof
  assume p: "parse_message crc buf max_len = (Ok (Some (h, m)), rest)"
  then have len: "16 \<le> length buf" by (auto simp: parse_message_def split: if_splits)
  let ?n = "i32_as_usize (message_length h)"
  obtain hp: "header_parse (take 16 buf) max_len = Ok h" and n: "?n \<le> length buf"
    and c: "check_frame crc h ?n buf = Ok ()" and b: "message_parse_body (op_code h) (drop 16 (take ?n buf)) = Ok m"
    and r: "rest = drop ?n buf"
    using p unfolding parse_message_header [OF len]
    by (auto simp: keep_def Let_def map_ok_eq_Ok not_less split: result.splits if_splits)
  have n16: "16 \<le> ?n" using header_length [OF hp] by simp
  have "good_frame crc max_len (take ?n buf) h m"
    using hp n n16 c b check_frame_take [OF n16 n] by (simp add: good_frame_def min_def)
  then show "\<exists>f. buf = f @ rest \<and> good_frame crc max_len f h m" using r by (intro exI [of _ "take ?n buf"]) simp
qed (auto simp: parse_message_good)

lemma parse_message_panic [simp, panic_free]: "fst (parse_message crc buf max_len) \<noteq> Panic"
proof (cases "16 \<le> length buf")
  case True
  have "check_frame crc h (i32_as_usize (message_length h)) buf \<noteq> Panic"
    if "header_parse (take 16 buf) max_len = Ok h" "i32_as_usize (message_length h) \<le> length buf" for h
    using check_frame_panic header_length [OF that(1)] that by blast
  then show ?thesis
    using True header_parse_panic [of "take 16 buf" max_len]
    by (auto simp: parse_message_header keep_def Let_def not_less split: result.splits)
qed (simp add: parse_message_def)

lemma parse_message_None:
  "parse_message crc buf max_len = (Ok None, rest) \<longleftrightarrow> rest = buf \<and> (length buf < 16 \<or>
     (\<exists>h. header_parse (take 16 buf) max_len = Ok h \<and> length buf < i32_as_usize (message_length h)))"
proof (cases "16 \<le> length buf")
  case True
  then show ?thesis
    by (auto simp: parse_message_header keep_def Let_def map_ok_eq_Ok split: result.splits)
qed (auto simp: parse_message_def)

lemma parse_message_Err_buffer:
  assumes "parse_message crc buf max_len = (Err e, rest)"
  shows "rest = buf \<or> (\<exists>h. header_parse (take 16 buf) max_len = Ok h \<and> i32_as_usize (message_length h) \<le> length buf
    \<and> rest = drop (i32_as_usize (message_length h)) buf)"
proof (cases "16 \<le> length buf")
  case True
  then show ?thesis
    using assms by (auto simp: parse_message_header keep_def Let_def not_less split: result.splits if_splits)
qed (use assms in \<open>auto simp: parse_message_def\<close>)

section \<open>Properties of reading\<close>

text \<open>
  (C2) Reading is safe and accounts for every byte, whatever arrives: no panic; when more data is
  needed nothing is consumed; a message consumes exactly the \<open>message_length\<close> bytes its header
  declares, which is within the limit, and its parts account for all of them; an error leaves the
  buffer as it was or drops exactly the offending frame.
\<close>

theorem parse_message_safe:
  "case parse_message crc buf max_len of
     (Panic, _) \<Rightarrow> False
   | (Ok None, rest) \<Rightarrow> rest = buf
   | (Ok (Some (h, m)), rest) \<Rightarrow> (\<exists>f. buf = f @ rest \<and> sint (message_length h) = int (length f)
         \<and> int (length f) \<le> sint max_len \<and> length f \<le> 48000000
         \<and> length f = 16 + message_body_len m \<and> message_opcode m = op_code h)
   | (Err e, rest) \<Rightarrow> rest = buf \<or> (\<exists>h. header_parse (take 16 buf) max_len = Ok h
         \<and> int (length buf) - int (length rest) = sint (message_length h) \<and> (\<exists>f. buf = f @ rest))"
proof (cases "parse_message crc buf max_len")
  case (Pair r rest)
  show ?thesis
  proof (cases r)
    case (Ok x)
    show ?thesis
    proof (cases x)
      case None
      with Pair Ok have "rest = buf" by (simp add: parse_message_None)
      with Pair Ok None show ?thesis by simp
    next
      case (Some hm)
      obtain h m where hm: "hm = (h, m)" by (cases hm)
      with Pair Ok Some obtain f where f: "buf = f @ rest" "good_frame crc max_len f h m"
        by (auto simp: parse_message_Some)
      from f(2) have "header_parse (take 16 f) max_len = Ok h" by (simp add: good_frame_def)
      with header_length [OF this] have "sint (message_length h) = int (length f)" "int (length f) \<le> sint max_len" "length f \<le> 48000000"
        using f by (auto simp: good_frame_def header_parse_Ok header_ok_def)
      moreover have "length f = 16 + message_body_len m" "message_opcode m = op_code h"
        using f body.parse_ok [of "op_code h" "drop 16 f" m] by (auto simp: good_frame_def)
      ultimately show ?thesis using Pair Ok Some hm f by auto
    qed
  next
    case (Err e)
    have "\<exists>f. buf = f @ drop n buf" for n by (metis append_take_drop_id)
    with Pair Err parse_message_Err_buffer [of crc buf max_len e rest] header_length [of "take 16 buf" max_len]
    show ?thesis by (auto simp: of_nat_diff)
  qed (use Pair parse_message_panic [of crc buf max_len] in simp)
qed

text \<open>
  The decoder does not depend on how the stream is cut: once a message can be parsed, more bytes
  behind it change nothing but the rest of the buffer, and with any byte of the message still
  missing the decoder waits without consuming anything.
\<close>

theorem parse_message_streaming:
  assumes "parse_message crc buf max_len = (Ok (Some (h, m)), rest)"
  shows "parse_message crc (buf @ more_bytes) max_len = (Ok (Some (h, m)), rest @ more_bytes)
    \<and> (\<forall>n < length buf - length rest. parse_message crc (take n buf) max_len = (Ok None, take n buf))"
proof -
  from assms obtain f where f: "buf = f @ rest" "good_frame crc max_len f h m" by (auto simp: parse_message_Some)
  have "parse_message crc (take n buf) max_len = (Ok None, take n buf)" if "n < length f" for n
    using f that by (auto simp: parse_message_None good_frame_def min_def)
  with f show ?thesis by (simp add: parse_message_good)
qed

lemma parse_message_prefix_Err:
  assumes "parse_message crc buf max_len = (Err e, rest)"
  shows "fst (parse_message crc (buf @ s) max_len) = Err e"
proof -
  have len: "16 \<le> length buf" using assms by (auto simp: parse_message_def split: if_splits)
  have c: "check_frame crc h n (buf @ s) = check_frame crc h n buf" if "16 \<le> n" "n \<le> length buf" for h n
    using check_frame_take [of n "buf @ s"] check_frame_take [of n buf] that by simp
  show ?thesis
  proof (cases "header_parse (take 16 buf) max_len")
    case (Ok h)
    let ?n = "i32_as_usize (message_length h)"
    have n: "16 \<le> ?n" "?n \<le> length buf"
      using header_length [OF Ok] assms len Ok by (auto simp: parse_message_header Let_def not_less split: if_splits)
    show ?thesis
      using assms len Ok n c [OF n, of h]
      by (cases "check_frame crc h ?n buf") (auto simp: parse_message_header Let_def map_ok_eq_Err)
  qed (use assms len in \<open>simp_all add: parse_message_header\<close>)
qed

section \<open>Writing\<close>

text \<open>The header as sent, and the OP_MSG a receiver sees when the trailer is added.\<close>

abbreviation sent_header :: "header \<Rightarrow> nat \<Rightarrow> header" where
  "sent_header h n \<equiv> h\<lparr>message_length := u32_of_nat n\<rparr>"

definition checksummed :: "(bytes \<Rightarrow> u32) \<Rightarrow> header \<Rightarrow> op_msg \<Rightarrow> op_msg" where
  "checksummed crc h m = (let flags = msg_flags m OR CHECKSUM_PRESENT in
     m\<lparr>msg_flags := flags,
       msg_checksum := Some (crc (header_bytes h @ to_le32 flags @ msg_sections_bytes (msg_sections m)))\<rparr>)"

lemma encode_message_plain:
  assumes "message_ok m" "message_encode_body m [] = Ok b" "16 + message_body_len m \<le> 48000000"
  shows "encode_message crc h m False out =
    (Ok (), sent_header h (16 + message_body_len m), out @ header_bytes (sent_header h (16 + message_body_len m)) @ b)"
  using assms body.encode_appends [of m "message_opcode m" b "out @ header_bytes (sent_header h (16 + message_body_len m))"]
  by (simp add: encode_message_def i32_try_from_def header_encode_eq Let_def)

lemma checksummed_ok:
  assumes "op_msg_ok m" "msg_checksum m = None"
  shows "op_msg_ok (checksummed crc h m)"
proof -
  have "(w OR 1) AND MSG_FLAGS_ALL = w OR 1" if "w AND MSG_FLAGS_ALL = w" for w :: u32
  proof -
    have "(w OR 1) AND MSG_FLAGS_ALL = (w AND MSG_FLAGS_ALL) OR (1 AND MSG_FLAGS_ALL)"
      by (simp add: and.commute bit.conj_disj_distrib)
    then show ?thesis using that by (simp add: MSG_FLAGS_ALL_def)
  qed
  moreover have "flags_contain (w OR 1) 1" for w :: u32
    by (simp add: flags_contain_def and.commute)
  ultimately show ?thesis using assms by (simp add: op_msg_ok_def checksummed_def Let_def)
qed

lemma encode_message_checksum:
  assumes "op_msg_ok m" "msg_checksum m = None" "20 + op_msg_body_len m \<le> 48000000"
  shows "encode_message crc h (MB_Msg m) True out =
    (let h' = sent_header h (20 + op_msg_body_len m)
     in (Ok (), h', out @ header_bytes h' @ op_msg_bytes (checksummed crc h' m)))"
proof -
  let ?h = "sent_header h (20 + op_msg_body_len m)"
  let ?s = "msg_sections_bytes (msg_sections m)"
  have b: "op_msg_bytes m = to_le32 (msg_flags m) @ ?s" using assms by (simp add: op_msg_bytes_def checksum_bytes_def)
  have "append_checksum crc (length out) (MB_Msg m) (out @ header_bytes ?h @ op_msg_bytes m)
      = (Ok (), out @ header_bytes ?h @ op_msg_bytes (checksummed crc ?h m))"
    using assms
    by (simp add: append_checksum_def b slice_def Let_def put_defs op_msg_bytes_def checksummed_def checksum_bytes_def)
  then show ?thesis
    using assms by (simp add: encode_message_def i32_try_from_def header_encode_eq Let_def)
qed

lemma good_frame_sent:
  assumes "message_parse_body (op_code h) b = Ok m" "16 + length b \<le> 48000000" "int (16 + length b) \<le> sint max_len"
    and "message_length h = u32_of_nat (16 + length b)"
    and "check_frame crc h (16 + length b) (header_bytes h @ b) = Ok ()"
  shows "good_frame crc max_len (header_bytes h @ b) h m"
proof -
  have "header_parse (header_bytes h) max_len = Ok h"
    using assms by (simp add: header_parse_Ok header_ok_def)
  with assms show ?thesis by (simp add: good_frame_def)
qed

lemma flag_bit_contains: "flags_contain w 1 \<longleftrightarrow> w AND 1 \<noteq> (0 :: u32)"
  by (simp add: flags_contain_def and_one_eq)

lemma crc_flagged_msg: "crc_flagged (header_bytes h @ op_msg_bytes m) \<longleftrightarrow> flags_contain (msg_flags m) 1"
  by (simp add: crc_flagged_def op_msg_bytes_def flag_bit_contains)

lemma good_frame_plain:
  assumes "message_ok m" "op_code h = message_opcode m" "message_encode_body m [] = Ok b"
    and "16 + message_body_len m \<le> 48000000" "int (16 + message_body_len m) \<le> sint max_len"
    and "\<forall>x. m = MB_Msg x \<longrightarrow> msg_checksum x = None"
  shows "good_frame crc max_len (header_bytes (sent_header h (16 + message_body_len m)) @ b)
    (sent_header h (16 + message_body_len m)) m"
proof (rule good_frame_sent)
  have b: "length b = message_body_len m" "message_parse_body (message_opcode m) b = Ok m"
    using body.parse_encode [of m "message_opcode m" b] assms by simp_all
  then show "message_parse_body (op_code (sent_header h (16 + message_body_len m))) b = Ok m" using assms by simp
  show "16 + length b \<le> 48000000" "int (16 + length b) \<le> sint max_len" using assms b by simp_all
  show "message_length (sent_header h (16 + message_body_len m)) = u32_of_nat (16 + length b)" using b by simp
  have "\<not> crc_flagged (header_bytes h' @ b)" if m: "m = MB_Msg x" for x h'
  proof -
    have "b = op_msg_bytes x" using assms m by simp
    moreover have "\<not> flags_contain (msg_flags x) 1" using assms m by (simp add: op_msg_ok_def)
    ultimately show ?thesis by (simp add: crc_flagged_msg)
  qed
  then show "check_frame crc (sent_header h (16 + message_body_len m)) (16 + length b)
      (header_bytes (sent_header h (16 + message_body_len m)) @ b) = Ok ()"
    using assms by (cases m) (simp_all add: check_frame_eq)
qed

lemma good_frame_checksum:
  assumes "op_msg_ok m" "msg_checksum m = None" "op_code h = Msg" "message_length h = u32_of_nat (20 + op_msg_body_len m)"
    and "20 + op_msg_body_len m \<le> 48000000" "int (20 + op_msg_body_len m) \<le> sint max_len"
  shows "good_frame crc max_len (header_bytes h @ op_msg_bytes (checksummed crc h m)) h (MB_Msg (checksummed crc h m))"
proof -
  let ?c = "checksummed crc h m"
  have ok: "op_msg_ok ?c" using assms by (simp add: checksummed_ok)
  have len: "length (op_msg_bytes ?c) = 4 + op_msg_body_len m"
    using length_op_msg_bytes [of ?c] assms by (simp add: checksummed_def op_msg_body_len_def Let_def)
  have big: "10 \<le> length (op_msg_bytes ?c)"
  proof -
    have "5 \<le> length (sec_body (msg_sections m))" using assms frame_ok_length by (auto simp: op_msg_ok_def doc_ok_def)
    then show ?thesis by (simp add: op_msg_bytes_def msg_sections_bytes_def checksummed_def checksum_bytes_def Let_def)
  qed
  define f where "f = header_bytes h @ to_le32 (msg_flags ?c) @ msg_sections_bytes (msg_sections m)"
  have f: "header_bytes h @ op_msg_bytes ?c = f @ to_le32 (crc f)"
    by (simp add: f_def op_msg_bytes_def checksummed_def checksum_bytes_def Let_def)
  have "check_frame crc h (16 + length (op_msg_bytes ?c)) (header_bytes h @ op_msg_bytes ?c) = Ok ()"
  proof -
    have "length (header_bytes h @ op_msg_bytes ?c) = length f + 4" unfolding f by simp
    then have n: "16 + length (op_msg_bytes ?c) = length f + 4" by simp
    then have "26 \<le> length f + 4" using big by linarith
    then show ?thesis unfolding f n by (simp add: check_frame_eq)
  qed
  with ok len assms show ?thesis by (intro good_frame_sent) simp_all
qed

section \<open>Properties of writing\<close>

text \<open>
  Framing round trip: a body the wire can carry and without a stale checksum, encoded behind any
  bytes already in the buffer, is read back as the same header (with the length filled in) and the
  same body, and whatever follows it in the stream stays in the buffer.
\<close>

theorem frame_round_trip:
  assumes "message_ok m" and "op_code h = message_opcode m" and "\<forall>x. m = MB_Msg x \<longrightarrow> msg_checksum x = None"
    and "16 + message_body_len m \<le> 48000000" and "int (16 + message_body_len m) \<le> sint max_len"
  shows "\<exists>h' f. encode_message crc h m False out = (Ok (), h', out @ f)
    \<and> h' = h\<lparr>message_length := of_nat (16 + message_body_len m)\<rparr> \<and> length f = 16 + message_body_len m
    \<and> (\<forall>rest. parse_message crc (f @ rest) max_len = (Ok (Some (h', m)), rest))"
proof -
  let ?h = "sent_header h (16 + message_body_len m)"
  obtain b where b: "message_encode_body m [] = Ok b" "length b = message_body_len m"
    using body.round_trip [of m "message_opcode m" "[]"] assms by auto
  show ?thesis
    using encode_message_plain [OF assms(1) b(1) assms(4)] parse_message_good [OF good_frame_plain [OF assms(1,2) b(1) assms(4,5,3)]] b
    by (intro exI [of _ ?h] exI [of _ "header_bytes ?h @ b"]) (simp add: u32_of_nat_def)
qed

lemma sample_body_len:
  "op_msg_body_len \<lparr>msg_flags = 2, msg_sections = \<lparr>sec_body = [5, 0, 0, 0, 0], sec_sequences = []\<rparr>, msg_checksum = None\<rparr> = 10"
  by (simp add: op_msg_body_len_def sections_size_def)

theorem frame_round_trip_witness:
  "let m = MB_Msg \<lparr>msg_flags = 2, msg_sections = \<lparr>sec_body = [5, 0, 0, 0, 0], sec_sequences = []\<rparr>, msg_checksum = None\<rparr>;
       h = header_new 7 0 Msg
   in \<exists>h' f. encode_message (\<lambda>_. 0) h m False [1] = (Ok (), h', [1] @ f) \<and> h' = h\<lparr>message_length := 26\<rparr> \<and> length f = 26
      \<and> (\<forall>rest. parse_message (\<lambda>_. 0) (f @ rest) 26 = (Ok (Some (h', m)), rest))"
  using frame_round_trip [of "MB_Msg \<lparr>msg_flags = 2, msg_sections = \<lparr>sec_body = [5, 0, 0, 0, 0], sec_sequences = []\<rparr>, msg_checksum = None\<rparr>"
      "header_new 7 0 Msg" 26 "\<lambda>_. 0" "[1]"] sample_msg_ok
  by (simp add: sample_body_len header_new_def)

text \<open>
  (C24) Checksummed round trip: an OP_MSG sent with a checksum, for any checksum function, is accepted
  by the receiver, which sees the same sections, the \<open>checksumPresent\<close> flag added to the sender's
  flags, and as checksum the function's value on the header and the body before the trailer.
\<close>

theorem frame_checksum_round_trip:
  assumes "op_msg_ok m" and "msg_checksum m = None" and "op_code h = Msg"
    and "20 + op_msg_body_len m \<le> 48000000" and "int (20 + op_msg_body_len m) \<le> sint max_len"
  shows "\<exists>h' covered. let m' = m\<lparr>msg_flags := msg_flags m OR 1, msg_checksum := Some (crc covered)\<rparr>;
                         f = covered @ to_le32 (crc covered)
     in encode_message crc h (MB_Msg m) True out = (Ok (), h', out @ f) \<and> length f = 20 + op_msg_body_len m
        \<and> (\<forall>rest. parse_message crc (f @ rest) max_len = (Ok (Some (h', MB_Msg m')), rest))"
proof -
  let ?h = "sent_header h (20 + op_msg_body_len m)"
  let ?f = "header_bytes ?h @ to_le32 (msg_flags m OR 1) @ msg_sections_bytes (msg_sections m)"
  have c: "checksummed crc ?h m = m\<lparr>msg_flags := msg_flags m OR 1, msg_checksum := Some (crc ?f)\<rparr>"
    by (simp add: checksummed_def Let_def)
  have f: "header_bytes ?h @ op_msg_bytes (checksummed crc ?h m) = ?f @ to_le32 (crc ?f)"
    by (simp add: c op_msg_bytes_def checksum_bytes_def)
  have "good_frame crc max_len (?f @ to_le32 (crc ?f)) ?h (MB_Msg (checksummed crc ?h m))"
    using good_frame_checksum [of m ?h max_len crc] assms unfolding f by simp
  then have "\<forall>rest. parse_message crc ((?f @ to_le32 (crc ?f)) @ rest) max_len = (Ok (Some (?h, MB_Msg (checksummed crc ?h m))), rest)"
    by (simp only: parse_message_good simp_thms)
  moreover have "encode_message crc h (MB_Msg m) True out = (Ok (), ?h, out @ ?f @ to_le32 (crc ?f))"
    using encode_message_checksum [OF assms(1,2,4), of crc h out] unfolding Let_def f .
  moreover have "length (?f @ to_le32 (crc ?f)) = 20 + op_msg_body_len m"
    using assms by (simp add: op_msg_body_len_def)
  ultimately show ?thesis unfolding c Let_def by blast
qed

theorem frame_checksum_round_trip_witness:
  "let m = \<lparr>msg_flags = 2, msg_sections = \<lparr>sec_body = [5, 0, 0, 0, 0], sec_sequences = []\<rparr>, msg_checksum = None\<rparr>;
       crc = (\<lambda>b. of_nat (length b))
   in \<exists>h' covered. let m' = m\<lparr>msg_flags := 3, msg_checksum := Some (crc covered)\<rparr>; f = covered @ to_le32 (crc covered)
     in encode_message crc (header_new 7 0 Msg) (MB_Msg m) True [1] = (Ok (), h', [1] @ f) \<and> length f = 30
        \<and> (\<forall>rest. parse_message crc (f @ rest) 48000000 = (Ok (Some (h', MB_Msg m')), rest))"
  using frame_checksum_round_trip [OF sample_msg_ok, of "header_new 7 0 Msg" 48000000 "\<lambda>b. of_nat (length b)" "[1]"]
  by (simp add: sample_body_len header_new_def Let_def)

text \<open>
  (C14) Corruption is detected and costs nothing: a complete OP_MSG frame whose flags announce a
  checksum is rejected without being consumed as soon as the trailer is not the checksum of the bytes
  before it; and a checksummed message that is accepted carries the right checksum.
\<close>

theorem checksum_enforced:
  assumes "header_parse (take 16 f) max_len = Ok h" and "op_code h = Msg"
    and "sint (message_length h) = int (length f)" and "26 \<le> length f"
    and "from_le32 (take 4 (drop 16 f)) AND 1 \<noteq> 0"
  shows "(crc (take (length f - 4) f) \<noteq> from_le32 (drop (length f - 4) f) \<longrightarrow>
           parse_message crc (f @ rest) max_len
             = (Err (PE_ChecksumMismatch (from_le32 (drop (length f - 4) f)) (crc (take (length f - 4) f))), f @ rest))
    \<and> (\<forall>m rest'. parse_message crc (f @ rest) max_len = (Ok (Some (h, MB_Msg m)), rest') \<longrightarrow>
           rest' = rest \<and> msg_checksum m = Some (crc (take (length f - 4) f)))"
proof -
  have n: "i32_as_usize (message_length h) = length f" using header_length [OF assms(1)] assms(3) by simp
  have fl: "crc_flagged f" using assms by (simp add: crc_flagged_def)
  have p: "parse_message crc (f @ rest) max_len = keep (f @ rest) (check_frame crc h (length f) f)
      (\<lambda>_. (map_ok (\<lambda>b. Some (h, b)) (message_parse_body Msg (drop 16 f)), rest))"
    using assms n check_frame_take [of "length f" "f @ rest" crc h] by (simp add: parse_message_header Let_def)
  have "rest' = rest \<and> msg_checksum m = Some (crc (take (length f - 4) f))"
    if "parse_message crc (f @ rest) max_len = (Ok (Some (h, MB_Msg m)), rest')" for m rest'
  proof -
    from that obtain c: "crc (take (length f - 4) f) = from_le32 (drop (length f - 4) f)"
      and r: "rest' = rest" and m: "op_msg_parse_body (drop 16 f) = Ok m"
      using assms fl by (auto simp: p check_frame_eq map_ok_eq_Ok split: if_splits)
    from m obtain raw where ok: "op_msg_ok m" and acc: "flags_accept raw (msg_flags m)"
      and b: "drop 16 f = to_le32 raw @ msg_sections_bytes (msg_sections m) @ checksum_bytes (msg_checksum m)"
      by (auto simp: op_msg_parse_Ok)
    have "raw AND 1 \<noteq> 0" using assms(5) b by simp
    then have "msg_flags m AND 1 \<noteq> 0" using acc by (simp add: flags_accept_def and.assoc MSG_FLAGS_ALL_def)
    then obtain w where w: "msg_checksum m = Some w" using ok by (auto simp: op_msg_ok_def flag_bit_contains)
    have "f = (take 16 f @ to_le32 raw @ msg_sections_bytes (msg_sections m)) @ to_le32 w"
      using b w append_take_drop_id [of 16 f] by (simp add: checksum_bytes_def)
    then have "drop (length f - 4) f = to_le32 w" by (metis add_diff_cancel_right' append_eq_conv_conj length_append length_to_le32)
    with c r w show ?thesis by simp
  qed
  then show ?thesis using assms fl by (simp add: p check_frame_eq)
qed

theorem checksum_enforced_witness:
  "let f = [30, 0, 0, 0, 7, 0, 0, 0, 0, 0, 0, 0, 0xDD, 7, 0, 0, 1, 0, 0, 0, 0, 5, 0, 0, 0, 0, 9, 0, 0, 0]
   in parse_message (\<lambda>_. 4) (f @ [1]) 100 = (Err (PE_ChecksumMismatch 9 4), f @ [1])"
proof -
  let ?f = "[30, 0, 0, 0, 7, 0, 0, 0, 0, 0, 0, 0, 0xDD, 7, 0, 0, 1, 0, 0, 0, 0, 5, 0, 0, 0, 0, 9, 0, 0, 0] :: bytes"
  let ?h = "\<lparr>message_length = 30, request_id = 7, response_to = 0, op_code = Msg\<rparr>"
  have h: "header_parse (take 16 ?f) 100 = Ok ?h"
    by (simp add: header_parse_Ok header_bytes_def header_ok_def eval_simps)
  have fl: "from_le32 (take 4 (drop 16 ?f)) AND 1 \<noteq> 0" by (simp add: eval_simps)
  have last: "from_le32 (drop (length ?f - 4) ?f) = 9" by (simp add: eval_simps)
  have "op_code ?h = Msg" "sint (message_length ?h) = int (length ?f)" "26 \<le> length ?f" by simp_all
  from checksum_enforced [OF h this fl, of "\<lambda>_. 4" "[1]"] show ?thesis unfolding last Let_def by simp
qed

lemma sample_good_frame:
  "good_frame crc 48000000 [26, 0, 0, 0, 7, 0, 0, 0, 0, 0, 0, 0, 0xDD, 7, 0, 0, 2, 0, 0, 0, 0, 5, 0, 0, 0, 0]
     \<lparr>message_length = 26, request_id = 7, response_to = 0, op_code = Msg\<rparr>
     (MB_Msg \<lparr>msg_flags = 2, msg_sections = \<lparr>sec_body = [5, 0, 0, 0, 0], sec_sequences = []\<rparr>, msg_checksum = None\<rparr>)"
proof -
  let ?m = "MB_Msg \<lparr>msg_flags = 2, msg_sections = \<lparr>sec_body = [5, 0, 0, 0, 0], sec_sequences = []\<rparr>, msg_checksum = None\<rparr>"
  let ?h = "\<lparr>message_length = 26, request_id = 7, response_to = 0, op_code = Msg\<rparr>"
  have len: "message_body_len ?m = 10" by (simp add: sample_body_len)
  have "good_frame crc 48000000 (header_bytes ?h @ [2, 0, 0, 0, 0, 5, 0, 0, 0, 0]) ?h ?m"
    using good_frame_plain [of ?m ?h "[2, 0, 0, 0, 0, 5, 0, 0, 0, 0]" 48000000 crc] sample_msg_ok
    unfolding len by (simp add: op_msg_bytes_def msg_sections_bytes_def checksum_bytes_def eval_simps)
  then show ?thesis by (simp add: header_bytes_def eval_simps)
qed

theorem parse_message_streaming_witness:
  "let f = [26, 0, 0, 0, 7, 0, 0, 0, 0, 0, 0, 0, 0xDD, 7, 0, 0, 2, 0, 0, 0, 0, 5, 0, 0, 0, 0];
       x = (\<lparr>message_length = 26, request_id = 7, response_to = 0, op_code = Msg\<rparr>,
            MB_Msg \<lparr>msg_flags = 2, msg_sections = \<lparr>sec_body = [5, 0, 0, 0, 0], sec_sequences = []\<rparr>, msg_checksum = None\<rparr>)
   in parse_message (\<lambda>_. 0) (f @ [1, 2]) 48000000 = (Ok (Some x), [1, 2])
    \<and> (\<forall>n < 26. parse_message (\<lambda>_. 0) (take n f) 48000000 = (Ok None, take n f))"
  using parse_message_streaming [OF parse_message_good [OF sample_good_frame, of "\<lambda>_. 0" "[]"], of "[1, 2]"]
  unfolding Let_def by simp

text \<open>
  A message above \<open>MAX_MSG_LEN\<close> is refused before anything is written: header and buffer are as
  they were, for bodies of any size including those whose length does not fit an \<open>i32\<close>.
\<close>

theorem encode_message_too_large:
  assumes "48000000 < 16 + message_body_len m + (if checksum then 4 else 0)"
  shows "\<exists>size. encode_message crc h m checksum out = (Err (PE_MessageTooLarge size MAX_MSG_LEN), h, out)
    \<and> sint size = min 0x7FFFFFFF (int (16 + message_body_len m + (if checksum then 4 else 0)))"
  using assms by (cases checksum) (auto simp: encode_message_def i32_try_from_def Let_def)

theorem encode_message_too_large_witness:
  "\<exists>m size. encode_message (\<lambda>_. 0) (header_new 1 0 Compressed) m True [7] = (Err (PE_MessageTooLarge size MAX_MSG_LEN), header_new 1 0 Compressed, [7])
    \<and> sint size = 48000001"
proof -
  let ?m = "MB_Compressed \<lparr>original_opcode = Msg, uncompressed_size = 0, compressor_id = Noop,
    compressed_message = replicate 47999972 0\<rparr>"
  have "message_body_len ?m = 47999981" by (simp add: op_compressed_body_len_def)
  with encode_message_too_large [of ?m True "\<lambda>_. 0" "header_new 1 0 Compressed" "[7]"] show ?thesis by fastforce
qed

end
