(* ===== verification/Codec.thy ===== *)
theory Codec
  imports Framing
begin

text \<open>
  The tokio codec over framing (\<open>mongowire/src/codec.rs\<close>) and the channel two codecs form.
\<close>

section \<open>Model\<close>

record codec_config =
  max_msg_len :: i32

definition codec_config_default :: codec_config where
  "codec_config_default = \<lparr>max_msg_len = MAX_MSG_LEN\<rparr>"

record mongo_codec =
  codec_conf :: codec_config

definition mongo_codec_new :: "codec_config \<Rightarrow> mongo_codec" where
  "mongo_codec_new conf = \<lparr>codec_conf = conf\<rparr>"

definition codec_decode ::
    "(bytes \<Rightarrow> u32) \<Rightarrow> mongo_codec \<Rightarrow> bytes \<Rightarrow> (protocol_error, (header \<times> message_body) option) result \<times> bytes" where
  "codec_decode crc c src = parse_message crc src (max_msg_len (codec_conf c))"

definition codec_encode :: "(bytes \<Rightarrow> u32) \<Rightarrow> header \<times> message_body \<Rightarrow> bytes \<Rightarrow> (protocol_error, unit) result \<times> bytes" where
  "codec_encode crc item dst =
     (case item of (h, b) \<Rightarrow> case encode_message crc h b False dst of (r, _, dst) \<Rightarrow> (r, dst))"

definition to_bytes :: "(bytes \<Rightarrow> u32) \<Rightarrow> header \<Rightarrow> message_body \<Rightarrow> bool \<Rightarrow> (protocol_error, bytes) result \<times> header" where
  "to_bytes crc h b checksum =
     (case encode_message crc h b checksum [] of (r, h, out) \<Rightarrow> (map_ok (\<lambda>_. out) r, h))"

text \<open>
  Runs of the codec: writing items one after another into a buffer, and reading \<open>n\<close> items off it.
\<close>

fun encode_all :: "(bytes \<Rightarrow> u32) \<Rightarrow> (header \<times> message_body) list \<Rightarrow> bytes \<Rightarrow> (protocol_error, unit) result \<times> bytes" where
  "encode_all crc [] dst = (Ok (), dst)"
| "encode_all crc (x # xs) dst = (case codec_encode crc x dst of (Ok _, dst) \<Rightarrow> encode_all crc xs dst | r \<Rightarrow> r)"

fun decode_all :: "(bytes \<Rightarrow> u32) \<Rightarrow> mongo_codec \<Rightarrow> nat \<Rightarrow> bytes \<Rightarrow> (header \<times> message_body) list option \<times> bytes" where
  "decode_all crc c 0 src = (Some [], src)"
| "decode_all crc c (Suc n) src = (case codec_decode crc c src of
     (Ok (Some x), src) \<Rightarrow> (case decode_all crc c n src of (r, src) \<Rightarrow> (map_option ((#) x) r, src))
   | (_, src) \<Rightarrow> (None, src))"

definition sendable :: "mongo_codec \<Rightarrow> header \<times> message_body \<Rightarrow> bool" where
  "sendable c x \<longleftrightarrow> (case x of (h, m) \<Rightarrow> message_ok m \<and> op_code h = message_opcode m
     \<and> (\<forall>y. m = MB_Msg y \<longrightarrow> msg_checksum y = None)
     \<and> 16 + message_body_len m \<le> 48000000 \<and> int (16 + message_body_len m) \<le> sint (max_msg_len (codec_conf c)))"

definition with_length :: "header \<times> message_body \<Rightarrow> header \<times> message_body" where
  "with_length x = (case x of (h, m) \<Rightarrow> (h\<lparr>message_length := of_nat (16 + message_body_len m)\<rparr>, m))"

lemma codec_step:
  assumes "sendable c x"
  shows "\<exists>f. (\<forall>dst. codec_encode crc x dst = (Ok (), dst @ f)) \<and> (\<forall>rest. codec_decode crc c (f @ rest) = (Ok (Some (with_length x)), rest))"
proof -
  obtain h m where x: "x = (h, m)" by (cases x)
  have a: "message_ok m" "op_code h = message_opcode m" "\<forall>y. m = MB_Msg y \<longrightarrow> msg_checksum y = None"
    "16 + message_body_len m \<le> 48000000" "int (16 + message_body_len m) \<le> sint (max_msg_len (codec_conf c))"
    using assms by (auto simp: sendable_def x)
  let ?h = "sent_header h (16 + message_body_len m)"
  obtain b where b: "message_encode_body m [] = Ok b" using body.round_trip [of m "message_opcode m" "[]"] a by auto
  show ?thesis
    using encode_message_plain [OF a(1) b a(4), of crc h] parse_message_good [OF good_frame_plain [OF a(1,2) b a(4,5,3)], of crc]
    by (intro exI [of _ "header_bytes ?h @ b"]) (simp add: x codec_encode_def codec_decode_def with_length_def u32_of_nat_def)
qed

text \<open>
  (C1) A connection is a faithful channel: any sequence of sendable messages written back to back by
  the encoder is read back by the decoder as the same sequence, in order, each header completed with
  its length, and the bytes that follow are left for later.
\<close>

theorem codec_stream_round_trip:
  assumes "list_all (sendable c) xs"
  shows "\<exists>w. encode_all crc xs out = (Ok (), out @ w) \<and> decode_all crc c (length xs) (w @ rest) = (Some (map with_length xs), rest)"
proof -
  have "\<exists>w. (\<forall>out. encode_all crc xs out = (Ok (), out @ w)) \<and> decode_all crc c (length xs) (w @ rest) = (Some (map with_length xs), rest)"
    using assms
  proof (induction xs)
    case (Cons x xs)
    from Cons obtain w where w: "\<And>out. encode_all crc xs out = (Ok (), out @ w)"
      "decode_all crc c (length xs) (w @ rest) = (Some (map with_length xs), rest)" by auto
    from Cons.prems codec_step [of c x crc] obtain f where f: "\<And>dst. codec_encode crc x dst = (Ok (), dst @ f)"
      "\<And>rest. codec_decode crc c (f @ rest) = (Ok (Some (with_length x)), rest)" by auto
    show ?case using f w by (intro exI [of _ "f @ w"]) simp
  qed simp
  then show ?thesis by blast
qed

theorem codec_stream_round_trip_witness:
  "let m = MB_Msg \<lparr>msg_flags = 2, msg_sections = \<lparr>sec_body = [5, 0, 0, 0, 0], sec_sequences = []\<rparr>, msg_checksum = None\<rparr>;
       q = MB_Query (op_query_handshake [5, 0, 0, 0, 0]);
       xs = [(header_new 1 0 Query, q), (header_new 2 0 Msg, m)]
   in \<exists>w. encode_all (\<lambda>_. 0) xs [9] = (Ok (), [9] @ w)
     \<and> decode_all (\<lambda>_. 0) (mongo_codec_new codec_config_default) 2 (w @ [8]) = (Some (map with_length xs), [8])"
proof -
  let ?m = "\<lparr>msg_flags = 2, msg_sections = \<lparr>sec_body = [5, 0, 0, 0, 0], sec_sequences = []\<rparr>, msg_checksum = None\<rparr>"
  let ?q = "op_query_handshake [5, 0, 0, 0, 0]"
  have "op_query_body_len ?q = 28" by (simp add: op_query_body_len_def op_query_handshake_def eval_simps)
  then have "list_all (sendable (mongo_codec_new codec_config_default)) [(header_new 1 0 Query, MB_Query ?q), (header_new 2 0 Msg, MB_Msg ?m)]"
    using op_query_handshake_ok [OF empty_doc_ok] sample_msg_ok
    by (simp add: sendable_def header_new_def mongo_codec_new_def codec_config_default_def sample_body_len)
  from codec_stream_round_trip [OF this, of "\<lambda>_. 0" "[9]" "[8]"] show ?thesis
    unfolding Let_def by (simp add: numeral_2_eq_2)
qed

section \<open>What the decoder returns\<close>

lemma codec_decode_Some:
  assumes "codec_decode crc c src = (Ok (Some (h, m)), rest)"
  obtains f where "src = f @ rest" "length f = 16 + message_body_len m" "length f \<le> 48000000"
    "int (length f) \<le> sint (max_msg_len (codec_conf c))" "sint (message_length h) = int (length f)"
    "message_ok m" "message_opcode m = op_code h"
proof -
  from assms obtain f where f: "src = f @ rest" "good_frame crc (max_msg_len (codec_conf c)) f h m"
    by (auto simp: codec_decode_def parse_message_Some)
  then have hp: "header_parse (take 16 f) (max_msg_len (codec_conf c)) = Ok h" by (simp add: good_frame_def)
  have "message_ok m" "message_opcode m = op_code h" "length f = 16 + message_body_len m"
    using f(2) body.parse_ok [of "op_code h" "drop 16 f" m] by (auto simp: good_frame_def)
  moreover have "sint (message_length h) = int (length f)" "int (length f) \<le> sint (max_msg_len (codec_conf c))" "length f \<le> 48000000"
    using f(2) header_length [OF hp] hp by (auto simp: good_frame_def header_parse_Ok header_ok_def)
  ultimately show thesis using f(1) that by blast
qed

text \<open>
  (C15) Every message the decoder returns is well typed: its parts satisfy the invariants of their types
  (validated documents, known flags, a checksum exactly when flagged, UTF-8 names), its opcode is the
  header's, the header's length is the bytes it took, and, without a checksum, it can be sent again.
\<close>

theorem decoded_message_typed:
  assumes "codec_decode crc c src = (Ok (Some (h, m)), rest)"
  shows "message_ok m \<and> message_opcode m = op_code h
    \<and> sint (message_length h) = int (length src) - int (length rest) \<and> length src = 16 + message_body_len m + length rest
    \<and> ((\<forall>y. m = MB_Msg y \<longrightarrow> msg_checksum y = None) \<longrightarrow> sendable c (h, m))"
  using assms by (rule codec_decode_Some) (simp add: sendable_def)

text \<open>
  (C16) Draining a buffer ends: every message the decoder returns takes at least sixteen bytes, so a
  buffer of \<open>n\<close> bytes yields at most \<open>n div 16\<close> messages before the decoder asks for more data or
  reports an error.
\<close>

theorem decoding_terminates:
  "(\<forall>n xs rest. decode_all crc c n src = (Some xs, rest) \<longrightarrow> 16 * n + length rest \<le> length src)
   \<and> (\<exists>n xs rest. n \<le> length src div 16 \<and> decode_all crc c n src = (Some xs, rest)
        \<and> (\<forall>m rest'. codec_decode crc c rest \<noteq> (Ok (Some m), rest')))"
proof (intro conjI allI impI)
  show "16 * n + length rest \<le> length src" if "decode_all crc c n src = (Some xs, rest)" for n xs rest
    using that
  proof (induction n arbitrary: src xs)
    case (Suc n)
    then obtain m src' ys where s: "codec_decode crc c src = (Ok (Some m), src')" "decode_all crc c n src' = (Some ys, rest)"
      by (auto split: prod.splits result.splits option.splits)
    obtain h b where "m = (h, b)" by fastforce
    with s(1) have "length src' + 16 \<le> length src" by (auto elim!: codec_decode_Some)
    with Suc.IH [OF s(2)] show ?case by simp
  qed simp
  show "\<exists>n xs rest. n \<le> length src div 16 \<and> decode_all crc c n src = (Some xs, rest)
        \<and> (\<forall>m rest'. codec_decode crc c rest \<noteq> (Ok (Some m), rest'))"
  proof (induction "length src" arbitrary: src rule: less_induct)
    case less
    show ?case
    proof (cases "\<exists>m rest'. codec_decode crc c src = (Ok (Some m), rest')")
      case True
      then obtain h b rest' where s: "codec_decode crc c src = (Ok (Some (h, b)), rest')" by fastforce
      then have l: "length rest' + 16 \<le> length src" by (auto elim!: codec_decode_Some)
      with less [of rest'] obtain n xs rest where n: "n \<le> length rest' div 16" "decode_all crc c n rest' = (Some xs, rest)"
          "\<forall>m rest''. codec_decode crc c rest \<noteq> (Ok (Some m), rest'')" by auto
      have "(length rest' + 16) div 16 \<le> length src div 16" using l by (rule div_le_mono)
      then have "Suc n \<le> length src div 16" using n(1) by simp
      with n s show ?thesis by (intro exI [of _ "Suc n"]) simp
    next
      case False
      then show ?thesis by (intro exI [of _ 0]) auto
    qed
  qed
qed

theorem decoding_terminates_witness:
  "\<exists>n xs rest. n \<le> 2 \<and> decode_all (\<lambda>_. 0) (mongo_codec_new codec_config_default) n (replicate 40 0) = (Some xs, rest)"
  using decoding_terminates [of "\<lambda>_. 0" "mongo_codec_new codec_config_default" "replicate 40 0"] by auto

theorem decoded_message_typed_witness:
  "let m = MB_Msg \<lparr>msg_flags = 2, msg_sections = \<lparr>sec_body = [5, 0, 0, 0, 0], sec_sequences = []\<rparr>, msg_checksum = None\<rparr>;
       c = mongo_codec_new codec_config_default
   in \<exists>src h. codec_decode (\<lambda>_. 0) c src = (Ok (Some (h, m)), [7]) \<and> sendable c (h, m)"
proof -
  let ?m = "\<lparr>msg_flags = 2, msg_sections = \<lparr>sec_body = [5, 0, 0, 0, 0], sec_sequences = []\<rparr>, msg_checksum = None\<rparr>"
  let ?c = "mongo_codec_new codec_config_default"
  have "sendable ?c (header_new 2 0 Msg, MB_Msg ?m)"
    using sample_msg_ok by (simp add: sendable_def header_new_def mongo_codec_new_def codec_config_default_def sample_body_len)
  from codec_step [OF this, of "\<lambda>_. 0"] obtain src h where s: "codec_decode (\<lambda>_. 0) ?c src = (Ok (Some (h, MB_Msg ?m)), [7])"
    by (fastforce simp: with_length_def)
  from decoded_message_typed [OF this] s show ?thesis unfolding Let_def by auto
qed

end
