(* ===== verification/Rust_Str.thy ===== *)
theory Rust_Str
  imports Prelude
begin

text \<open>
  The \<open>str\<close> and slice operations of the Rust standard library that authentication uses: splitting,
  prefixes, replacing and decimal parsing, with their laws.
\<close>

section \<open>Splitting and prefixes\<close>

text \<open>\<open>str::split\<close> and \<open>slice::split\<close> on one separator: never empty, the separators dropped.\<close>

fun split_on :: "'a \<Rightarrow> 'a list \<Rightarrow> 'a list list" where
  "split_on c [] = [[]]"
| "split_on c (x # xs) =
     (if x = c then [] # split_on c xs
      else case split_on c xs of p # ps \<Rightarrow> (x # p) # ps | [] \<Rightarrow> [[x]])"

lemma split_on_not_Nil [simp]: "split_on c xs \<noteq> []"
  by (cases xs) (auto split: list.splits)

lemma split_on_none [simp]: "c \<notin> set a \<Longrightarrow> split_on c a = [a]"
  by (induction a) auto

lemma split_on_append [simp]: "c \<notin> set a \<Longrightarrow> split_on c (a @ c # b) = a # split_on c b"
  by (induction a) auto

lemma split_on_parts: "p \<in> set (split_on c xs) \<Longrightarrow> c \<notin> set p"
  by (induction xs arbitrary: p) (auto split: list.splits if_splits)

fun join :: "'a \<Rightarrow> 'a list list \<Rightarrow> 'a list" where
  "join c [] = []"
| "join c [p] = p"
| "join c (p # q # ps) = p @ c # join c (q # ps)"

lemma join_Cons: "ps \<noteq> [] \<Longrightarrow> join c (p # ps) = p @ c # join c ps"
  by (cases ps) auto

lemma join_split_on [simp]: "join c (split_on c xs) = xs"
proof (induction xs)
  case (Cons x xs)
  obtain p ps where s: "split_on c xs = p # ps" by (cases "split_on c xs") auto
  then show ?case using Cons by (cases ps) (auto simp: join_Cons)
qed simp

lemma split_on_join: "ps \<noteq> [] \<Longrightarrow> \<forall>p \<in> set ps. c \<notin> set p \<Longrightarrow> split_on c (join c ps) = ps"
  by (induction c ps rule: join.induct) auto

text \<open>\<open>str::starts_with\<close> and \<open>str::strip_prefix\<close>.\<close>

definition starts_with :: "'a list \<Rightarrow> 'a list \<Rightarrow> bool" where
  "starts_with s p \<longleftrightarrow> take (length p) s = p"

definition strip_prefix :: "'a list \<Rightarrow> 'a list \<Rightarrow> 'a list option" where
  "strip_prefix s p = (if starts_with s p then Some (drop (length p) s) else None)"

lemma starts_with_append [simp]: "starts_with (p @ s) p"
  by (simp add: starts_with_def)

lemma strip_prefix_append [simp]: "strip_prefix (p @ s) p = Some s"
  by (simp add: strip_prefix_def)

lemma starts_with_iff: "starts_with s p \<longleftrightarrow> (\<exists>r. s = p @ r)"
  unfolding starts_with_def by (metis append_eq_conv_conj)

lemma strip_prefix_Some: "strip_prefix s p = Some r \<longleftrightarrow> s = p @ r"
  by (auto simp: strip_prefix_def starts_with_iff)

section \<open>Replacing\<close>

text \<open>
  \<open>str::replace\<close> of one character, and of a non-empty pattern: occurrences are found from the left
  and do not overlap.
\<close>

definition replace_char :: "'a \<Rightarrow> 'a list \<Rightarrow> 'a list \<Rightarrow> 'a list" where
  "replace_char c r s = concat (map (\<lambda>x. if x = c then r else [x]) s)"

function replace_str :: "'a list \<Rightarrow> 'a list \<Rightarrow> 'a list \<Rightarrow> 'a list" where
  "replace_str pat r s =
     (if s = [] then []
      else if pat \<noteq> [] \<and> starts_with s pat then r @ replace_str pat r (drop (length pat) s)
      else hd s # replace_str pat r (tl s))"
  by pat_completeness auto
termination
  by (relation "measure (\<lambda>(_, _, s). length s)") auto

declare replace_str.simps [simp del]

lemma replace_str_Nil [simp]: "replace_str pat r [] = []"
  by (simp add: replace_str.simps)

lemma replace_str_hit [simp]: "pat \<noteq> [] \<Longrightarrow> replace_str pat r (pat @ s) = r @ replace_str pat r s"
  by (subst replace_str.simps) simp

lemma replace_str_skip [simp]: "x \<noteq> y \<Longrightarrow> replace_str (y # pat) r (x # s) = x # replace_str (y # pat) r s"
  by (subst replace_str.simps) (simp add: starts_with_def)

lemma replace_str_skip2 [simp]: "z \<noteq> w \<Longrightarrow> replace_str (y # z # pat) r (y # w # s) = y # replace_str (y # z # pat) r (w # s)"
  by (subst replace_str.simps) (simp add: starts_with_def)

section \<open>Decimal parsing\<close>

text \<open>\<open>str::parse::<u32>\<close>: an optional plus sign, then at least one digit, checked for overflow.\<close>

definition is_digit :: "char \<Rightarrow> bool" where
  "is_digit c \<longleftrightarrow> 48 \<le> (of_char c :: nat) \<and> (of_char c :: nat) \<le> 57"

definition digits_val :: "string \<Rightarrow> nat" where
  "digits_val s = foldl (\<lambda>n c. 10 * n + (of_char c - 48)) 0 s"

definition parse_u32 :: "string \<Rightarrow> u32 option" where
  "parse_u32 s =
     (let ds = (case strip_prefix s ''+'' of Some r \<Rightarrow> r | None \<Rightarrow> s) in
      if ds = [] \<or> \<not> list_all is_digit ds then None
      else if digits_val ds < 2 ^ 32 then Some (u32_of_nat (digits_val ds)) else None)"

lemma digits_val_show [simp]: "digits_val (show_nat n) = n"
proof (induction n rule: show_nat.induct)
  case (1 n)
  show ?case
  proof (cases "n < 10")
    case True
    then show ?thesis by (simp add: show_nat.simps [of n] digits_val_def of_char_of)
  next
    case False
    then have "digits_val (show_nat n) = 10 * digits_val (show_nat (n div 10)) + n mod 10"
      by (simp add: show_nat.simps [of n] digits_val_def of_char_of)
    then show ?thesis using False 1 by simp
  qed
qed

lemma show_nat_all_digits: "list_all is_digit (show_nat n)"
  using show_nat_digits by (auto simp: list_all_iff is_digit_def)

lemma show_nat_first: "show_nat n \<noteq> CHR ''+'' # r"
  using show_nat_digits [of "CHR ''+''" n] by (auto simp: of_char_Char)

lemma parse_u32_show [simp]: "parse_u32 (show_nat (unat w)) = Some w"
proof -
  have "strip_prefix (show_nat (unat w)) ''+'' = None"
    using show_nat_first by (auto simp: strip_prefix_def starts_with_iff)
  moreover have "unat w < 2 ^ 32" using unsigned_less [where ?'a = nat, of w] by simp
  ultimately show ?thesis by (simp add: parse_u32_def show_nat_all_digits)
qed

lemma show_nat_no_char: "\<not> is_digit c \<Longrightarrow> c \<notin> set (show_nat n)"
  using show_nat_all_digits [of n] by (auto simp: list_all_iff)

section \<open>UTF-8 under concatenation and replacement\<close>

lemma utf8_append: "utf8 a \<Longrightarrow> utf8 z \<Longrightarrow> utf8 (a @ z)"
proof (induction a rule: utf8.induct)
  case (2 b bs)
  note h = 2(1-4) 2(6) 2(5) [unfolded utf8.simps(2) [of b bs]]
  show ?case
    unfolding append_Cons utf8.simps(2) [of b "bs @ z"]
    using h by (auto simp del: utf8.simps split: if_splits list.splits)
qed simp

lemma wf_str_append: "wf_str a \<Longrightarrow> wf_str b \<Longrightarrow> wf_str (a @ b)"
  by (simp add: wf_str_def utf8_append)

lemma utf8_subst:
  assumes "\<And>b. b < 0x80 \<Longrightarrow> list_all (\<lambda>x. x < 0x80) (f b)" and "\<And>b. \<not> b < 0x80 \<Longrightarrow> f b = [b]"
  shows "utf8 bs \<Longrightarrow> utf8 (concat (map f bs))"
proof (induction bs rule: utf8.induct)
  case (2 b bs)
  note h = 2(1-4) 2(5) [unfolded utf8.simps(2) [of b bs]]
  have hi: "f x = [x]" if "0x80 \<le> x" for x using assms(2) that by auto
  have hi2: "f x = [x]" if "0xA0 \<le> x \<or> 0x90 \<le> x" for x using hi [of x] that by (auto simp: word_le_nat_alt)
  show ?case
  proof (cases "b < 0x80")
    case True
    with h show ?thesis by (simp add: utf8_append utf8_ascii assms(1) del: utf8.simps)
  next
    case False
    show ?thesis
      unfolding list.map concat.simps assms(2) [OF False] append_Cons append_Nil
        utf8.simps(2) [of b "concat (map f bs)"]
      using h False by (auto simp: hi hi2 utf8_cont_def simp del: utf8.simps split: if_splits list.splits)
  qed
qed simp

lemma wf_str_Nil [simp]: "wf_str []"
  by (simp add: eval_simps)

lemma wf_str_Cons: "(of_char c :: nat) < 128 \<Longrightarrow> wf_str (c # s) \<longleftrightarrow> wf_str s"
  by (simp add: wf_str_def as_bytes_def byte_of_char_def word_less_nat_alt unat_of_nat)

lemmas wf_lit = wf_str_Cons of_char_Char

end
