(* ===== verification/Auth_Plain.thy ===== *)
theory Auth_Plain
  imports Rust_Str
begin

text \<open>
  Authentication errors (\<open>mongo_common/src/auth/mod.rs\<close>) and the PLAIN payload
  (\<open>mongo_common/src/auth/plain.rs\<close>).
\<close>

section \<open>Model\<close>

datatype auth_error =
    AE_InvalidMessage string
  | AE_Failure string
  | AE_NonceMismatch
  | AE_ServerSignatureMismatch
  | AE_ClientProofMismatch
  | AE_State

text \<open>The \<open>Display\<close> texts.\<close>

fun auth_error_display :: "auth_error \<Rightarrow> string" where
  "auth_error_display (AE_InvalidMessage m) = ''invalid authentication message: '' @ m"
| "auth_error_display (AE_Failure m) = ''authentication failed: '' @ m"
| "auth_error_display AE_NonceMismatch = ''nonce mismatch''"
| "auth_error_display AE_ServerSignatureMismatch = ''server signature mismatch''"
| "auth_error_display AE_ClientProofMismatch = ''client proof mismatch''"
| "auth_error_display AE_State = ''authentication step out of order''"

record plain_message =
  authz_id :: string
  authc_id :: string
  plain_password :: string

definition plain_as_utf8 :: "bytes \<Rightarrow> (auth_error, string) result" where
  "plain_as_utf8 b = ok_or (AE_InvalidMessage ''payload is not valid UTF-8'') (from_utf8 b)"

definition parse_client_payload :: "bytes \<Rightarrow> (auth_error, plain_message) result" where
  "parse_client_payload payload =
     (let parts = split_on 0 payload in
      if length parts \<noteq> 3 then Err (AE_InvalidMessage ''expected two NUL separators'')
      else andthen (andthen (index_at parts 0) plain_as_utf8) (\<lambda>a.
           andthen (andthen (index_at parts 1) plain_as_utf8) (\<lambda>b.
           andthen (andthen (index_at parts 2) plain_as_utf8) (\<lambda>p.
           Ok \<lparr>authz_id = a, authc_id = b, plain_password = p\<rparr>))))"

definition build_client_payload :: "string \<Rightarrow> string \<Rightarrow> string \<Rightarrow> bytes" where
  "build_client_payload a b p = as_bytes a @ [0] @ as_bytes b @ [0] @ as_bytes p"

section \<open>Properties\<close>

lemma parse_payload_three:
  "split_on 0 payload = [a, b, p] \<Longrightarrow> parse_client_payload payload =
     andthen (plain_as_utf8 a) (\<lambda>a. andthen (plain_as_utf8 b) (\<lambda>b. andthen (plain_as_utf8 p) (\<lambda>p.
       Ok \<lparr>authz_id = a, authc_id = b, plain_password = p\<rparr>)))"
  by (simp add: parse_client_payload_def)

text \<open>
  (C36) PLAIN payloads: building a payload from three identities without NUL bytes and parsing it gives
  them back; conversely a payload that parses is exactly the one built from the result, whose parts
  contain no NUL; no payload makes the parser panic.
\<close>

theorem plain_round_trip:
  "parse_client_payload payload \<noteq> Panic
   \<and> (wf_str a \<and> wf_str b \<and> wf_str p \<and> 0 \<notin> set (as_bytes (a @ b @ p)) \<longrightarrow>
        parse_client_payload (build_client_payload a b p) = Ok \<lparr>authz_id = a, authc_id = b, plain_password = p\<rparr>)
   \<and> (\<forall>m. parse_client_payload payload = Ok m \<longrightarrow>
        payload = build_client_payload (authz_id m) (authc_id m) (plain_password m)
        \<and> 0 \<notin> set (as_bytes (authz_id m @ authc_id m @ plain_password m)))"
proof -
  have parsed: "payload = build_client_payload (authz_id m) (authc_id m) (plain_password m)
      \<and> 0 \<notin> set (as_bytes (authz_id m @ authc_id m @ plain_password m))"
    if ok: "parse_client_payload payload = Ok m" for m
  proof -
    from ok have "length (split_on 0 payload) = 3" by (auto simp: parse_client_payload_def Let_def split: if_splits)
    then obtain x y z where s: "split_on 0 payload = [x, y, z]" by (auto simp: numeral_3_eq_3 length_Suc_conv)
    have "payload = x @ 0 # y @ 0 # z" using join_split_on [of 0 payload] by (simp add: s)
    moreover have "0 \<notin> set x" "0 \<notin> set y" "0 \<notin> set z" using split_on_parts [of _ 0 payload] by (auto simp: s)
    moreover have "x = as_bytes (authz_id m)" "y = as_bytes (authc_id m)" "z = as_bytes (plain_password m)"
      using ok unfolding parse_payload_three [OF s] by (auto simp: andthen_eq_Ok plain_as_utf8_def from_utf8_Some)
    ultimately show ?thesis by (simp add: build_client_payload_def)
  qed
  have "parse_client_payload payload \<noteq> Panic"
    by (auto simp: parse_client_payload_def Let_def andthen_eq_Panic plain_as_utf8_def index_at_def)
  moreover have "parse_client_payload (build_client_payload a b p) = Ok \<lparr>authz_id = a, authc_id = b, plain_password = p\<rparr>"
    if "wf_str a" "wf_str b" "wf_str p" "0 \<notin> set (as_bytes (a @ b @ p))"
  proof -
    have s: "split_on 0 (build_client_payload a b p) = [as_bytes a, as_bytes b, as_bytes p]"
      using that by (simp add: build_client_payload_def)
    show ?thesis unfolding parse_payload_three [OF s] using that by (simp add: plain_as_utf8_def)
  qed
  ultimately show ?thesis using parsed by blast
qed

theorem plain_round_trip_witness:
  "parse_client_payload (build_client_payload '''' ''user'' ''pw'') = Ok \<lparr>authz_id = '''', authc_id = ''user'', plain_password = ''pw''\<rparr>"
proof -
  have "wf_str ''''" "wf_str ''user''" "wf_str ''pw''" "0 \<notin> set (as_bytes ('''' @ ''user'' @ ''pw''))"
    by (simp_all add: eval_simps)
  with plain_round_trip [of "[]" "''''" "''user''" "''pw''"] show ?thesis by blast
qed

end
