(* ===== verification/Scram.thy ===== *)
theory Scram
  imports Auth_Plain Bson_Scalar
begin

text \<open>
  SCRAM (\<open>mongo_common/src/auth/scram.rs\<close>): attribute lists, credentials, and the client and server
  state machines.  The hash, HMAC, PBKDF2, MD5 and base64 crates are the parameter record \<open>crypto\<close>;
  random bytes are arguments.
\<close>

unbundle bit_operations_syntax

section \<open>Model\<close>

datatype scram_mechanism = Sha1 | Sha256

fun mechanism_name :: "scram_mechanism \<Rightarrow> string" where
  "mechanism_name Sha1 = ''SCRAM-SHA-1''"
| "mechanism_name Sha256 = ''SCRAM-SHA-256''"

definition mechanism_from_name :: "string \<Rightarrow> scram_mechanism option" where
  "mechanism_from_name n =
     (if n = ''SCRAM-SHA-1'' then Some Sha1 else if n = ''SCRAM-SHA-256'' then Some Sha256 else None)"

fun default_iterations :: "scram_mechanism \<Rightarrow> u32" where
  "default_iterations Sha1 = 10000"
| "default_iterations Sha256 = 15000"

text \<open>
  The cryptographic crates: MD5, and per mechanism PBKDF2, HMAC and the digest, and standard base64.
\<close>

record crypto =
  md5_digest :: "bytes \<Rightarrow> bytes"
  pbkdf2_array :: "scram_mechanism \<Rightarrow> bytes \<Rightarrow> bytes \<Rightarrow> u32 \<Rightarrow> bytes"
  hmac_mac :: "scram_mechanism \<Rightarrow> bytes \<Rightarrow> bytes \<Rightarrow> bytes"
  sha_digest :: "scram_mechanism \<Rightarrow> bytes \<Rightarrow> bytes"
  b64_encode :: "bytes \<Rightarrow> string"
  b64_decode :: "string \<Rightarrow> bytes option"

abbreviation (input) USERNAME_KEY :: string where "USERNAME_KEY \<equiv> ''n''"
abbreviation (input) NONCE_KEY :: string where "NONCE_KEY \<equiv> ''r''"
abbreviation (input) SALT_KEY :: string where "SALT_KEY \<equiv> ''s''"
abbreviation (input) ITERATION_KEY :: string where "ITERATION_KEY \<equiv> ''i''"
abbreviation (input) CHANNEL_BINDING_KEY :: string where "CHANNEL_BINDING_KEY \<equiv> ''c''"
abbreviation (input) PROOF_KEY :: string where "PROOF_KEY \<equiv> ''p''"
abbreviation (input) VERIFIER_KEY :: string where "VERIFIER_KEY \<equiv> ''v''"
abbreviation (input) ERROR_KEY :: string where "ERROR_KEY \<equiv> ''e''"
abbreviation (input) NO_CHANNEL_BINDING_FLAG :: string where "NO_CHANNEL_BINDING_FLAG \<equiv> ''biws''"
abbreviation (input) GS2_NO_BINDING_HEADER :: string where "GS2_NO_BINDING_HEADER \<equiv> ''n,,''"
abbreviation (input) MAX_SCRAM_ITERATIONS :: u32 where "MAX_SCRAM_ITERATIONS \<equiv> 1000000"

definition to_lower_hex :: "bytes \<Rightarrow> string" where
  "to_lower_hex bs = concat (map (\<lambda>b. [HEX_DIGITS ! unat (b div 16), HEX_DIGITS ! unat (b mod 16)]) bs)"

definition mongo_sha1_password :: "crypto \<Rightarrow> string \<Rightarrow> string \<Rightarrow> string" where
  "mongo_sha1_password c user pw =
     to_lower_hex (md5_digest c (as_bytes user @ as_bytes '':mongo:'' @ as_bytes pw))"

definition salted_password :: "crypto \<Rightarrow> scram_mechanism \<Rightarrow> bytes \<Rightarrow> bytes \<Rightarrow> u32 \<Rightarrow> bytes" where
  "salted_password c m pw salt iterations = pbkdf2_array c m pw salt iterations"

definition hmac_bytes :: "crypto \<Rightarrow> scram_mechanism \<Rightarrow> bytes \<Rightarrow> bytes \<Rightarrow> bytes" where
  "hmac_bytes c m key input = hmac_mac c m key input"

definition hash_bytes :: "crypto \<Rightarrow> scram_mechanism \<Rightarrow> bytes \<Rightarrow> bytes" where
  "hash_bytes c m input = sha_digest c m input"

definition xor_bytes :: "bytes \<Rightarrow> bytes \<Rightarrow> ('e, bytes) result" where
  "xor_bytes lhs rhs = debug_assert (length lhs = length rhs) (Ok (map2 (XOR) lhs rhs))"

definition escape_username :: "string \<Rightarrow> string" where
  "escape_username u = replace_char (CHR '','') ''=2C'' (replace_char (CHR ''='') ''=3D'' u)"

definition effective_password :: "crypto \<Rightarrow> scram_mechanism \<Rightarrow> string \<Rightarrow> string \<Rightarrow> string" where
  "effective_password c m user pw = (case m of Sha1 \<Rightarrow> mongo_sha1_password c user pw | Sha256 \<Rightarrow> pw)"

text \<open>\<open>generate_nonce\<close>, from the 18 random bytes drawn.\<close>

definition generate_nonce :: "crypto \<Rightarrow> bytes \<Rightarrow> string" where
  "generate_nonce c rnd = b64_encode c rnd"

text \<open>
  The number of bytes of the first character of a well-formed string, and one attribute
  \<open>X=value\<close> where \<open>X\<close> is one character.
\<close>

definition char_len :: "string \<Rightarrow> nat" where
  "char_len s = (case s of [] \<Rightarrow> 0
     | ch # _ \<Rightarrow> (let b = (of_char ch :: nat) in
         if b < 0x80 then 1 else if b < 0xE0 then 2 else if b < 0xF0 then 3 else 4))"

definition parse_attribute :: "string \<Rightarrow> (auth_error, string \<times> string) result" where
  "parse_attribute attr =
     (let eq_offset = char_len attr in
      if attr \<noteq> [] \<and> eq_offset < length attr \<and> attr ! eq_offset = CHR ''=''
      then Ok (take eq_offset attr, drop (eq_offset + 1) attr)
      else Err (AE_InvalidMessage ''malformed SCRAM attribute''))"

definition parse_attributes :: "string \<Rightarrow> (auth_error, (string \<times> string) list) result" where
  "parse_attributes msg = traverse parse_attribute (split_on (CHR '','') msg)"

record stored_credentials =
  cred_salt :: bytes
  cred_iterations :: u32
  cred_stored_key :: bytes
  cred_server_key :: bytes

definition derive :: "crypto \<Rightarrow> scram_mechanism \<Rightarrow> string \<Rightarrow> bytes \<Rightarrow> u32 \<Rightarrow> stored_credentials" where
  "derive c m pw salt iterations =
     (let salted = salted_password c m (as_bytes pw) salt iterations;
          client_key = hmac_bytes c m salted (as_bytes ''Client Key'');
          skey = hash_bytes c m client_key;
          server_key = hmac_bytes c m salted (as_bytes ''Server Key'')
      in \<lparr>cred_salt = salt, cred_iterations = iterations, cred_stored_key = skey, cred_server_key = server_key\<rparr>)"

record server_first =
  sf_nonce :: string
  sf_salt :: bytes
  sf_iterations :: u32

fun server_first_loop :: "crypto \<Rightarrow> (string \<times> string) list \<Rightarrow> string option \<Rightarrow> bytes option \<Rightarrow> u32 option
    \<Rightarrow> (auth_error, string option \<times> bytes option \<times> u32 option) result" where
  "server_first_loop c [] nonce salt iterations = Ok (nonce, salt, iterations)"
| "server_first_loop c ((key, v) # attrs) nonce salt iterations =
     (if key = NONCE_KEY \<and> nonce = None then server_first_loop c attrs (Some v) salt iterations
      else if key = SALT_KEY \<and> salt = None then
        andthen (ok_or (AE_InvalidMessage ''invalid base64 salt'') (b64_decode c v)) (\<lambda>b.
        server_first_loop c attrs nonce (Some b) iterations)
      else if key = ITERATION_KEY \<and> iterations = None then
        andthen (ok_or (AE_InvalidMessage ''invalid iteration count'') (parse_u32 v)) (\<lambda>n.
        if n = 0 \<or> n > MAX_SCRAM_ITERATIONS then Err (AE_InvalidMessage ''iteration count out of range'')
        else server_first_loop c attrs nonce salt (Some n))
      else server_first_loop c attrs nonce salt iterations)"

definition server_first_parse :: "crypto \<Rightarrow> string \<Rightarrow> (auth_error, server_first) result" where
  "server_first_parse c msg =
     andthen (parse_attributes msg) (\<lambda>attrs.
     andthen (server_first_loop c attrs None None None) (\<lambda>(nonce, salt, iterations).
     andthen (ok_or (AE_InvalidMessage ''missing server nonce'')
       (case nonce of Some n \<Rightarrow> if n \<noteq> [] then Some n else None | None \<Rightarrow> None)) (\<lambda>nonce.
     andthen (ok_or (AE_InvalidMessage ''missing salt'') salt) (\<lambda>salt.
     andthen (ok_or (AE_InvalidMessage ''missing iteration count'') iterations) (\<lambda>iterations.
     Ok \<lparr>sf_nonce = nonce, sf_salt = salt, sf_iterations = iterations\<rparr>)))))"

datatype client_state = C_Init | C_FirstSent | C_FinalSent | C_Done

record scram_client =
  cl_mechanism :: scram_mechanism
  cl_username :: string
  cl_password :: string
  cl_nonce :: string
  cl_server_first :: "server_first option"
  cl_salted_password :: "bytes option"
  cl_auth_message :: string
  cl_state :: client_state

definition client_with_nonce :: "scram_mechanism \<Rightarrow> string \<Rightarrow> string \<Rightarrow> string \<Rightarrow> scram_client" where
  "client_with_nonce m user effective nonce =
     \<lparr>cl_mechanism = m, cl_username = user, cl_password = effective, cl_nonce = nonce, cl_server_first = None,
      cl_salted_password = None, cl_auth_message = [], cl_state = C_Init\<rparr>"

definition scram_client_new :: "crypto \<Rightarrow> bytes \<Rightarrow> scram_mechanism \<Rightarrow> string \<Rightarrow> string \<Rightarrow> (auth_error, scram_client) result" where
  "scram_client_new c rnd m user pw =
     Ok (client_with_nonce m user (effective_password c m user pw) (generate_nonce c rnd))"

definition client_first_message :: "scram_client \<Rightarrow> (auth_error, string) result \<times> scram_client" where
  "client_first_message s =
     (if cl_state s \<noteq> C_Init then (Err AE_State, s)
      else let bare = USERNAME_KEY @ ''='' @ escape_username (cl_username s) @ '','' @ NONCE_KEY @ ''='' @ cl_nonce s
        in (Ok (''n,,'' @ bare), s\<lparr>cl_auth_message := bare, cl_state := C_FirstSent\<rparr>))"

definition receive_server_first :: "crypto \<Rightarrow> string \<Rightarrow> scram_client \<Rightarrow> (auth_error, unit) result \<times> scram_client" where
  "receive_server_first c msg s =
     (if cl_state s \<noteq> C_FirstSent \<or> cl_server_first s \<noteq> None then (Err AE_State, s)
      else keep s (server_first_parse c msg) (\<lambda>sf.
        if \<not> starts_with (sf_nonce sf) (cl_nonce s) then (Err AE_NonceMismatch, s)
        else let salted = salted_password c (cl_mechanism s) (as_bytes (cl_password s)) (sf_salt sf) (sf_iterations sf)
          in (Ok (), s\<lparr>cl_auth_message := cl_auth_message s @ '','' @ msg @ '','',
                       cl_salted_password := Some salted, cl_server_first := Some sf\<rparr>)))"

text \<open>The client-final message without its proof.\<close>

definition final_without_proof :: "string \<Rightarrow> string" where
  "final_without_proof full_nonce = CHANNEL_BINDING_KEY @ ''='' @ NO_CHANNEL_BINDING_FLAG @ '','' @ NONCE_KEY @ ''='' @ full_nonce"

definition client_final_message :: "crypto \<Rightarrow> scram_client \<Rightarrow> (auth_error, string) result \<times> scram_client" where
  "client_final_message c s =
     (if cl_state s \<noteq> C_FirstSent then (Err AE_State, s)
      else keep s (ok_or AE_State (cl_server_first s)) (\<lambda>sf.
        keep s (ok_or AE_State (cl_salted_password s)) (\<lambda>salted.
        let m = cl_mechanism s;
            client_key = hmac_bytes c m salted (as_bytes ''Client Key'');
            skey = hash_bytes c m client_key;
            without_proof = final_without_proof (sf_nonce sf);
            s = s\<lparr>cl_auth_message := cl_auth_message s @ without_proof\<rparr>;
            client_signature = hmac_bytes c m skey (as_bytes (cl_auth_message s)) in
        keep s (xor_bytes client_key client_signature) (\<lambda>pf.
        (Ok (without_proof @ '','' @ PROOF_KEY @ ''='' @ b64_encode c pf), s\<lparr>cl_state := C_FinalSent\<rparr>)))))"

definition receive_server_final :: "crypto \<Rightarrow> string \<Rightarrow> scram_client \<Rightarrow> (auth_error, unit) result \<times> scram_client" where
  "receive_server_final c msg s =
     (if cl_state s \<noteq> C_FinalSent then (Err AE_State, s)
      else keep s (parse_attributes msg) (\<lambda>attrs. case attrs of
        [(key, v)] \<Rightarrow>
          (if key = ERROR_KEY then (Err (AE_Failure v), s)
           else if key = VERIFIER_KEY then
             keep s (ok_or (AE_InvalidMessage ''invalid base64 server signature'') (b64_decode c v)) (\<lambda>received.
             keep s (ok_or AE_State (cl_salted_password s)) (\<lambda>salted.
             let server_key = hmac_bytes c (cl_mechanism s) salted (as_bytes ''Server Key'');
                 expected = hmac_bytes c (cl_mechanism s) server_key (as_bytes (cl_auth_message s)) in
             if length expected = length received \<and> expected = received
             then (Ok (), s\<lparr>cl_state := C_Done\<rparr>) else (Err AE_ServerSignatureMismatch, s)))
           else (Err (AE_InvalidMessage ''expected v= or e= in server-final message''), s))
      | _ \<Rightarrow> (Err (AE_InvalidMessage ''malformed server-final message''), s)))"

datatype server_state = ExpectClientFirst | ExpectClientFinal | S_Done

record scram_server =
  sv_mechanism :: scram_mechanism
  sv_nonce :: string
  sv_client_first_bare :: string
  sv_server_first_message :: string
  sv_state :: server_state
  sv_username :: string
  sv_client_nonce :: string
  sv_credentials :: "stored_credentials option"

definition server_with_nonce :: "scram_mechanism \<Rightarrow> string \<Rightarrow> scram_server" where
  "server_with_nonce m nonce =
     \<lparr>sv_mechanism = m, sv_nonce = nonce, sv_client_first_bare = [], sv_server_first_message = [],
      sv_state = ExpectClientFirst, sv_username = [], sv_client_nonce = [], sv_credentials = None\<rparr>"

definition scram_server_new :: "crypto \<Rightarrow> bytes \<Rightarrow> scram_mechanism \<Rightarrow> scram_server" where
  "scram_server_new c rnd m = server_with_nonce m (generate_nonce c rnd)"

text \<open>The checks of \<open>handle_client_first\<close>: the bare message and the client nonce.\<close>

definition check_client_first :: "string \<Rightarrow> (auth_error, string \<times> string) result" where
  "check_client_first msg =
     andthen (case strip_prefix msg GS2_NO_BINDING_HEADER of
         Some bare \<Rightarrow> Ok bare
       | None \<Rightarrow> if starts_with msg ''y,,'' \<or> starts_with msg ''p=''
                 then Err (AE_InvalidMessage ''channel binding is not supported'')
                 else Err (AE_InvalidMessage ''invalid GS2 header'')) (\<lambda>bare.
     andthen (parse_attributes bare) (\<lambda>attrs.
     if list_ex (\<lambda>(key, _). key = ''m'') attrs then Err (AE_InvalidMessage ''mandatory extension not supported'')
     else case attrs of
       (k1, _) # rest \<Rightarrow>
         (if k1 \<noteq> USERNAME_KEY then Err (AE_InvalidMessage ''expected n=<username> attribute'')
          else (case rest of
            (k2, client_nonce) # _ \<Rightarrow>
              (if k2 \<noteq> NONCE_KEY then Err (AE_InvalidMessage ''expected r=<nonce> attribute'')
               else if client_nonce = [] then Err (AE_InvalidMessage ''missing client nonce'')
               else Ok (bare, client_nonce))
          | [] \<Rightarrow> Err (AE_InvalidMessage ''expected r=<nonce> attribute'')))
     | [] \<Rightarrow> Err (AE_InvalidMessage ''expected n=<username> attribute'')))"

definition handle_client_first ::
    "crypto \<Rightarrow> string \<Rightarrow> string \<Rightarrow> stored_credentials \<Rightarrow> scram_server \<Rightarrow> (auth_error, string) result \<times> scram_server" where
  "handle_client_first c msg user creds s =
     (if sv_state s \<noteq> ExpectClientFirst then (Err AE_State, s)
      else keep s (check_client_first msg) (\<lambda>(bare, client_nonce).
        let full_nonce = client_nonce @ sv_nonce s;
            reply = NONCE_KEY @ ''='' @ full_nonce @ '','' @ SALT_KEY @ ''='' @ b64_encode c (cred_salt creds)
              @ '','' @ ITERATION_KEY @ ''='' @ show_nat (unat (cred_iterations creds))
        in (Ok reply, s\<lparr>sv_client_first_bare := bare, sv_client_nonce := client_nonce, sv_username := user,
              sv_credentials := Some creds, sv_server_first_message := reply, sv_state := ExpectClientFinal\<rparr>)))"

fun client_final_loop :: "(string \<times> string) list \<Rightarrow> string option \<Rightarrow> string option \<Rightarrow> string option
    \<Rightarrow> (auth_error, string option \<times> string option \<times> string option) result" where
  "client_final_loop [] cb nonce pf = Ok (cb, nonce, pf)"
| "client_final_loop ((key, v) # attrs) cb nonce pf =
     (if key = CHANNEL_BINDING_KEY \<and> cb = None then client_final_loop attrs (Some v) nonce pf
      else if key = NONCE_KEY \<and> nonce = None then client_final_loop attrs cb (Some v) pf
      else if key = PROOF_KEY \<and> pf = None then client_final_loop attrs cb nonce (Some v)
      else Err (AE_InvalidMessage ''unexpected attribute in client-final message''))"

definition server_auth_message :: "scram_server \<Rightarrow> string" where
  "server_auth_message s = sv_client_first_bare s @ '','' @ sv_server_first_message s @ '',''
     @ final_without_proof (sv_client_nonce s @ sv_nonce s)"

text \<open>The checks of \<open>handle_client_final\<close> up to the recovered client key.\<close>

definition check_client_final :: "crypto \<Rightarrow> string \<Rightarrow> stored_credentials \<Rightarrow> scram_server \<Rightarrow> (auth_error, string) result" where
  "check_client_final c msg creds s =
     andthen (parse_attributes msg) (\<lambda>attrs.
     andthen (client_final_loop attrs None None None) (\<lambda>(cb, nonce, pf).
     if cb \<noteq> Some NO_CHANNEL_BINDING_FLAG then Err (AE_InvalidMessage ''expected c=biws channel binding'')
     else let full_nonce = sv_client_nonce s @ sv_nonce s in
     if nonce \<noteq> Some full_nonce then Err AE_NonceMismatch
     else andthen (ok_or (AE_InvalidMessage ''missing p=<proof> attribute'') pf) (\<lambda>b64.
     andthen (ok_or (AE_InvalidMessage ''invalid base64 client proof'') (b64_decode c b64)) (\<lambda>pf.
     let m = sv_mechanism s;
         auth = as_bytes (server_auth_message s);
         client_signature = hmac_bytes c m (cred_stored_key creds) auth in
     if length pf \<noteq> length client_signature then Err (AE_InvalidMessage ''client proof has the wrong length'')
     else andthen (xor_bytes pf client_signature) (\<lambda>client_key.
     if hash_bytes c m client_key \<noteq> cred_stored_key creds then Err AE_ClientProofMismatch
     else let server_signature = hmac_bytes c m (cred_server_key creds) auth
       in Ok (VERIFIER_KEY @ ''='' @ b64_encode c server_signature))))))"

definition handle_client_final :: "crypto \<Rightarrow> string \<Rightarrow> scram_server \<Rightarrow> (auth_error, string) result \<times> scram_server" where
  "handle_client_final c msg s =
     (if sv_state s \<noteq> ExpectClientFinal then (Err AE_State, s)
      else keep s (ok_or AE_State (sv_credentials s)) (\<lambda>creds.
        keep s (check_client_final c msg creds s) (\<lambda>reply.
        (Ok reply, s\<lparr>sv_state := S_Done\<rparr>))))"

section \<open>The contract of the cryptographic crates\<close>

fun digest_len :: "scram_mechanism \<Rightarrow> nat" where
  "digest_len Sha1 = 20"
| "digest_len Sha256 = 32"

text \<open>
  What the crates document: an HMAC has the length of its digest whatever the key, base64 decoding
  undoes encoding, the standard alphabet is ASCII without a comma, and four characters are written
  for at most three bytes.
\<close>

definition crypto_ok :: "crypto \<Rightarrow> bool" where
  "crypto_ok c \<longleftrightarrow> (\<forall>m k x. length (hmac_mac c m k x) = digest_len m)
     \<and> (\<forall>b. b64_decode c (b64_encode c b) = Some b) \<and> (\<forall>b. CHR '','' \<notin> set (b64_encode c b))
     \<and> (\<forall>b. ascii_str (b64_encode c b)) \<and> (\<forall>b. length (b64_encode c b) \<le> 4 * length b + 4)"

text \<open>An instance: keyed padding instead of hashing, and hexadecimal digits instead of base64.\<close>

definition pad_digest :: "scram_mechanism \<Rightarrow> bytes \<Rightarrow> bytes" where
  "pad_digest m b = take (digest_len m) (b @ replicate 32 0x5C)"

definition toy_crypto :: crypto where
  "toy_crypto = \<lparr>md5_digest = take 16, pbkdf2_array = (\<lambda>m p s i. pad_digest m (p @ s)),
     hmac_mac = (\<lambda>m k x. pad_digest m (x @ k)), sha_digest = (\<lambda>m x. pad_digest m (0x36 # x)),
     b64_encode = to_hex,
     b64_decode = (\<lambda>s. case from_hex_pairs (as_bytes s) of Ok b \<Rightarrow> Some b | _ \<Rightarrow> None)\<rparr>"

lemma HEX_DIGITS_no_comma: "n < 16 \<Longrightarrow> HEX_DIGITS ! n \<noteq> CHR '',''"
  by (auto simp: HEX_DIGITS_def less_Suc_eq_0_disj numeral_eq_Suc)

lemma nibble_bounds: "unat (drop_bit 4 (b :: u8)) < 16" "unat (b AND 0x0F :: u8) < 16"
  using unat_hi_nibble [of b] unat_lo_nibble [of b] unat_byte_less [of b] by auto

lemma to_hex_no_comma: "CHR '','' \<notin> set (to_hex b)"
  using HEX_DIGITS_no_comma [symmetric] nibble_bounds by (auto simp: to_hex_def)

lemma HEX_DIGITS_ascii: "n < 16 \<Longrightarrow> (of_char (HEX_DIGITS ! n) :: nat) < 128"
  by (auto simp: HEX_DIGITS_def less_Suc_eq_0_disj numeral_eq_Suc)

lemma to_hex_ascii: "ascii_str (to_hex b)"
  using HEX_DIGITS_ascii nibble_bounds by (auto simp: to_hex_def ascii_str_def list_all_iff)

lemma toy_crypto_ok: "crypto_ok toy_crypto"
proof -
  have "length (pad_digest m b) = digest_len m" for m b by (cases m) (simp_all add: pad_digest_def)
  then show ?thesis by (simp add: crypto_ok_def toy_crypto_def from_hex_pairs_to_hex to_hex_no_comma
      to_hex_ascii)
qed

section \<open>Attribute lists\<close>

lemma parse_attribute_key: "(of_char k :: nat) < 128 \<Longrightarrow> parse_attribute (k # CHR ''='' # v) = Ok ([k], v)"
  by (simp add: parse_attribute_def char_len_def Let_def)

lemma parse_attribute_panic [simp, panic_free]: "parse_attribute a \<noteq> Panic"
  by (simp add: parse_attribute_def Let_def)

lemma parse_attributes_panic [simp, panic_free]: "parse_attributes a \<noteq> Panic"
  by (simp add: parse_attributes_def traverse_not_Panic)

lemma parse_attributes_one:
  "CHR '','' \<notin> set v \<Longrightarrow> (of_char k :: nat) < 128 \<Longrightarrow> k \<noteq> CHR '','' \<Longrightarrow> parse_attributes (k # CHR ''='' # v) = Ok [([k], v)]"
  by (simp add: parse_attributes_def parse_attribute_key)

lemma parse_attributes_cons:
  "CHR '','' \<notin> set v \<Longrightarrow> (of_char k :: nat) < 128 \<Longrightarrow> k \<noteq> CHR '','' \<Longrightarrow>
     parse_attributes (k # CHR ''='' # v @ CHR '','' # r) = andthen (parse_attributes r) (\<lambda>as. Ok (([k], v) # as))"
  using split_on_append [of "CHR '',''" "k # CHR ''='' # v" r]
  by (simp add: parse_attributes_def parse_attribute_key)

lemmas parse_attributes_simps = parse_attributes_one parse_attributes_cons

section \<open>User names\<close>

lemma escape_simps [simp]:
  "escape_username [] = []"
  "escape_username (CHR ''='' # u) = ''=3D'' @ escape_username u"
  "escape_username (CHR '','' # u) = ''=2C'' @ escape_username u"
  "x \<noteq> CHR ''='' \<Longrightarrow> x \<noteq> CHR '','' \<Longrightarrow> escape_username (x # u) = x # escape_username u"
  by (simp_all add: escape_username_def replace_char_def)

lemma escape_no_comma [simp]: "CHR '','' \<notin> set (escape_username u)"
  by (auto simp: escape_username_def replace_char_def split: if_splits)

text \<open>Undoing the escapes in the opposite order recovers the name.\<close>

lemma unescape_escape: "replace_str ''=3D'' ''='' (replace_str ''=2C'' '','' (escape_username u)) = u"
proof (induction u)
  case (Cons x u)
  have hit: "replace_str ''=3D'' ''='' (CHR ''='' # CHR ''3'' # CHR ''D'' # s) = CHR ''='' # replace_str ''=3D'' ''='' s"
    and hit2: "replace_str ''=2C'' '','' (CHR ''='' # CHR ''2'' # CHR ''C'' # s) = CHR '','' # replace_str ''=2C'' '','' s" for s
    using replace_str_hit [of "''=3D''" "''=''" s] replace_str_hit [of "''=2C''" "'',''" s] by simp_all
  consider "x = CHR ''=''" | "x = CHR '',''" | "x \<noteq> CHR ''=''" "x \<noteq> CHR '',''" by blast
  then show ?case
    by cases (use Cons hit hit2 in \<open>simp_all\<close>)
qed simp

section \<open>The exchange\<close>

lemma xor_bytes_Ok [simp]: "length a = length b \<Longrightarrow> xor_bytes a b = Ok (map2 (XOR) a b)"
  by (simp add: xor_bytes_def)

lemma xor_cancel: "length a = length b \<Longrightarrow> map2 (XOR) (map2 (XOR) a b) b = (a :: bytes)"
proof (induction a b rule: list_induct2)
  case (Cons x xs y ys)
  then show ?case by (simp add: xor.assoc)
qed simp

lemma length_hmac [simp]: "crypto_ok c \<Longrightarrow> length (hmac_bytes c m k x) = digest_len m"
  by (simp add: crypto_ok_def hmac_bytes_def)

lemma crypto_b64 [simp]: "crypto_ok c \<Longrightarrow> b64_decode c (b64_encode c b) = Some b"
  "crypto_ok c \<Longrightarrow> CHR '','' \<notin> set (b64_encode c b)"
  "crypto_ok c \<Longrightarrow> ascii_str (b64_encode c b)"
  by (simp_all add: crypto_ok_def)

text \<open>The messages of an honest exchange.\<close>

definition first_bare :: "string \<Rightarrow> string \<Rightarrow> string" where
  "first_bare user cn = ''n='' @ escape_username user @ '',r='' @ cn"

definition first_reply :: "crypto \<Rightarrow> string \<Rightarrow> stored_credentials \<Rightarrow> string" where
  "first_reply c nonce creds = ''r='' @ nonce @ '',s='' @ b64_encode c (cred_salt creds) @ '',i='' @ show_nat (unat (cred_iterations creds))"

definition nonce_ok :: "string \<Rightarrow> bool" where
  "nonce_ok n \<longleftrightarrow> n \<noteq> [] \<and> CHR '','' \<notin> set n"

lemma first_bare_attributes:
  "nonce_ok cn \<Longrightarrow> parse_attributes (first_bare user cn) = Ok [(''n'', escape_username user), (''r'', cn)]"
  by (simp add: first_bare_def nonce_ok_def parse_attributes_simps)

lemma first_reply_parse:
  assumes "crypto_ok c" "nonce_ok nonce" "cred_iterations creds \<noteq> 0" "cred_iterations creds \<le> 1000000"
  shows "server_first_parse c (first_reply c nonce creds) =
    Ok \<lparr>sf_nonce = nonce, sf_salt = cred_salt creds, sf_iterations = cred_iterations creds\<rparr>"
proof -
  have "CHR '','' \<notin> set (show_nat (unat (cred_iterations creds)))"
    by (rule show_nat_no_char) (simp add: is_digit_def)
  then have "parse_attributes (first_reply c nonce creds) =
      Ok [(''r'', nonce), (''s'', b64_encode c (cred_salt creds)), (''i'', show_nat (unat (cred_iterations creds)))]"
    using assms by (simp add: first_reply_def nonce_ok_def parse_attributes_simps)
  then show ?thesis using assms by (simp add: server_first_parse_def nonce_ok_def not_less)
qed

lemma check_client_first_honest:
  "nonce_ok cn \<Longrightarrow> check_client_first (''n,,'' @ first_bare user cn) = Ok (first_bare user cn, cn)"
  using strip_prefix_append [of "''n,,''" "first_bare user cn"]
  by (simp add: check_client_first_def first_bare_attributes nonce_ok_def)

lemma final_attributes:
  "nonce_ok nonce \<Longrightarrow> CHR '','' \<notin> set p \<Longrightarrow>
     parse_attributes (final_without_proof nonce @ '',p='' @ p) = Ok [(''c'', ''biws''), (''r'', nonce), (''p'', p)]"
  using parse_attributes_cons [of "''biws''" "CHR ''c''" "''r='' @ nonce @ '',p='' @ p"]
  by (simp add: final_without_proof_def nonce_ok_def parse_attributes_simps)

lemma client_first_honest:
  "client_first_message (client_with_nonce m user pw cn) = (Ok (''n,,'' @ first_bare user cn),
     (client_with_nonce m user pw cn)\<lparr>cl_auth_message := first_bare user cn, cl_state := C_FirstSent\<rparr>)"
  by (simp add: client_first_message_def client_with_nonce_def first_bare_def Let_def)

lemma handle_client_first_honest:
  assumes "nonce_ok cn"
  shows "handle_client_first c (''n,,'' @ first_bare user cn) user creds (server_with_nonce m sn) =
    (Ok (first_reply c (cn @ sn) creds), (server_with_nonce m sn)\<lparr>sv_client_first_bare := first_bare user cn,
       sv_client_nonce := cn, sv_username := user, sv_credentials := Some creds,
       sv_server_first_message := first_reply c (cn @ sn) creds, sv_state := ExpectClientFinal\<rparr>)"
  using check_client_first_honest [OF assms, of user]
  by (simp add: handle_client_first_def server_with_nonce_def first_reply_def Let_def)

lemma nonce_ok_append: "nonce_ok a \<Longrightarrow> nonce_ok b \<Longrightarrow> nonce_ok (a @ b)"
  by (simp add: nonce_ok_def)

text \<open>The keys and the proof an honest party computes.\<close>

definition client_key_of :: "crypto \<Rightarrow> scram_mechanism \<Rightarrow> string \<Rightarrow> bytes \<Rightarrow> u32 \<Rightarrow> bytes" where
  "client_key_of c m pw salt it = hmac_bytes c m (salted_password c m (as_bytes pw) salt it) (as_bytes ''Client Key'')"

definition honest_proof :: "crypto \<Rightarrow> scram_mechanism \<Rightarrow> string \<Rightarrow> bytes \<Rightarrow> u32 \<Rightarrow> string \<Rightarrow> bytes" where
  "honest_proof c m pw salt it auth =
     map2 (XOR) (client_key_of c m pw salt it)
       (hmac_bytes c m (hash_bytes c m (client_key_of c m pw salt it)) (as_bytes auth))"

lemma check_client_final_honest:
  assumes "crypto_ok c" "nonce_ok (sv_client_nonce s @ sv_nonce s)" "creds = derive c (sv_mechanism s) pw salt it"
  shows "check_client_final c (final_without_proof (sv_client_nonce s @ sv_nonce s) @ '',p='' @
      b64_encode c (honest_proof c (sv_mechanism s) pw salt it (server_auth_message s))) creds s =
    Ok (''v='' @ b64_encode c (hmac_bytes c (sv_mechanism s) (cred_server_key creds) (as_bytes (server_auth_message s))))"
  using final_attributes [OF assms(2), of "b64_encode c (honest_proof c (sv_mechanism s) pw salt it (server_auth_message s))"] assms
  by (simp add: check_client_final_def derive_def honest_proof_def client_key_of_def xor_cancel Let_def)

lemma scram_exchange:
  assumes "crypto_ok c" and "nonce_ok cn" and "nonce_ok sn" and "it \<noteq> 0" and "it \<le> 1000000"
  shows "\<exists>pf sg c1 c2 c3 c4 s1 s2.
      client_first_message (client_with_nonce m user pw cn) = (Ok (''n,,'' @ first_bare user cn), c1)
    \<and> handle_client_first c (''n,,'' @ first_bare user cn) user (derive c m pw salt it) (server_with_nonce m sn)
        = (Ok (first_reply c (cn @ sn) (derive c m pw salt it)), s1)
    \<and> receive_server_first c (first_reply c (cn @ sn) (derive c m pw salt it)) c1 = (Ok (), c2)
    \<and> client_final_message c c2 = (Ok (final_without_proof (cn @ sn) @ '',p='' @ b64_encode c pf), c3)
    \<and> handle_client_final c (final_without_proof (cn @ sn) @ '',p='' @ b64_encode c pf) s1 = (Ok (''v='' @ b64_encode c sg), s2)
    \<and> receive_server_final c (''v='' @ b64_encode c sg) c3 = (Ok (), c4)
    \<and> cl_state c4 = C_Done \<and> sv_state s2 = S_Done \<and> sv_username s2 = user
    \<and> length pf = digest_len m \<and> length sg = digest_len m"
proof -
  let ?d = "derive c m pw salt it" and ?n = "cn @ sn" and ?b = "first_bare user cn"
  let ?r = "first_reply c ?n ?d"
  let ?c1 = "(client_with_nonce m user pw cn)\<lparr>cl_auth_message := ?b, cl_state := C_FirstSent\<rparr>"
  let ?s1 = "(server_with_nonce m sn)\<lparr>sv_client_first_bare := ?b, sv_client_nonce := cn, sv_username := user,
      sv_credentials := Some ?d, sv_server_first_message := ?r, sv_state := ExpectClientFinal\<rparr>"
  let ?salted = "salted_password c m (as_bytes pw) salt it"
  let ?sf = "\<lparr>sf_nonce = ?n, sf_salt = salt, sf_iterations = it\<rparr>"
  let ?c2 = "?c1\<lparr>cl_auth_message := ?b @ '','' @ ?r @ '','', cl_salted_password := Some ?salted, cl_server_first := Some ?sf\<rparr>"
  let ?auth = "server_auth_message ?s1"
  let ?pf = "honest_proof c m pw salt it ?auth"
  let ?m3 = "final_without_proof ?n @ '',p='' @ b64_encode c ?pf"
  let ?c3 = "?c2\<lparr>cl_auth_message := ?auth, cl_state := C_FinalSent\<rparr>"
  let ?m4 = "''v='' @ b64_encode c (hmac_bytes c m (cred_server_key ?d) (as_bytes ?auth))"
  have n: "nonce_ok ?n" using assms nonce_ok_append by simp
  have auth: "?b @ '','' @ ?r @ '','' @ final_without_proof ?n = ?auth"
    by (simp add: server_auth_message_def server_with_nonce_def)
  have p: "server_first_parse c ?r = Ok ?sf"
    using first_reply_parse [OF assms(1) n, of ?d] assms by (simp add: derive_def Let_def)
  have 2: "receive_server_first c ?r ?c1 = (Ok (), ?c2)"
    by (simp add: receive_server_first_def p client_with_nonce_def)
  have 3: "client_final_message c ?c2 = (Ok ?m3, ?c3)"
    unfolding auth [symmetric] using assms(1)
    by (simp add: client_final_message_def client_with_nonce_def honest_proof_def client_key_of_def Let_def)
  have 4: "handle_client_final c ?m3 ?s1 = (Ok ?m4, ?s1\<lparr>sv_state := S_Done\<rparr>)"
    using check_client_final_honest [OF assms(1), of ?s1 ?d pw salt it] n
    by (simp add: handle_client_final_def server_with_nonce_def)
  have "parse_attributes ?m4 = Ok [(''v'', b64_encode c (hmac_bytes c m (cred_server_key ?d) (as_bytes ?auth)))]"
    using assms(1) by (simp add: parse_attributes_simps)
  then have 5: "receive_server_final c ?m4 ?c3 = (Ok (), ?c3\<lparr>cl_state := C_Done\<rparr>)"
    using assms(1) by (simp add: receive_server_final_def client_with_nonce_def derive_def Let_def)
  have "length ?pf = digest_len m" using assms(1) by (simp add: honest_proof_def client_key_of_def)
  then show ?thesis
    using client_first_honest [of m user pw cn] handle_client_first_honest [OF assms(2), of c user ?d m sn] 2 3 4 5 assms(1)
    by (intro exI conjI) (assumption | simp)+
qed

section \<open>Properties\<close>

text \<open>
  (C21) Completeness: for any user name (commas and equal signs included), password, salt and iteration
  count from 1 to 1,000,000, a client and a server holding the credentials derived from the same
  password complete the exchange: every step succeeds, both machines end in their final state, and
  the server reports the user.
\<close>

theorem scram_completeness:
  assumes "crypto_ok c" and "nonce_ok cn" and "nonce_ok sn" and "it \<noteq> 0" and "it \<le> 1000000"
  shows "\<exists>m1 m2 m3 m4 c1 c2 c3 c4 s1 s2.
      client_first_message (client_with_nonce m user pw cn) = (Ok m1, c1)
    \<and> handle_client_first c m1 user (derive c m pw salt it) (server_with_nonce m sn) = (Ok m2, s1)
    \<and> receive_server_first c m2 c1 = (Ok (), c2)
    \<and> client_final_message c c2 = (Ok m3, c3)
    \<and> handle_client_final c m3 s1 = (Ok m4, s2)
    \<and> receive_server_final c m4 c3 = (Ok (), c4)
    \<and> cl_state c4 = C_Done \<and> sv_state s2 = S_Done \<and> sv_username s2 = user"
  using scram_exchange [OF assms, of m user pw salt] by (elim exE conjE, intro exI conjI) assumption+

theorem scram_completeness_witness:
  "\<exists>m1 m2 m3 m4 c1 c2 c3 c4 s1 s2.
      client_first_message (client_with_nonce Sha256 ''a,b=c'' ''pencil'' ''cn'') = (Ok m1, c1)
    \<and> handle_client_first toy_crypto m1 ''a,b=c'' (derive toy_crypto Sha256 ''pencil'' [1, 2] 4096) (server_with_nonce Sha256 ''sn'') = (Ok m2, s1)
    \<and> receive_server_first toy_crypto m2 c1 = (Ok (), c2)
    \<and> client_final_message toy_crypto c2 = (Ok m3, c3)
    \<and> handle_client_final toy_crypto m3 s1 = (Ok m4, s2)
    \<and> receive_server_final toy_crypto m4 c3 = (Ok (), c4)
    \<and> cl_state c4 = C_Done \<and> sv_state s2 = S_Done \<and> sv_username s2 = ''a,b=c''"
  by (rule scram_completeness [OF toy_crypto_ok]) (simp_all add: nonce_ok_def)

lemma client_final_loop_attrs:
  assumes "client_final_loop attrs cb nonce pf = Ok (cb', nonce', pf')"
  shows "(nonce' = nonce \<or> (\<exists>v. nonce' = Some v \<and> (''r'', v) \<in> set attrs))
    \<and> (pf' = pf \<or> (\<exists>v. pf' = Some v \<and> (''p'', v) \<in> set attrs))"
  using assms by (induction attrs cb nonce pf rule: client_final_loop.induct) (auto split: if_splits)

lemma check_client_final_Ok:
  assumes "check_client_final c msg creds s = Ok reply"
  shows "\<exists>attrs b64 pf. parse_attributes msg = Ok attrs
    \<and> client_final_loop attrs None None None = Ok (Some ''biws'', Some (sv_client_nonce s @ sv_nonce s), Some b64)
    \<and> b64_decode c b64 = Some pf
    \<and> length pf = length (hmac_bytes c (sv_mechanism s) (cred_stored_key creds) (as_bytes (server_auth_message s)))
    \<and> hash_bytes c (sv_mechanism s) (map2 (XOR) pf (hmac_bytes c (sv_mechanism s) (cred_stored_key creds)
         (as_bytes (server_auth_message s)))) = cred_stored_key creds
    \<and> reply = ''v='' @ b64_encode c (hmac_bytes c (sv_mechanism s) (cred_server_key creds) (as_bytes (server_auth_message s)))"
  using assms by (auto simp: check_client_final_def andthen_eq_Ok Let_def split: if_splits)

lemma handle_client_final_Ok:
  "handle_client_final c msg s = (Ok reply, s') \<longleftrightarrow> sv_state s = ExpectClientFinal \<and> s' = s\<lparr>sv_state := S_Done\<rparr>
     \<and> (\<exists>creds. sv_credentials s = Some creds \<and> check_client_final c msg creds s = Ok reply)"
  by (cases "sv_credentials s"; cases "check_client_final c msg (the (sv_credentials s)) s")
    (auto simp: handle_client_final_def)


lemma toy_final_accepted:
  "handle_client_final toy_crypto (final_without_proof ''cnsn'' @ '',p='' @ b64_encode toy_crypto
      (honest_proof toy_crypto Sha1 ''pw'' [] 1 (server_auth_message ((server_with_nonce Sha1 ''sn'')\<lparr>sv_client_nonce := ''cn'',
         sv_credentials := Some (derive toy_crypto Sha1 ''pw'' [] 1), sv_state := ExpectClientFinal\<rparr>))))
      ((server_with_nonce Sha1 ''sn'')\<lparr>sv_client_nonce := ''cn'',
         sv_credentials := Some (derive toy_crypto Sha1 ''pw'' [] 1), sv_state := ExpectClientFinal\<rparr>)
   = (Ok (''v='' @ b64_encode toy_crypto (hmac_bytes toy_crypto Sha1 (cred_server_key (derive toy_crypto Sha1 ''pw'' [] 1))
        (as_bytes (server_auth_message ((server_with_nonce Sha1 ''sn'')\<lparr>sv_client_nonce := ''cn'',
         sv_credentials := Some (derive toy_crypto Sha1 ''pw'' [] 1), sv_state := ExpectClientFinal\<rparr>))))),
      (server_with_nonce Sha1 ''sn'')\<lparr>sv_client_nonce := ''cn'',
         sv_credentials := Some (derive toy_crypto Sha1 ''pw'' [] 1), sv_state := S_Done\<rparr>)"
  using check_client_final_honest [OF toy_crypto_ok, of "(server_with_nonce Sha1 ''sn'')\<lparr>sv_client_nonce := ''cn'',
         sv_credentials := Some (derive toy_crypto Sha1 ''pw'' [] 1), sv_state := ExpectClientFinal\<rparr>"
      "derive toy_crypto Sha1 ''pw'' [] 1" "''pw''" "[]" 1]
  by (simp add: handle_client_final_def server_with_nonce_def nonce_ok_def)


text \<open>
  (C22) Replay is refused: a client-final message accepted in one exchange is rejected with a nonce
  mismatch, and changes nothing, in any other exchange whose complete nonce differs.
\<close>

theorem scram_no_replay:
  assumes "handle_client_final c msg s = (Ok reply, s')"
    and "sv_state t = ExpectClientFinal" and "sv_credentials t \<noteq> None"
    and "sv_client_nonce t @ sv_nonce t \<noteq> sv_client_nonce s @ sv_nonce s"
  shows "handle_client_final c msg t = (Err AE_NonceMismatch, t)"
proof -
  from assms(1) obtain creds where "check_client_final c msg creds s = Ok reply" by (auto simp: handle_client_final_Ok)
  from check_client_final_Ok [OF this] assms show ?thesis
    by (auto simp: handle_client_final_def check_client_final_def Let_def)
qed

theorem scram_no_replay_witness:
  "\<exists>msg s s' reply. handle_client_final toy_crypto msg s = (Ok reply, s')
     \<and> handle_client_final toy_crypto msg (s\<lparr>sv_nonce := ''other''\<rparr>) = (Err AE_NonceMismatch, s\<lparr>sv_nonce := ''other''\<rparr>)"
proof -
  let ?s = "(server_with_nonce Sha1 ''sn'')\<lparr>sv_client_nonce := ''cn'',
         sv_credentials := Some (derive toy_crypto Sha1 ''pw'' [] 1), sv_state := ExpectClientFinal\<rparr>"
  have t: "sv_state (?s\<lparr>sv_nonce := ''other''\<rparr>) = ExpectClientFinal" "sv_credentials (?s\<lparr>sv_nonce := ''other''\<rparr>) \<noteq> None"
    "sv_client_nonce (?s\<lparr>sv_nonce := ''other''\<rparr>) @ sv_nonce (?s\<lparr>sv_nonce := ''other''\<rparr>) \<noteq> sv_client_nonce ?s @ sv_nonce ?s"
    by (simp_all add: server_with_nonce_def)
  from scram_no_replay [OF toy_final_accepted t] toy_final_accepted show ?thesis by blast
qed

section \<open>The client under arbitrary calls\<close>

text \<open>A call of any method with any message, whether it succeeds or not.\<close>

inductive client_step :: "crypto \<Rightarrow> scram_client \<Rightarrow> scram_client \<Rightarrow> bool" for c where
  send_first: "client_first_message s = (r, s') \<Longrightarrow> client_step c s s'"
| recv_first: "receive_server_first c msg s = (r', s') \<Longrightarrow> client_step c s s'"
| send_final: "client_final_message c s = (r, s') \<Longrightarrow> client_step c s s'"
| recv_final: "receive_server_final c msg s = (r', s') \<Longrightarrow> client_step c s s'"

definition client_inv :: "crypto \<Rightarrow> scram_client \<Rightarrow> bool" where
  "client_inv c s \<longleftrightarrow> (case cl_server_first s of
     None \<Rightarrow> cl_salted_password s = None \<and> cl_state s \<in> {C_Init, C_FirstSent}
   | Some sf \<Rightarrow> cl_state s \<noteq> C_Init \<and> starts_with (sf_nonce sf) (cl_nonce s)
       \<and> 1 \<le> unat (sf_iterations sf) \<and> unat (sf_iterations sf) \<le> 1000000
       \<and> cl_salted_password s = Some (salted_password c (cl_mechanism s) (as_bytes (cl_password s)) (sf_salt sf) (sf_iterations sf)))"

definition same_identity :: "scram_client \<Rightarrow> scram_client \<Rightarrow> bool" where
  "same_identity s t \<longleftrightarrow> cl_mechanism s = cl_mechanism t \<and> cl_username s = cl_username t
     \<and> cl_password s = cl_password t \<and> cl_nonce s = cl_nonce t"

lemma server_first_loop_iterations:
  assumes "server_first_loop c attrs nonce salt it = Ok (nonce', salt', Some n)"
  shows "it = Some n \<or> (n \<noteq> 0 \<and> n \<le> 1000000)"
  using assms by (induction c attrs nonce salt it rule: server_first_loop.induct)
    (auto simp: andthen_eq_Ok split: if_splits)

lemma server_first_parse_iterations:
  assumes "server_first_parse c msg = Ok sf"
  shows "1 \<le> unat (sf_iterations sf) \<and> unat (sf_iterations sf) \<le> 1000000"
proof -
  from assms have "sf_iterations sf \<noteq> 0 \<and> sf_iterations sf \<le> 1000000"
    using server_first_loop_iterations by (fastforce simp: server_first_parse_def andthen_eq_Ok)
  then show ?thesis by (auto simp: word_le_nat_alt unat_eq_0 Suc_le_eq intro: ccontr)
qed

lemma client_first_inv: "client_inv c s \<Longrightarrow> client_first_message s = (r, s') \<Longrightarrow> client_inv c s' \<and> same_identity s s'"
  by (auto simp: client_first_message_def client_inv_def same_identity_def Let_def split: if_splits option.splits)

lemma recv_first_inv:
  assumes "client_inv c s" "receive_server_first c msg s = (r, s')"
  shows "client_inv c s' \<and> same_identity s s'"
proof (cases "cl_state s \<noteq> C_FirstSent \<or> cl_server_first s \<noteq> None")
  case False
  then show ?thesis
    using assms server_first_parse_iterations [of c msg]
    by (cases "server_first_parse c msg")
      (auto simp: receive_server_first_def client_inv_def same_identity_def Let_def split: if_splits)
qed (use assms in \<open>auto simp: receive_server_first_def same_identity_def\<close>)

lemma send_final_inv: "client_inv c s \<Longrightarrow> client_final_message c s = (r, s') \<Longrightarrow> client_inv c s' \<and> same_identity s s'"
  by (auto simp: client_final_message_def client_inv_def same_identity_def xor_bytes_def debug_assert_def Let_def
      split: if_splits option.splits)

lemma recv_final_state:
  "receive_server_final c msg s = (r, s') \<Longrightarrow> s' = s \<or> (s' = s\<lparr>cl_state := C_Done\<rparr> \<and> cl_state s = C_FinalSent)"
  by (auto simp: receive_server_final_def keep_def ok_or_def Let_def split: if_splits result.splits option.splits list.splits)

lemma recv_final_inv: "client_inv c s \<Longrightarrow> receive_server_final c msg s = (r, s') \<Longrightarrow> client_inv c s' \<and> same_identity s s'"
  using recv_final_state [of c msg s r s'] by (auto simp: client_inv_def same_identity_def split: option.splits)

lemma client_step_inv: "client_step c s s' \<Longrightarrow> client_inv c s \<Longrightarrow> client_inv c s' \<and> same_identity s s'"
  by (induction rule: client_step.induct) (blast dest: client_first_inv recv_first_inv send_final_inv recv_final_inv)+

lemma client_reachable:
  assumes "(client_step c)\<^sup>*\<^sup>* (client_with_nonce m user pw nonce) s"
  shows "client_inv c s \<and> same_identity (client_with_nonce m user pw nonce) s"
  using assms
proof (induction rule: rtranclp_induct)
  case (step t u)
  then show ?case using client_step_inv [of c t u] by (auto simp: same_identity_def)
qed (simp add: client_inv_def same_identity_def client_with_nonce_def)

text \<open>
  (C23) Whatever messages a server sends and in whatever order the methods are called, a client keeps
  its identity and nonce, never derives a key with an iteration count outside 1 to 1,000,000, only
  ever follows a server nonce that extends its own, and is past the first message only with a key
  derived from its own password and the server's salt and count.
\<close>

theorem scram_client_invariant:
  assumes "(client_step c)\<^sup>*\<^sup>* (client_with_nonce m user pw nonce) s"
  shows "cl_username s = user \<and> cl_nonce s = nonce
    \<and> (cl_state s = C_FinalSent \<or> cl_state s = C_Done \<longrightarrow> cl_server_first s \<noteq> None)
    \<and> (\<forall>sf. cl_server_first s = Some sf \<longrightarrow> starts_with (sf_nonce sf) nonce
         \<and> 1 \<le> unat (sf_iterations sf) \<and> unat (sf_iterations sf) \<le> 1000000
         \<and> cl_salted_password s = Some (salted_password c m (as_bytes pw) (sf_salt sf) (sf_iterations sf)))"
  using client_reachable [OF assms]
  by (auto simp: client_inv_def same_identity_def client_with_nonce_def split: option.splits)

theorem scram_client_invariant_witness:
  "\<exists>s. (client_step toy_crypto)\<^sup>*\<^sup>* (client_with_nonce Sha1 ''u'' ''pw'' ''cn'') s \<and> cl_state s = C_FirstSent
     \<and> cl_username s = ''u'' \<and> cl_nonce s = ''cn''"
proof -
  let ?s = "(client_with_nonce Sha1 ''u'' ''pw'' ''cn'')\<lparr>cl_auth_message := first_bare ''u'' ''cn'', cl_state := C_FirstSent\<rparr>"
  have r: "(client_step toy_crypto)\<^sup>*\<^sup>* (client_with_nonce Sha1 ''u'' ''pw'' ''cn'') ?s"
    using client_step.send_first [OF client_first_honest] by (rule r_into_rtranclp)
  from scram_client_invariant [OF r] r show ?thesis by (intro exI [of _ ?s]) simp
qed



end
