(* ===== verification/Bson_Convert.thy ===== *)
theory Bson_Convert
  imports Bson_Value
begin

text \<open>
  Conversions between BSON scalars and native types (\<open>mongo_common/src/bson/convert.rs\<close> and
  \<open>wirebson/src/convert.rs\<close>): integers, booleans, strings and times.
\<close>

unbundle bit_operations_syntax

section \<open>Model\<close>

subsection \<open>Integers\<close>

text \<open>
  The integral value of a double, if it is finite and integral (\<open>f.fract() == 0.0\<close>): sign, biased
  exponent and fraction of the IEEE 754 bit pattern.
\<close>

definition f64_integral :: "f64 \<Rightarrow> int option" where
  "f64_integral w =
     (let neg = bit w 63;
          e = unat (drop_bit 52 w) mod 2048;
          f = unat w mod 2 ^ 52;
          signed = (\<lambda>n :: nat. if neg then - int n else int n) in
      if e = 2047 then None
      else if e = 0 then (if f = 0 then Some 0 else None)
      else if 1075 \<le> e then Some (signed ((2 ^ 52 + f) * 2 ^ (e - 1075)))
      else if 1075 - e \<le> 52 \<and> (2 ^ 52 + f) mod 2 ^ (1075 - e) = 0
      then Some (signed ((2 ^ 52 + f) div 2 ^ (1075 - e)))
      else None)"

text \<open>\<open>f as i64\<close> on an integral value: the cast saturates.\<close>

definition int_as_i64 :: "int \<Rightarrow> int" where
  "int_as_i64 n = max (- (2 ^ 63)) (min (2 ^ 63 - 1) n)"

datatype int_type = I8 | I16 | I32 | I64 | I128 | U8 | U16 | U32 | U64

fun int_min :: "int_type \<Rightarrow> int" where
  "int_min I8 = - (2 ^ 7)"
| "int_min I16 = - (2 ^ 15)"
| "int_min I32 = - (2 ^ 31)"
| "int_min I64 = - (2 ^ 63)"
| "int_min I128 = - (2 ^ 127)"
| "int_min _ = 0"

fun int_max :: "int_type \<Rightarrow> int" where
  "int_max I8 = 2 ^ 7 - 1"
| "int_max I16 = 2 ^ 15 - 1"
| "int_max I32 = 2 ^ 31 - 1"
| "int_max I64 = 2 ^ 63 - 1"
| "int_max I128 = 2 ^ 127 - 1"
| "int_max U8 = 2 ^ 8 - 1"
| "int_max U16 = 2 ^ 16 - 1"
| "int_max U32 = 2 ^ 32 - 1"
| "int_max U64 = 2 ^ 64 - 1"

text \<open>
  \<open>try_from_numeric!\<close>: the widening match, whose guard compares with \<open>i64::MIN as f64\<close> and
  \<open>i64::MAX as f64\<close>, the latter rounded up to \<open>2^63\<close>; then the checked narrowing.
\<close>

definition int_try_from :: "int_type \<Rightarrow> scalar \<Rightarrow> (scalar_error, int) result" where
  "int_try_from t v =
     andthen (case v of
         S_Int32 i \<Rightarrow> Ok (sint i)
       | S_Int64 i \<Rightarrow> Ok (sint i)
       | S_Bool b \<Rightarrow> Ok (if b then 1 else 0)
       | S_Double f \<Rightarrow> (case f64_integral f of
           Some n \<Rightarrow> if - (2 ^ 63) \<le> n \<and> n \<le> 2 ^ 63 then Ok (int_as_i64 n) else Err SE_NotConvertible
         | None \<Rightarrow> Err SE_NotConvertible)
       | _ \<Rightarrow> Err SE_NotConvertible) (\<lambda>wide.
     if int_min t \<le> wide \<and> wide \<le> int_max t then Ok wide else Err SE_OutOfRange)"

text \<open>\<open>bson_try_numeric!\<close> on a \<open>Bson\<close>.\<close>

definition bson_int_try_from :: "int_type \<Rightarrow> bson \<Rightarrow> (bson_error, int) result" where
  "bson_int_try_from t v = (case as_scalar v of
     Some s \<Rightarrow> map_err BE_Scalar (int_try_from t s)
   | None \<Rightarrow> Err (BE_Scalar SE_NotConvertible))"

subsection \<open>Booleans and strings\<close>

definition bool_try_from :: "scalar \<Rightarrow> (scalar_error, bool) result" where
  "bool_try_from v = (case v of S_Bool b \<Rightarrow> Ok b | _ \<Rightarrow> Err SE_NotConvertible)"

definition string_try_from :: "scalar \<Rightarrow> (scalar_error, string) result" where
  "string_try_from v = (case v of
     S_String s \<Rightarrow> Ok s
   | S_JavaScript s \<Rightarrow> Ok s
   | S_Symbol s \<Rightarrow> Ok s
   | S_ObjectId oid \<Rightarrow> Ok (to_hex oid)
   | _ \<Rightarrow> Err SE_NotConvertible)"

subsection \<open>Time\<close>

text \<open>
  A \<open>SystemTime\<close> is the signed number of nanoseconds since the epoch.  \<open>as_millis() as i64\<close> truncates to
  the word; the negation of \<open>i64::MIN\<close> overflows and panics.
\<close>

type_synonym system_time = int

definition system_time_try_from :: "scalar \<Rightarrow> (scalar_error, system_time) result" where
  "system_time_try_from v = (case v of
     S_DateTime ms \<Rightarrow>
       (let d = \<bar>sint ms\<bar> * 1000000 in if 0 \<le> sint ms then Ok d else Ok (- d))
   | _ \<Rightarrow> Err SE_NotConvertible)"

definition date_time_of :: "system_time \<Rightarrow> ('e, i64) result" where
  "date_time_of t =
     (if 0 \<le> t then Ok (word_of_int (t div 1000000))
      else let ms = word_of_int (- t div 1000000) :: i64 in
        if sint ms = - (2 ^ 63) then Panic else Ok (- ms))"

definition scalar_of_system_time :: "system_time \<Rightarrow> ('e, scalar) result" where
  "scalar_of_system_time t = map_ok S_DateTime (date_time_of t)"

definition bson_of_system_time :: "system_time \<Rightarrow> ('e, bson) result" where
  "bson_of_system_time t = map_ok B_DateTime (date_time_of t)"

text \<open>\<open>TryFrom<&Scalar> for Duration\<close>, in milliseconds.\<close>

definition duration_try_from :: "scalar \<Rightarrow> (scalar_error, nat) result" where
  "duration_try_from v = (case v of
     S_Int64 ms \<Rightarrow> if 0 \<le> sint ms then Ok (unat ms) else Err SE_NotConvertible
   | _ \<Rightarrow> Err SE_NotConvertible)"

section \<open>Properties\<close>

lemma f64_2_63: "f64_integral 0x43E0000000000000 = Some (2 ^ 63)"
  by (simp add: f64_integral_def Let_def drop_bit_eq_div unat_div)

text \<open>The mathematical value of a numeric scalar.\<close>

definition scalar_value :: "scalar \<Rightarrow> int option" where
  "scalar_value v = (case v of
     S_Int32 i \<Rightarrow> Some (sint i)
   | S_Int64 i \<Rightarrow> Some (sint i)
   | S_Bool b \<Rightarrow> Some (if b then 1 else 0)
   | S_Double f \<Rightarrow> f64_integral f
   | _ \<Rightarrow> None)"

lemma sint64_bounds: "- (2 ^ 63) \<le> sint (w :: i64)" "sint (w :: i64) < 2 ^ 63"
  using sint_ge [of w] sint_lt [of w] by simp_all

lemma sint32_bounds: "- (2 ^ 31) \<le> sint (w :: i32)" "sint (w :: i32) < 2 ^ 31"
  using sint_ge [of w] sint_lt [of w] by simp_all



lemma double_2_63_saturates:
  "scalar_value (S_Double 0x43E0000000000000) = Some (2 ^ 63) \<and> int_try_from I64 (S_Double 0x43E0000000000000) = Ok (2 ^ 63 - 1)"
  using f64_2_63 by (simp add: scalar_value_def int_try_from_def int_as_i64_def)

text \<open>
  (C39) Dates survive the trip through \<open>SystemTime\<close>: every BSON date converts to a time, and the time
  converts back to the same date, except the smallest date, whose way back overflows in a negation
  and panics.
\<close>

theorem date_time_round_trip:
  "\<exists>t. system_time_try_from (S_DateTime ms) = Ok t
     \<and> scalar_of_system_time t = (if sint ms = - (2 ^ 63) then Panic else Ok (S_DateTime ms))"
proof (cases "0 \<le> sint ms")
  case True
  then have "scalar_of_system_time (sint ms * 1000000) = Ok (S_DateTime ms)"
    by (simp add: scalar_of_system_time_def date_time_of_def)
  with True show ?thesis by (simp add: system_time_try_from_def)
next
  case False
  let ?n = "- sint ms"
  have q: "- (sint ms * 1000000) div 1000000 = ?n"
    by (metis minus_mult_left nonzero_mult_div_cancel_right zero_neq_numeral)
  have "sint (- ms) = signed_take_bit 63 ?n" using sint_word_minus [of ms] by simp
  moreover have "signed_take_bit 63 ?n = ?n" if "?n \<noteq> 2 ^ 63"
    using that False sint64_bounds [of ms] by (intro signed_take_bit_int_eq_self) auto
  moreover have "signed_take_bit 63 (2 ^ 63 :: int) = - (2 ^ 63)" by simp
  ultimately have neg: "sint (- ms) = - (2 ^ 63) \<longleftrightarrow> sint ms = - (2 ^ 63)"
    using False by (cases "?n = 2 ^ 63") auto
  have "scalar_of_system_time (- (?n * 1000000)) = (if sint ms = - (2 ^ 63) then Panic else Ok (S_DateTime ms))"
    using False neg by (simp add: scalar_of_system_time_def date_time_of_def q Let_def)
  with False show ?thesis by (simp add: system_time_try_from_def)
qed

end
