(* ===== verification/Api_Base.thy ===== *)
theory Api_Base
  imports Codec Scram Bson_Convert
begin

text \<open>
  The embedding interface of the server: connection state (\<open>api/client_info.rs\<close>), commands and
  handlers (\<open>api/handler.rs\<close>) and the ready-made replies (\<open>api/response.rs\<close>).
\<close>

section \<open>Model\<close>

subsection \<open>Connections, commands and handlers\<close>

record auth_state =
  scram :: "(scram_mechanism \<times> scram_server) option"
  authenticated :: "string option"

definition auth_state_default :: auth_state where
  "auth_state_default = \<lparr>scram = None, authenticated = None\<rparr>"

record connection_info =
  request_id_counter :: i32
  peer_addr :: "string option"
  negotiated_compressors :: "compressor_id list"
  ctx_checksum :: bool
  auth :: auth_state

definition connection_info_new :: connection_info where
  "connection_info_new = \<lparr>request_id_counter = 0, peer_addr = None, negotiated_compressors = [],
     ctx_checksum = True, auth = auth_state_default\<rparr>"

text \<open>\<open>fetch_add\<close> wraps around.\<close>

definition next_request_id :: "connection_info \<Rightarrow> i32 \<times> connection_info" where
  "next_request_id ctx = (request_id_counter ctx, ctx\<lparr>request_id_counter := request_id_counter ctx + 1\<rparr>)"

record command =
  cmd_name :: string
  cmd_body :: raw_document
  cmd_sequences :: "document_sequence list"
  cmd_flags :: u32

datatype reply = ReplyMsg op_msg | NoReply

text \<open>
  What a handler draws from outside while it handles one command: the clock, random bytes, and the
  process-wide random bytes and counter of object ids.  A \<open>CommandHandler\<close> is a function of these,
  the connection and the command.
\<close>

record env =
  env_now :: system_time
  env_random :: bytes
  env_oid_random :: bytes
  env_oid_counter :: u32

type_synonym handler = "env \<Rightarrow> connection_info \<Rightarrow> command \<Rightarrow> (error, reply) result \<times> connection_info"

subsection \<open>Replies\<close>

definition error_command :: "i32 \<Rightarrow> string \<Rightarrow> string \<Rightarrow> error" where
  "error_command code code_name what = CommandError code code_name what"

definition bson_failure :: "bson_error \<Rightarrow> error" where
  "bson_failure e = Protocol (PE_Bson e)"

definition op_msg_reply :: "u32 \<Rightarrow> raw_document \<Rightarrow> (error, op_msg) result" where
  "op_msg_reply flags body = map_err Protocol (op_msg_new flags body [])"

abbreviation (input) MAX_BSON_LEN :: i32 where "MAX_BSON_LEN \<equiv> 16777216"

definition handshake_document :: "i64 \<Rightarrow> compressor_id list \<Rightarrow> i32 \<Rightarrow> bool \<Rightarrow> document" where
  "handshake_document now compressors max_len legacy_is_master =
     (let d = document_add ''ok'' (B_Double F64_ONE) document_new;
          d = (if legacy_is_master then document_add ''ismaster'' (B_Bool True) d
               else document_add ''isWritablePrimary'' (B_Bool True) d);
          d = document_add ''helloOk'' (B_Bool True) d;
          d = document_add ''maxBsonObjectSize'' (B_Int32 MAX_BSON_LEN) d;
          d = document_add ''maxMessageSizeBytes'' (B_Int32 max_len) d;
          d = document_add ''maxWriteBatchSize'' (B_Int32 100000) d;
          d = document_add ''localTime'' (B_DateTime now) d;
          d = document_add ''logicalSessionTimeoutMinutes'' (B_Int32 30) d;
          d = document_add ''connectionId'' (B_Int32 1) d;
          d = document_add ''minWireVersion'' (B_Int32 0) d;
          d = document_add ''maxWireVersion'' (B_Int32 21) d;
          d = document_add ''readOnly'' (B_Bool False) d
      in if compressors \<noteq> []
         then document_add ''compression''
                (B_Array (fold (\<lambda>cid. array_push (B_String (compressor_name cid))) compressors array_new)) d
         else d)"

definition handshake_reply :: "system_time \<Rightarrow> compressor_id list \<Rightarrow> i32 \<Rightarrow> bool \<Rightarrow> (error, op_msg) result" where
  "handshake_reply now compressors max_len legacy_is_master =
     andthen (date_time_of now) (\<lambda>ms.
     andthen (map_err bson_failure (document_encode (handshake_document ms compressors max_len legacy_is_master))) (\<lambda>raw.
     op_msg_reply 0 raw))"

definition query_handshake_reply :: "raw_document \<Rightarrow> op_reply" where
  "query_handshake_reply body = \<lparr>response_flags = 8, cursor_id = 0, starting_from = 0, number_returned = 1, documents = [body]\<rparr>"

definition ping_reply :: "(error, op_msg) result" where
  "ping_reply =
     andthen (map_err bson_failure (document_encode (document_add ''ok'' (B_Double F64_ONE) document_new))) (\<lambda>raw.
     op_msg_reply 0 raw)"

section \<open>Lemmas\<close>

text \<open>A reply built from a well-formed document of moderate size.\<close>

lemma document_encode_ok:
  assumes "wf_doc fs" "length (doc_bytes fs) \<le> 2147483647"
  shows "document_encode fs = Ok (doc_bytes fs) \<and> doc_ok (doc_bytes fs)"
proof -
  have e: "document_encode fs = Ok (doc_bytes fs)" using document_encode_layout [OF assms(1)] assms(2) by simp
  then have "frame_ok (doc_bytes fs)" by (auto simp: document_encode_def andthen_eq_Ok from_bytes_Ok)
  with e assms(2) show ?thesis by (simp add: doc_ok_def)
qed

lemma op_msg_reply_ok:
  assumes "doc_ok raw"
  shows "op_msg_reply 0 raw = Ok \<lparr>msg_flags = 0, msg_sections = \<lparr>sec_body = raw, sec_sequences = []\<rparr>, msg_checksum = None\<rparr>
    \<and> op_msg_ok \<lparr>msg_flags = 0, msg_sections = \<lparr>sec_body = raw, sec_sequences = []\<rparr>, msg_checksum = None\<rparr>"
  using assms by (simp add: op_msg_reply_def op_msg_new_def sections_new_def op_msg_ok_def flags_contain_def)

lemma fold_array_push: "fold (\<lambda>x. array_push (f x)) xs a = a @ map f xs"
  by (induction xs arbitrary: a) (simp_all add: array_push_def)

lemma wf_compressor_name [simp]: "wf_str (compressor_name cid)"
  by (cases cid) (simp_all add: eval_simps)

lemma length_compressor_name: "length (compressor_name cid) \<le> 6"
  by (cases cid) simp_all

lemma length_bson_string: "length (bson_bytes (B_String s)) = length s + 5"
  by (simp add: as_scalar_def scalar_bytes_def length_string_bytes)

lemma length_name_array:
  assumes "length xs \<le> 1000"
  shows "length (bson_bytes (B_Array (map (\<lambda>cid. B_String (compressor_name cid)) xs))) \<le> 20000"
proof -
  let ?vs = "map (\<lambda>cid. B_String (compressor_name cid)) xs"
  have el: "length (elem_bytes f) \<le> 17" if "f \<in> set (named ?vs)" for f
  proof -
    from that obtain i where i: "i < length xs" "fst f = show_nat i" "snd f = B_String (compressor_name (xs ! i))"
      by (auto simp: named_def set_zip)
    have "i < 10 ^ Suc 3" using i assms by simp
    then have "length (show_nat i) \<le> 4" using length_show_nat [of i 3] by simp
    then show ?thesis using i length_compressor_name [of "xs ! i"] by (simp add: length_bson_string del: bson_bytes.simps)
  qed
  have "sum_list (map (length \<circ> elem_bytes) (named ?vs)) \<le> 17 * length (named ?vs)"
    using sum_list_mono [of "named ?vs" "length \<circ> elem_bytes" "\<lambda>_. 17"] el by (simp add: sum_list_triv comp_def)
  moreover have "length (named ?vs) = length xs" by (simp add: named_def)
  ultimately show ?thesis using assms by (simp add: length_concat comp_def)
qed

lemma handshake_document_eq:
  "handshake_document now xs max_len legacy =
     [(''ok'', B_Double F64_ONE), (if legacy then ''ismaster'' else ''isWritablePrimary'', B_Bool True), (''helloOk'', B_Bool True),
      (''maxBsonObjectSize'', B_Int32 16777216), (''maxMessageSizeBytes'', B_Int32 max_len), (''maxWriteBatchSize'', B_Int32 100000),
      (''localTime'', B_DateTime now), (''logicalSessionTimeoutMinutes'', B_Int32 30), (''connectionId'', B_Int32 1),
      (''minWireVersion'', B_Int32 0), (''maxWireVersion'', B_Int32 21), (''readOnly'', B_Bool False)]
     @ (if xs = [] then [] else [(''compression'', B_Array (map (\<lambda>cid. B_String (compressor_name cid)) xs))])"
  by (simp add: handshake_document_def document_add_def document_new_def array_new_def fold_array_push Let_def)

lemma handshake_document_wf: "wf_doc (handshake_document now xs max_len legacy)"
  using wf_compressor_name [unfolded wf_str_def as_bytes_def]
  by (simp add: handshake_document_eq as_scalar_def scalar_ok_def list_all_iff eval_simps)

lemma handshake_document_nesting: "nesting (B_Document (handshake_document now xs max_len legacy)) \<le> 20"
proof -
  have "foldr (\<lambda>v. max (nesting v)) (map (\<lambda>cid. B_String (compressor_name cid)) xs) 0 = 0" by (induction xs) simp_all
  then show ?thesis by (simp add: handshake_document_eq)
qed

lemma handshake_document_length:
  assumes "length xs \<le> 1000"
  shows "length (doc_bytes (handshake_document now xs max_len legacy)) \<le> 30000"
  using length_name_array [OF assms]
  by (simp add: handshake_document_eq as_scalar_def scalar_bytes_def del: bson_bytes.simps(2))

text \<open>Every reply this crate builds itself is sendable and decodes to the document it was built from.\<close>

lemma handshake_reply_ok:
  fixes max_len :: i32 and legacy :: bool
  assumes "date_time_of now = (Ok ms :: (error, i64) result)" "length xs \<le> 1000"
  defines "d \<equiv> handshake_document ms xs max_len legacy"
  defines "m \<equiv> \<lparr>msg_flags = 0, msg_sections = \<lparr>sec_body = doc_bytes d, sec_sequences = []\<rparr>, msg_checksum = None\<rparr>"
  shows "handshake_reply now xs max_len legacy = Ok m \<and> op_msg_ok m \<and> deep (doc_bytes d) = Ok d"
proof -
  have len: "length (doc_bytes d) \<le> 30000" using handshake_document_length [OF assms(2)] by (simp only: d_def)
  then have l2: "length (doc_bytes d) \<le> 2147483647" "length (doc_bytes d) < 4294967296" by linarith+
  have wf: "wf_doc d" unfolding d_def by (rule handshake_document_wf)
  have "deep (doc_bytes d) = Ok d"
    using deep_doc_bytes [OF wf l2(2)] handshake_document_nesting [of ms xs max_len legacy] by (simp only: d_def if_True)
  moreover note e = document_encode_ok [OF wf l2(1)]
  moreover note op_msg_reply_ok [of "doc_bytes d"]
  ultimately show ?thesis using assms(1) by (simp add: handshake_reply_def d_def [symmetric] m_def)
qed

lemma ping_reply_ok:
  "\<exists>raw. ping_reply = Ok \<lparr>msg_flags = 0, msg_sections = \<lparr>sec_body = raw, sec_sequences = []\<rparr>, msg_checksum = None\<rparr>
     \<and> op_msg_ok \<lparr>msg_flags = 0, msg_sections = \<lparr>sec_body = raw, sec_sequences = []\<rparr>, msg_checksum = None\<rparr>
     \<and> deep raw = Ok [(''ok'', B_Double F64_ONE)]"
proof -
  let ?d = "[(''ok'', B_Double F64_ONE)]"
  have wf: "wf_doc ?d" by (simp add: as_scalar_def scalar_ok_def eval_simps)
  have len: "length (doc_bytes ?d) \<le> 2147483647" by (simp add: as_scalar_def scalar_bytes_def)
  have "deep (doc_bytes ?d) = Ok ?d" using deep_doc_bytes [OF wf] len by simp
  moreover have "document_add ''ok'' (B_Double F64_ONE) document_new = ?d" by (simp add: document_add_def document_new_def)
  ultimately show ?thesis
    using document_encode_ok [OF wf len] op_msg_reply_ok [of "doc_bytes ?d"]
    by (intro exI [of _ "doc_bytes ?d"]) (simp add: ping_reply_def)
qed

section \<open>The contract of a handler\<close>

definition error_ok :: "error \<Rightarrow> bool" where
  "error_ok e \<longleftrightarrow> (case e of CommandError _ code_name what \<Rightarrow> wf_str code_name \<and> wf_str what | Protocol _ \<Rightarrow> True)"

text \<open>An outcome that is no panic, whose value satisfies \<open>P\<close> and whose error can be sent.\<close>

definition outcome :: "('a \<Rightarrow> bool) \<Rightarrow> (error, 'a) result \<Rightarrow> bool" where
  "outcome P r \<longleftrightarrow> (case r of Ok x \<Rightarrow> P x | Err e \<Rightarrow> error_ok e | Panic \<Rightarrow> False)"

lemma outcome_eqs [simp]: "outcome P (Ok x) \<longleftrightarrow> P x" "outcome P (Err e) \<longleftrightarrow> error_ok e" "\<not> outcome P Panic"
  by (simp_all add: outcome_def)

lemma outcome_andthen [intro]:
  "outcome Q r \<Longrightarrow> (\<And>x. Q x \<Longrightarrow> outcome P (k x)) \<Longrightarrow> outcome P (andthen r k)"
  by (cases r) simp_all

lemma outcome_keep [intro]:
  "outcome Q r \<Longrightarrow> (\<And>x. Q x \<Longrightarrow> outcome P (fst (k x))) \<Longrightarrow> outcome P (fst (keep s r k))"
  by (cases r) simp_all

lemma outcome_ok_or: "outcome P (ok_or e v) \<longleftrightarrow> (case v of Some x \<Rightarrow> P x | None \<Rightarrow> error_ok e)"
  by (cases v) simp_all

lemma outcome_map_ok: "outcome P (map_ok g r) \<longleftrightarrow> outcome (\<lambda>x. P (g x)) r"
  by (cases r) simp_all

lemma outcome_bson: "r \<noteq> Panic \<Longrightarrow> (\<And>x. r = Ok x \<Longrightarrow> P x) \<Longrightarrow> outcome P (map_err bson_failure r)"
  by (cases r) (simp_all add: error_ok_def bson_failure_def)

definition sendable_msg :: "op_msg \<Rightarrow> bool" where
  "sendable_msg m \<longleftrightarrow> op_msg_ok m \<and> msg_checksum m = None"

definition reply_outcome :: "(error, reply) result \<Rightarrow> bool" where
  "reply_outcome = outcome (\<lambda>r. \<forall>m. r = ReplyMsg m \<longrightarrow> sendable_msg m)"

text \<open>Draws the code can rely on: a clock within the range of a BSON date, five random bytes per process.\<close>

definition env_ok :: "env \<Rightarrow> bool" where
  "env_ok e \<longleftrightarrow> date_time_of (env_now e) \<noteq> (Panic :: (error, i64) result) \<and> length (env_oid_random e) = 5"

locale command_handler =
  fixes handle :: handler
  assumes handle_outcome: "env_ok e \<Longrightarrow> wf_str (cmd_name cmd) \<Longrightarrow> reply_outcome (fst (handle e ctx cmd))"

text \<open>A handler that leaves the request ids and the checksum setting of the connection alone.\<close>

locale quiet_handler = command_handler +
  assumes handle_counter: "request_id_counter (snd (handle e ctx cmd)) = request_id_counter ctx"
    and handle_checksum: "ctx_checksum (snd (handle e ctx cmd)) = ctx_checksum ctx"

lemma document_reply_outcome:
  assumes "wf_doc d"
  shows "outcome sendable_msg (andthen (map_err bson_failure (document_encode d)) (\<lambda>raw. op_msg_reply 0 raw))"
proof (rule outcome_andthen)
  show "outcome doc_ok (map_err bson_failure (document_encode d))"
    using document_encode_layout [OF assms] document_encode_ok [OF assms]
    by (intro outcome_bson) (auto split: if_splits)
  show "outcome sendable_msg (op_msg_reply 0 raw)" if "doc_ok raw" for raw
    using op_msg_reply_ok [OF that] by (simp add: sendable_msg_def)
qed

lemma handshake_reply_outcome:
  assumes "date_time_of now \<noteq> (Panic :: (error, i64) result)"
  shows "outcome sendable_msg (handshake_reply now compressors max_len legacy)"
proof -
  have "date_time_of now \<noteq> (Err e :: (error, i64) result)" for e by (simp add: date_time_of_def Let_def)
  with assms obtain ms where "date_time_of now = (Ok ms :: (error, i64) result)" by (cases "date_time_of now :: (error, i64) result") auto
  then show ?thesis
    using document_reply_outcome [OF handshake_document_wf] by (simp add: handshake_reply_def)
qed

lemma ping_reply_outcome: "outcome sendable_msg ping_reply"
  unfolding ping_reply_def
  by (rule document_reply_outcome) (simp add: document_add_def document_new_def as_scalar_def scalar_ok_def eval_simps)

lemma reply_outcome_msg: "outcome sendable_msg r \<Longrightarrow> reply_outcome (map_ok ReplyMsg r)"
  by (simp add: reply_outcome_def outcome_map_ok)

end
