(* ===== verification/Api_Auth.thy ===== *)
theory Api_Auth
  imports Api_Base
begin

text \<open>
  The SASL bridge (\<open>mongowire/src/api/auth.rs\<close>): \<open>saslStart\<close> and \<open>saslContinue\<close> mapped onto the SCRAM
  server, with the exchange kept in the connection, and the in-memory credential store.
\<close>

section \<open>Model\<close>

abbreviation (input) AUTHENTICATION_FAILED :: i32 where "AUTHENTICATION_FAILED \<equiv> 18"

definition auth_failed :: "string \<Rightarrow> error" where
  "auth_failed what = error_command AUTHENTICATION_FAILED ''AuthenticationFailed'' what"

text \<open>A \<open>CredentialSource\<close> is its \<open>lookup\<close> function.\<close>

type_synonym credential_source = "scram_mechanism \<Rightarrow> string \<Rightarrow> stored_credentials option"

definition parse_mechanism :: "raw_document \<Rightarrow> (error, scram_mechanism) result" where
  "parse_mechanism body =
     andthen (map_err bson_failure (raw_get body ''mechanism'')) (\<lambda>v.
     andthen (case v of Some (R_String name) \<Rightarrow> Ok name
              | _ \<Rightarrow> Err (auth_failed ''saslStart requires a string mechanism'')) (\<lambda>name.
     ok_or (auth_failed (''unsupported authentication mechanism '' @ name)) (mechanism_from_name name)))"

definition payload_bytes :: "raw_document \<Rightarrow> (error, bytes) result" where
  "payload_bytes body =
     andthen (map_err bson_failure (raw_get body ''payload'')) (\<lambda>v. case v of
       Some (R_Binary b) \<Rightarrow> Ok (bin_bytes b)
     | Some (R_String s) \<Rightarrow> Ok (as_bytes s)
     | Some _ \<Rightarrow> Err (auth_failed ''payload must be a string or binary'')
     | None \<Rightarrow> Err (auth_failed ''missing payload''))"

definition payload_str :: "raw_document \<Rightarrow> (error, string) result" where
  "payload_str body =
     andthen (payload_bytes body) (\<lambda>b. ok_or (auth_failed ''payload is not valid UTF-8'') (from_utf8 b))"

text \<open>\<open>id as i32\<close> of an \<open>i64\<close> truncates.\<close>

definition conversation_id_of :: "raw_document \<Rightarrow> i32" where
  "conversation_id_of body = (case raw_get body ''conversationId'' of
     Ok (Some (R_Int32 n)) \<Rightarrow> n
   | Ok (Some (R_Int64 n)) \<Rightarrow> ucast n
   | _ \<Rightarrow> 1)"

definition payload_bson :: "string \<Rightarrow> bson" where
  "payload_bson s = B_Binary \<lparr>bin_subtype = Generic, bin_bytes = as_bytes s\<rparr>"

definition sasl_reply :: "i32 \<Rightarrow> bool \<Rightarrow> string \<Rightarrow> (error, op_msg) result" where
  "sasl_reply conversation_id done_flag payload =
     (let d = document_add ''conversationId'' (B_Int32 conversation_id) document_new;
          d = document_add ''done'' (B_Bool done_flag) d;
          d = document_add ''payload'' (payload_bson payload) d;
          d = document_add ''ok'' (B_Double F64_ONE) d
      in andthen (map_err bson_failure (document_encode d)) (\<lambda>raw. op_msg_reply 0 raw))"

text \<open>\<open>?\<close> inside an \<open>Option\<close> function: \<open>bind\<close>.\<close>

definition parse_client_first_username :: "string \<Rightarrow> string option" where
  "parse_client_first_username client_first =
     (let bare = (case strip_prefix client_first ''n,,'' of Some b \<Rightarrow> b | None \<Rightarrow> client_first) in
      case split_on (CHR '','') bare of
        [] \<Rightarrow> None
      | attr # _ \<Rightarrow> (case strip_prefix attr ''n='' of
          None \<Rightarrow> None
        | Some user \<Rightarrow> Some (replace_str ''=3D'' ''='' (replace_str ''=2C'' '','' user))))"

text \<open>\<open>sasl_start\<close> and \<open>sasl_continue\<close>; the state machine is in the connection.\<close>

definition sasl_start ::
    "crypto \<Rightarrow> credential_source \<Rightarrow> env \<Rightarrow> connection_info \<Rightarrow> raw_document \<Rightarrow> (error, reply) result \<times> connection_info" where
  "sasl_start c creds_of e ctx body =
     (if scram (auth ctx) \<noteq> None
      then (Err (auth_failed ''saslStart while an authentication exchange is already in progress''), ctx)
      else keep ctx (parse_mechanism body) (\<lambda>m.
        keep ctx (payload_str body) (\<lambda>client_first.
        keep ctx (ok_or (auth_failed ''malformed client-first message'') (parse_client_first_username client_first)) (\<lambda>user.
        keep ctx (ok_or (auth_failed ''Authentication failed.'') (creds_of m user)) (\<lambda>creds.
        case handle_client_first c client_first user creds (scram_server_new c (env_random e) m) of (r, server) \<Rightarrow>
        keep ctx (map_err (\<lambda>err. auth_failed (auth_error_display err)) r) (\<lambda>server_first.
        let ctx = ctx\<lparr>auth := (auth ctx)\<lparr>scram := Some (m, server)\<rparr>\<rparr> in
        (map_ok ReplyMsg (sasl_reply 1 False server_first), ctx)))))))"

definition sasl_continue ::
    "crypto \<Rightarrow> connection_info \<Rightarrow> raw_document \<Rightarrow> (error, reply) result \<times> connection_info" where
  "sasl_continue c ctx body =
     keep ctx (payload_str body) (\<lambda>client_final.
     case scram (auth ctx) of
       None \<Rightarrow> (Err (auth_failed ''saslContinue without saslStart''), ctx)
     | Some (_, server) \<Rightarrow>
         let ctx = ctx\<lparr>auth := (auth ctx)\<lparr>scram := None\<rparr>\<rparr>;
             conversation_id = conversation_id_of body in
         case handle_client_final c client_final server of (r, server) \<Rightarrow>
         keep ctx (map_err (\<lambda>err. auth_failed (auth_error_display err)) r) (\<lambda>server_final.
         let ctx = ctx\<lparr>auth := (auth ctx)\<lparr>authenticated := Some (sv_username server)\<rparr>\<rparr> in
         (map_ok ReplyMsg (sasl_reply conversation_id True server_final), ctx)))"

definition scram_bridge :: "crypto \<Rightarrow> credential_source \<Rightarrow> handler \<Rightarrow> handler" where
  "scram_bridge c creds_of inner e ctx cmd =
     (if cmd_name cmd = ''saslStart'' then sasl_start c creds_of e ctx (cmd_body cmd)
      else if cmd_name cmd = ''saslContinue'' then sasl_continue c ctx (cmd_body cmd)
      else inner e ctx cmd)"

subsection \<open>The in-memory credential store\<close>

type_synonym memory_credential_source = "(scram_mechanism \<times> string) \<rightharpoonup> stored_credentials"

definition memory_insert ::
    "crypto \<Rightarrow> scram_mechanism \<Rightarrow> string \<Rightarrow> string \<Rightarrow> memory_credential_source \<Rightarrow> memory_credential_source" where
  "memory_insert c m user pw users =
     (let effective = (case m of Sha1 \<Rightarrow> mongo_sha1_password c user pw | Sha256 \<Rightarrow> pw);
          salt = map of_nat [0..<16];
          creds = derive c m effective salt (default_iterations m)
      in users((m, user) \<mapsto> creds))"

definition memory_lookup :: "memory_credential_source \<Rightarrow> credential_source" where
  "memory_lookup users m user = users (m, user)"

section \<open>Safety\<close>

text \<open>
  The evidence behind an authenticated user: an exchange for that user, against the credentials the
  source has for it, that accepted a client-final message.
\<close>

definition proof_shown :: "crypto \<Rightarrow> credential_source \<Rightarrow> string \<Rightarrow> bool" where
  "proof_shown c creds_of user \<longleftrightarrow> (\<exists>s creds msg reply s'. sv_username s = user \<and> sv_credentials s = Some creds
     \<and> creds_of (sv_mechanism s) user = Some creds \<and> handle_client_final c msg s = (Ok reply, s'))"

definition exchange_ok :: "credential_source \<Rightarrow> (scram_mechanism \<times> scram_server) option \<Rightarrow> bool" where
  "exchange_ok creds_of x \<longleftrightarrow> (case x of None \<Rightarrow> True
     | Some (m, s) \<Rightarrow> sv_mechanism s = m \<and> sv_state s = ExpectClientFinal
         \<and> sv_credentials s \<noteq> None \<and> sv_credentials s = creds_of m (sv_username s))"

definition auth_inv :: "crypto \<Rightarrow> credential_source \<Rightarrow> connection_info \<Rightarrow> bool" where
  "auth_inv c creds_of ctx \<longleftrightarrow> exchange_ok creds_of (scram (auth ctx))
     \<and> (\<forall>user. authenticated (auth ctx) = Some user \<longrightarrow> proof_shown c creds_of user)"

lemma handle_client_first_Ok:
  "handle_client_first c msg user creds s = (Ok r, s') \<Longrightarrow>
     sv_mechanism s' = sv_mechanism s \<and> sv_state s' = ExpectClientFinal \<and> sv_credentials s' = Some creds \<and> sv_username s' = user"
  by (auto simp: handle_client_first_def keep_def Let_def split: if_splits result.splits prod.splits)

lemma sasl_start_step:
  assumes "sasl_start c creds_of e ctx body = (r, ctx')"
  shows "ctx' = ctx \<or> (scram (auth ctx) = None \<and> (\<exists>m s. ctx' = ctx\<lparr>auth := (auth ctx)\<lparr>scram := Some (m, s)\<rparr>\<rparr>
    \<and> exchange_ok creds_of (Some (m, s))))"
proof (cases "\<exists>m cf user creds sf s. scram (auth ctx) = None \<and> parse_mechanism body = Ok m \<and> payload_str body = Ok cf
    \<and> parse_client_first_username cf = Some user \<and> creds_of m user = Some creds
    \<and> handle_client_first c cf user creds (scram_server_new c (env_random e) m) = (Ok sf, s)")
  case True
  then obtain m cf user creds sf s where x: "scram (auth ctx) = None" "parse_mechanism body = Ok m" "payload_str body = Ok cf"
    "parse_client_first_username cf = Some user" "creds_of m user = Some creds"
    "handle_client_first c cf user creds (scram_server_new c (env_random e) m) = (Ok sf, s)" by blast
  then have "exchange_ok creds_of (Some (m, s))"
    using handle_client_first_Ok [OF x(6)] by (simp add: exchange_ok_def scram_server_new_def server_with_nonce_def)
  then show ?thesis using assms x by (auto simp: sasl_start_def Let_def)
next
  case False
  then show ?thesis
    using assms by (auto simp: sasl_start_def keep_def ok_or_def map_err_def Let_def
        split: if_splits result.splits option.splits prod.splits)
qed

lemma sasl_continue_step:
  assumes "sasl_continue c ctx body = (r, ctx')"
  shows "ctx' = ctx \<or> (\<exists>m s. scram (auth ctx) = Some (m, s) \<and> scram (auth ctx') = None
    \<and> (authenticated (auth ctx') = authenticated (auth ctx)
       \<or> authenticated (auth ctx') = Some (sv_username s) \<and> (\<exists>msg reply s'. handle_client_final c msg s = (Ok reply, s'))))"
proof (cases "\<exists>msg m s. payload_str body = Ok msg \<and> scram (auth ctx) = Some (m, s)")
  case True
  then obtain msg m s where x: "payload_str body = Ok msg" "scram (auth ctx) = Some (m, s)" by blast
  obtain q s' where h: "handle_client_final c msg s = (q, s')" by fastforce
  have user: "sv_username s' = sv_username s" if "q = Ok reply" for reply
    using h that by (auto simp: handle_client_final_Ok)
  show ?thesis
    using assms x h user by (cases q) (auto simp: sasl_continue_def Let_def)
next
  case False
  then show ?thesis
    using assms by (auto simp: sasl_continue_def keep_def Let_def split: result.splits option.splits)
qed

lemma scram_bridge_inv:
  assumes inv: "auth_inv c creds_of ctx" and inner: "auth (snd (inner e ctx cmd)) = auth ctx"
    and step: "scram_bridge c creds_of inner e ctx cmd = (r, ctx')"
  shows "auth_inv c creds_of ctx'"
proof -
  consider "sasl_start c creds_of e ctx (cmd_body cmd) = (r, ctx')" | "sasl_continue c ctx (cmd_body cmd) = (r, ctx')"
    | "inner e ctx cmd = (r, ctx')"
    using step by (auto simp: scram_bridge_def split: if_splits)
  then show ?thesis
  proof cases
    case 1
    from sasl_start_step [OF 1] inv show ?thesis by (auto simp: auth_inv_def)
  next
    case 2
    from sasl_continue_step [OF 2] inv show ?thesis
      by (fastforce simp: auth_inv_def exchange_ok_def proof_shown_def)
  next
    case 3
    with inner inv show ?thesis by (simp add: auth_inv_def)
  qed
qed

text \<open>Runs of the bridge: any commands, any draws, around a handler that leaves authentication alone.\<close>

inductive bridge_step :: "crypto \<Rightarrow> credential_source \<Rightarrow> handler \<Rightarrow> connection_info \<Rightarrow> connection_info \<Rightarrow> bool"
  for c creds_of inner where
  command: "scram_bridge c creds_of inner e ctx cmd = (r, ctx') \<Longrightarrow> bridge_step c creds_of inner ctx ctx'"

text \<open>
  Authentication is sound end to end: on a connection that starts fresh, whatever commands arrive
  in whatever order, a user is marked authenticated only if an exchange for that user, against the
  stored credentials of that user, has accepted a client proof; and an exchange in progress is always
  waiting for the client-final message with those credentials.
\<close>

theorem bridge_authentication_sound:
  assumes "(bridge_step c creds_of inner)\<^sup>*\<^sup>* connection_info_new ctx"
    and "\<And>e ctx cmd. auth (snd (inner e ctx cmd)) = auth ctx"
  shows "exchange_ok creds_of (scram (auth ctx))
    \<and> (\<forall>user. authenticated (auth ctx) = Some user \<longrightarrow> proof_shown c creds_of user)"
proof -
  have "auth_inv c creds_of ctx"
    using assms(1)
  proof (induction rule: rtranclp_induct)
    case base
    show ?case by (simp add: auth_inv_def exchange_ok_def connection_info_new_def auth_state_default_def)
  next
    case (step x y)
    from step(2) step(3) show ?case
      by (cases rule: bridge_step.cases) (auto intro: scram_bridge_inv assms(2))
  qed
  then show ?thesis by (simp add: auth_inv_def)
qed

theorem bridge_authentication_sound_witness:
  "let creds_of = memory_lookup (memory_insert toy_crypto Sha256 ''u'' ''pw'' Map.empty) in
   exchange_ok creds_of (scram (auth connection_info_new))
    \<and> (\<forall>user. authenticated (auth connection_info_new) = Some user \<longrightarrow> proof_shown toy_crypto creds_of user)"
  unfolding Let_def
  using bridge_authentication_sound [of toy_crypto "memory_lookup (memory_insert toy_crypto Sha256 ''u'' ''pw'' Map.empty)"
      "\<lambda>e ctx cmd. (Ok NoReply, ctx)" connection_info_new]
  by simp

section \<open>The contract of the bridge\<close>

lemma auth_failed_ok: "error_ok (auth_failed what) \<longleftrightarrow> wf_str what"
  by (simp add: auth_failed_def error_command_def error_ok_def wf_lit)

lemma sasl_reply_outcome: "outcome sendable_msg (sasl_reply cid fin payload)"
  unfolding sasl_reply_def Let_def
  by (rule document_reply_outcome)
    (simp add: document_add_def document_new_def payload_bson_def as_scalar_def scalar_ok_def eval_simps)

lemma parse_mechanism_outcome: "outcome (\<lambda>_. True) (parse_mechanism body)"
proof -
  have "outcome (\<lambda>v. case v of Some v \<Rightarrow> raw_ok v | None \<Rightarrow> True) (map_err bson_failure (raw_get body ''mechanism''))"
    by (rule outcome_bson) (auto split: option.splits dest: raw_get_ok)
  moreover have "wf_str name" if "raw_ok (R_String name)" for name
    using that by (simp add: raw_ok_def scalar_ok_def)
  ultimately show ?thesis
    unfolding parse_mechanism_def
    by (intro outcome_andthen [where Q = "\<lambda>v. case v of Some v \<Rightarrow> raw_ok v | None \<Rightarrow> True"] outcome_andthen [where Q = wf_str])
      (auto simp: outcome_ok_or auth_failed_ok wf_lit split: option.splits raw_bson.splits)
qed

lemma payload_str_outcome: "outcome wf_str (payload_str body)"
proof -
  have "outcome (\<lambda>_. True) (payload_bytes body)"
    unfolding payload_bytes_def
    by (intro outcome_andthen [where Q = "\<lambda>_. True"] outcome_bson)
      (auto simp: auth_failed_ok wf_lit split: option.splits raw_bson.splits)
  then show ?thesis
    unfolding payload_str_def
    by (intro outcome_andthen [where Q = "\<lambda>_. True"])
      (auto simp: outcome_ok_or auth_failed_ok wf_lit split: option.splits dest: from_utf8_Some_wf)
qed

text \<open>The server half of SCRAM never panics and reports only fixed texts.\<close>

definition auth_outcome :: "(auth_error, 'a) result \<Rightarrow> bool" where
  "auth_outcome r \<longleftrightarrow> r \<noteq> Panic \<and> (\<forall>e. r = Err e \<longrightarrow> wf_str (auth_error_display e))"

lemma auth_outcome_simps [simp]:
  "auth_outcome (Ok x)" "auth_outcome (Err e) \<longleftrightarrow> wf_str (auth_error_display e)" "\<not> auth_outcome Panic"
  by (simp_all add: auth_outcome_def)

lemma auth_outcome_andthen [intro]: "auth_outcome r \<Longrightarrow> (\<And>x. r = Ok x \<Longrightarrow> auth_outcome (k x)) \<Longrightarrow> auth_outcome (andthen r k)"
  by (cases r) simp_all

lemma auth_outcome_ok_or: "auth_outcome (ok_or e v) \<longleftrightarrow> v \<noteq> None \<or> wf_str (auth_error_display e)"
  by (cases v) simp_all

lemma parse_attributes_outcome: "auth_outcome (parse_attributes msg)"
proof -
  have a: "auth_outcome (parse_attribute x)" for x by (simp add: parse_attribute_def Let_def wf_lit)
  have "auth_outcome (traverse parse_attribute xs)" for xs
    by (induction xs) (auto intro!: auth_outcome_andthen a)
  then show ?thesis by (simp add: parse_attributes_def)
qed

lemma check_client_first_outcome: "auth_outcome (check_client_first msg)"
  unfolding check_client_first_def
  by (intro auth_outcome_andthen parse_attributes_outcome) (auto simp: wf_lit split: option.splits list.splits)

lemma client_final_loop_outcome: "auth_outcome (client_final_loop attrs cb nonce pf)"
  by (induction attrs cb nonce pf rule: client_final_loop.induct) (simp_all add: wf_lit)

lemma check_client_final_outcome: "auth_outcome (check_client_final c msg creds s)"
  unfolding check_client_final_def
  by (intro auth_outcome_andthen parse_attributes_outcome)
    (auto simp: wf_lit auth_outcome_ok_or Let_def xor_bytes_def debug_assert_def client_final_loop_outcome
      intro!: auth_outcome_andthen split: option.splits)

lemma handle_client_first_outcome: "auth_outcome (fst (handle_client_first c msg user creds s))"
  using check_client_first_outcome [of msg]
  by (cases "check_client_first msg") (auto simp: handle_client_first_def Let_def wf_lit)

lemma handle_client_final_outcome: "auth_outcome (fst (handle_client_final c msg s))"
  using check_client_final_outcome [of c msg "the (sv_credentials s)" s]
  by (cases "sv_credentials s"; cases "check_client_final c msg (the (sv_credentials s)) s")
    (auto simp: handle_client_final_def wf_lit)

lemma outcome_True: "outcome Q r \<Longrightarrow> outcome (\<lambda>_. True) r"
  by (cases r) simp_all

lemma outcome_auth:
  "auth_outcome r \<Longrightarrow> outcome (\<lambda>_. True) (map_err (\<lambda>err. auth_failed (auth_error_display err)) r)"
  by (cases r) (simp_all add: auth_failed_ok)

lemma sasl_start_outcome: "reply_outcome (fst (sasl_start c creds_of e ctx body))"
proof -
  have fin: "outcome P (fst (case handle_client_first c cf user creds s of (r, server) \<Rightarrow>
      keep ctx (map_err (\<lambda>err. auth_failed (auth_error_display err)) r) (k server)))"
    if "\<And>server x. outcome P (fst (k server x))" for P cf user creds s k
    using handle_client_first_outcome [of c cf user creds s] that
    by (auto split: prod.splits intro!: outcome_keep [where Q = "\<lambda>_. True"] outcome_auth)
  show ?thesis
    unfolding sasl_start_def reply_outcome_def
    using parse_mechanism_outcome [of body] payload_str_outcome [of body, THEN outcome_True] sasl_reply_outcome
    by (auto simp: outcome_ok_or auth_failed_ok wf_lit outcome_map_ok Let_def split: option.splits
        intro!: outcome_keep [where Q = "\<lambda>_. True"] fin)
qed

lemma sasl_continue_outcome: "reply_outcome (fst (sasl_continue c ctx body))"
proof -
  have fin: "outcome P (fst (case handle_client_final c cf s of (r, server) \<Rightarrow>
      keep ctx (map_err (\<lambda>err. auth_failed (auth_error_display err)) r) (k server)))"
    if "\<And>server x. outcome P (fst (k server x))" for P cf s k ctx
    using handle_client_final_outcome [of c cf s] that
    by (auto split: prod.splits intro!: outcome_keep [where Q = "\<lambda>_. True"] outcome_auth)
  show ?thesis
    unfolding sasl_continue_def reply_outcome_def
    using payload_str_outcome [of body] sasl_reply_outcome
    by (auto simp: auth_failed_ok wf_lit outcome_map_ok Let_def split: option.splits
        intro!: outcome_keep [where Q = wf_str] fin)
qed

lemma sasl_start_quiet:
  "request_id_counter (snd (sasl_start c creds_of e ctx body)) = request_id_counter ctx
   \<and> ctx_checksum (snd (sasl_start c creds_of e ctx body)) = ctx_checksum ctx"
  using sasl_start_step [of c creds_of e ctx body] by (cases "sasl_start c creds_of e ctx body") auto

lemma sasl_continue_quiet:
  "request_id_counter (snd (sasl_continue c ctx body)) = request_id_counter ctx
   \<and> ctx_checksum (snd (sasl_continue c ctx body)) = ctx_checksum ctx"
  by (auto simp: sasl_continue_def keep_def Let_def split: result.splits option.splits prod.splits)

text \<open>The bridge keeps the contract of the handler it wraps.\<close>

lemma bridge_contract:
  assumes "quiet_handler inner"
  shows "quiet_handler (scram_bridge c creds_of inner)"
proof -
  note inner = quiet_handler.axioms(1) [OF assms, THEN command_handler.handle_outcome]
    quiet_handler.handle_counter [OF assms] quiet_handler.handle_checksum [OF assms]
  show ?thesis
    by unfold_locales
      (simp_all add: scram_bridge_def sasl_start_outcome sasl_continue_outcome sasl_start_quiet sasl_continue_quiet inner)
qed

end
