(* ===== verification/Login.thy ===== *)
theory Login
  imports Api_Auth
begin

text \<open>
  A complete login: a SCRAM client on one side, the SASL bridge and the in-memory credential store on the
  other, with the messages travelling as BSON documents.
\<close>

section \<open>The messages are well-formed text of moderate size\<close>

lemma wf_replace_char:
  assumes "wf_str s" "(of_char ch :: nat) < 128" "ascii_str r"
  shows "wf_str (replace_char ch r s)"
proof -
  let ?f = "\<lambda>b. as_bytes (if char_of_byte b = ch then r else [char_of_byte b])"
  have r: "list_all (\<lambda>x. x < 0x80) (as_bytes r)"
    using assms(3) by (auto simp: ascii_str_def as_bytes_def list_all_iff word_less_nat_alt)
  have one: "as_bytes [char_of_byte b] = [b]" for b by (simp add: as_bytes_def)
  have hi: "char_of_byte b \<noteq> ch" if "\<not> b < 0x80" for b
  proof
    assume "char_of_byte b = ch"
    then have "unat b = of_char ch" by (metis byte_of_char_of_byte unat_byte_of_char)
    with assms(2) that show False by (simp add: word_less_nat_alt)
  qed
  have "utf8 (concat (map ?f (as_bytes s)))"
    using assms(1) by (intro utf8_subst) (auto simp: wf_str_def r one hi)
  moreover have "as_bytes (replace_char ch r s) = concat (map ?f (as_bytes s))"
    by (induction s) (auto simp: replace_char_def as_bytes_def)
  ultimately show ?thesis by (simp add: wf_str_def)
qed

lemma wf_escape: "wf_str u \<Longrightarrow> wf_str (escape_username u)"
  unfolding escape_username_def by (intro wf_replace_char) (simp_all add: ascii_str_def of_char_Char)

lemma length_escape: "length (escape_username u) \<le> 3 * length u"
proof (induction u)
  case (Cons x u)
  then show ?case by (cases "x = CHR ''=''"; cases "x = CHR '',''") simp_all
qed simp

lemma parse_username: "parse_client_first_username (''n,,'' @ first_bare user cn) = Some user"
proof -
  have "split_on (CHR '','') (first_bare user cn) = (''n='' @ escape_username user) # split_on (CHR '','') (''r='' @ cn)"
    using split_on_append [of "CHR '',''" "''n='' @ escape_username user" "''r='' @ cn"] by (simp add: first_bare_def)
  moreover have "strip_prefix (''n,,'' @ s) ''n,,'' = Some s" "strip_prefix (''n='' @ s) ''n='' = Some s" for s :: string
    by (rule strip_prefix_append)+
  ultimately show ?thesis unfolding parse_client_first_username_def Let_def by (simp add: unescape_escape)
qed

section \<open>Reading commands and replies\<close>

lemma raw_deep_leaf:
  "raw_deep raw = Ok (B_String s) \<longleftrightarrow> raw = R_String s" "raw_deep raw = Ok (B_Binary b) \<longleftrightarrow> raw = R_Binary b"
  "raw_deep raw = Ok (B_Int32 n) \<longleftrightarrow> raw = R_Int32 n"
  by (cases raw; auto simp: raw_deep_def to_bson_def andthen_eq_Ok)+

lemma raw_get_leaf:
  assumes "deep d = Ok doc" "document_get doc key = Some v" "\<And>raw. raw_deep raw = Ok v \<longleftrightarrow> raw = w"
  shows "raw_get d key = Ok (Some w)"
  using raw_get_decoded [OF assms(1), of key] assms(2,3) by (auto split: result.splits option.splits)

text \<open>The commands a client sends and the document the bridge answers with.\<close>

abbreviation start_document :: "scram_mechanism \<Rightarrow> string \<Rightarrow> document" where
  "start_document m payload \<equiv> [(''saslStart'', B_Int32 1), (''mechanism'', B_String (mechanism_name m)), (''payload'', payload_bson payload)]"

abbreviation continue_document :: "i32 \<Rightarrow> string \<Rightarrow> document" where
  "continue_document cid payload \<equiv> [(''saslContinue'', B_Int32 1), (''conversationId'', B_Int32 cid), (''payload'', payload_bson payload)]"

abbreviation sasl_document :: "i32 \<Rightarrow> bool \<Rightarrow> string \<Rightarrow> document" where
  "sasl_document cid fin payload \<equiv> [(''conversationId'', B_Int32 cid), (''done'', B_Bool fin), (''payload'', payload_bson payload), (''ok'', B_Double F64_ONE)]"

lemma sasl_documents_decode:
  assumes "length payload \<le> 10000000"
  shows "deep (doc_bytes (start_document m payload)) = Ok (start_document m payload)"
    "deep (doc_bytes (continue_document cid payload)) = Ok (continue_document cid payload)"
    "wf_doc (sasl_document cid fin payload)" "length (doc_bytes (sasl_document cid fin payload)) \<le> 20000000"
    "deep (doc_bytes (sasl_document cid fin payload)) = Ok (sasl_document cid fin payload)"
proof -
  have name: "wf_str (mechanism_name m)" "length (mechanism_name m) \<le> 20" by (cases m; simp add: eval_simps)+
  have wf: "wf_doc (start_document m payload)" "wf_doc (continue_document cid payload)" and
    wf3: "wf_doc (sasl_document cid fin payload)"
    using name(1) by (simp_all add: payload_bson_def as_scalar_def scalar_ok_def wf_lit del: bson_bytes.simps) (simp_all add: eval_simps)
  have len: "length (doc_bytes (start_document m payload)) \<le> 20000000" "length (doc_bytes (continue_document cid payload)) \<le> 20000000"
    "length (doc_bytes (sasl_document cid fin payload)) \<le> 20000000"
    using assms name(2) by (simp_all add: payload_bson_def as_scalar_def scalar_bytes_def length_string_bytes)
  show "deep (doc_bytes (start_document m payload)) = Ok (start_document m payload)"
    using deep_doc_bytes [OF wf(1)] len(1) by (simp add: payload_bson_def del: bson_bytes.simps)
  show "deep (doc_bytes (continue_document cid payload)) = Ok (continue_document cid payload)"
    using deep_doc_bytes [OF wf(2)] len(2) by (simp add: payload_bson_def del: bson_bytes.simps)
  show "deep (doc_bytes (sasl_document cid fin payload)) = Ok (sasl_document cid fin payload)"
    using deep_doc_bytes [OF wf3] len(3) by (simp add: payload_bson_def del: bson_bytes.simps)
  show "wf_doc (sasl_document cid fin payload)" "length (doc_bytes (sasl_document cid fin payload)) \<le> 20000000" by fact+
qed

lemma sasl_reply_ok:
  assumes "length payload \<le> 10000000"
  shows "\<exists>r. sasl_reply cid fin payload = Ok r \<and> deep (sec_body (msg_sections r)) = Ok (sasl_document cid fin payload)"
proof -
  note d = sasl_documents_decode(3-5) [OF assms, of cid fin]
  have enc: "document_encode (sasl_document cid fin payload) = Ok (doc_bytes (sasl_document cid fin payload))"
    "doc_ok (doc_bytes (sasl_document cid fin payload))" using document_encode_ok [OF d(1)] d(2) by simp_all
  have "sasl_reply cid fin payload = op_msg_reply 0 (doc_bytes (sasl_document cid fin payload))"
    unfolding sasl_reply_def by (simp add: document_add_def document_new_def enc(1) Let_def del: bson_bytes.simps)
  with op_msg_reply_ok [OF enc(2)] d(3) show ?thesis by simp
qed

lemma start_command:
  assumes "length payload \<le> 10000000" "wf_str payload"
  shows "parse_mechanism (doc_bytes (start_document m payload)) = Ok m" "payload_str (doc_bytes (start_document m payload)) = Ok payload"
proof -
  note d = sasl_documents_decode(1) [OF assms(1), of m]
  have "raw_get (doc_bytes (start_document m payload)) ''mechanism'' = Ok (Some (R_String (mechanism_name m)))"
    by (rule raw_get_leaf [OF d _ raw_deep_leaf(1)]) simp
  then show "parse_mechanism (doc_bytes (start_document m payload)) = Ok m"
    by (cases m) (simp_all add: parse_mechanism_def mechanism_from_name_def del: bson_bytes.simps)
  have "raw_get (doc_bytes (start_document m payload)) ''payload'' = Ok (Some (R_Binary \<lparr>bin_subtype = Generic, bin_bytes = as_bytes payload\<rparr>))"
    by (rule raw_get_leaf [OF d _ raw_deep_leaf(2)]) (simp add: payload_bson_def)
  then show "payload_str (doc_bytes (start_document m payload)) = Ok payload"
    using assms(2) by (simp add: payload_str_def payload_bytes_def del: bson_bytes.simps)
qed

lemma continue_command:
  assumes "length payload \<le> 10000000" "wf_str payload"
  shows "conversation_id_of (doc_bytes (continue_document cid payload)) = cid"
    "payload_str (doc_bytes (continue_document cid payload)) = Ok payload"
proof -
  note d = sasl_documents_decode(2) [OF assms(1), of cid]
  have "raw_get (doc_bytes (continue_document cid payload)) ''conversationId'' = Ok (Some (R_Int32 cid))"
    by (rule raw_get_leaf [OF d _ raw_deep_leaf(3)]) simp
  then show "conversation_id_of (doc_bytes (continue_document cid payload)) = cid"
    by (simp add: conversation_id_of_def del: bson_bytes.simps)
  have "raw_get (doc_bytes (continue_document cid payload)) ''payload'' = Ok (Some (R_Binary \<lparr>bin_subtype = Generic, bin_bytes = as_bytes payload\<rparr>))"
    by (rule raw_get_leaf [OF d _ raw_deep_leaf(2)]) (simp add: payload_bson_def)
  then show "payload_str (doc_bytes (continue_document cid payload)) = Ok payload"
    using assms(2) by (simp add: payload_str_def payload_bytes_def del: bson_bytes.simps)
qed

section \<open>Logging in\<close>

lemma crypto_b64_length: "crypto_ok c \<Longrightarrow> length (b64_encode c b) \<le> 4 * length b + 4"
  unfolding crypto_ok_def by blast

text \<open>Bounds on what a login exchanges.\<close>

definition login_sizes :: "string \<Rightarrow> string \<Rightarrow> string \<Rightarrow> bool" where
  "login_sizes user cn sn \<longleftrightarrow> length user \<le> 1000000 \<and> length cn \<le> 1000000 \<and> length sn \<le> 1000000"

lemma show_nat_wf [simp]: "wf_str (show_nat n)"
proof -
  have "ascii_str (show_nat n)"
    using show_nat_digits [of _ n] by (fastforce simp: ascii_str_def list_all_iff)
  then show ?thesis by simp
qed

lemma first_message_wf:
  assumes "wf_str user" "wf_str cn" "login_sizes user cn sn"
  shows "wf_str (''n,,'' @ first_bare user cn) \<and> length (''n,,'' @ first_bare user cn) \<le> 10000000"
proof -
  have "wf_str (escape_username user @ '',r='' @ cn)"
    using assms(1,2) by (simp add: wf_str_append wf_escape wf_lit)
  then show ?thesis
    using assms(3) length_escape [of user] by (simp add: first_bare_def wf_lit login_sizes_def)
qed

lemma final_message_wf:
  assumes "crypto_ok c" "wf_str cn" "wf_str sn" "length pf \<le> 32" "login_sizes user cn sn"
  shows "wf_str (final_without_proof (cn @ sn) @ '',p='' @ b64_encode c pf)
    \<and> length (final_without_proof (cn @ sn) @ '',p='' @ b64_encode c pf) \<le> 10000000"
proof -
  have "wf_str (cn @ sn @ '',p='' @ b64_encode c pf)"
    using assms(1-3) by (simp add: wf_str_append wf_lit)
  moreover have "length (b64_encode c pf) \<le> 4 * length pf + 4" using assms(1) by (rule crypto_b64_length)
  ultimately show ?thesis using assms(4,5) by (simp add: final_without_proof_def wf_lit login_sizes_def)
qed

lemma length_reply:
  assumes "crypto_ok c" "login_sizes user cn sn" "length (cred_salt creds) \<le> 16"
  shows "length (first_reply c (cn @ sn) creds) \<le> 10000000"
proof -
  have "unat (cred_iterations creds) < 10 ^ Suc 9" using unsigned_less [where ?'a = nat, of "cred_iterations creds"] by simp
  then have "length (show_nat (unat (cred_iterations creds))) \<le> 10" using length_show_nat [of _ 9] by simp
  moreover have "length (b64_encode c (cred_salt creds)) \<le> 4 * length (cred_salt creds) + 4" using assms(1) by (rule crypto_b64_length)
  ultimately show ?thesis using assms(2,3) by (simp add: first_reply_def login_sizes_def)
qed

lemma memory_insert_lookup:
  "memory_lookup (memory_insert c m user pw users) m user
     = Some (derive c m (effective_password c m user pw) (map of_nat [0..<16]) (default_iterations m))"
  by (simp add: memory_lookup_def memory_insert_def effective_password_def Let_def)

text \<open>
  (C11) A user can log in, end to end: once a user and password are in the credential store, a SCRAM
  client with that password whose messages travel as the binary payloads of \<open>saslStart\<close> and
  \<open>saslContinue\<close> documents gets two replies that decode to the SASL reply documents, accepts the server
  in its turn, and the connection ends with the user authenticated and no exchange pending; any
  well-formed user name works, with the escaping undone on the way.
\<close>

theorem login_succeeds:
  assumes "crypto_ok c" and "wf_str user" and "wf_str cn" and "nonce_ok cn" and "nonce_ok (generate_nonce c (env_random e))"
    and "login_sizes user cn (generate_nonce c (env_random e))" and "scram (auth ctx) = None"
    and "creds_of = memory_lookup (memory_insert c m user pw users)"
  shows "\<exists>m1 m2 m3 m4 c1 c2 c3 c4 r1 r2 ctx1 ctx2.
      client_first_message (client_with_nonce m user (effective_password c m user pw) cn) = (Ok m1, c1)
    \<and> sasl_start c creds_of e ctx (doc_bytes (start_document m m1)) = (Ok (ReplyMsg r1), ctx1)
    \<and> deep (sec_body (msg_sections r1)) = Ok (sasl_document 1 False m2)
    \<and> receive_server_first c m2 c1 = (Ok (), c2) \<and> client_final_message c c2 = (Ok m3, c3)
    \<and> sasl_continue c ctx1 (doc_bytes (continue_document 1 m3)) = (Ok (ReplyMsg r2), ctx2)
    \<and> deep (sec_body (msg_sections r2)) = Ok (sasl_document 1 True m4)
    \<and> receive_server_final c m4 c3 = (Ok (), c4) \<and> cl_state c4 = C_Done
    \<and> authenticated (auth ctx2) = Some user \<and> scram (auth ctx2) = None"
proof -
  let ?sn = "generate_nonce c (env_random e)" and ?pw = "effective_password c m user pw"
  let ?d = "derive c m ?pw (map of_nat [0..<16]) (default_iterations m)"
  let ?m1 = "''n,,'' @ first_bare user cn" and ?m2 = "first_reply c (cn @ ?sn) ?d"
  have it: "default_iterations m \<noteq> 0" "default_iterations m \<le> 1000000" by (cases m; simp)+
  from scram_exchange [OF assms(1,4,5) it, of m user ?pw "map of_nat [0..<16]"]
  obtain pf sg c1 c2 c3 c4 s1 s2 where
    x1: "client_first_message (client_with_nonce m user ?pw cn) = (Ok ?m1, c1)"
    and x2: "handle_client_first c ?m1 user ?d (server_with_nonce m ?sn) = (Ok ?m2, s1)"
    and x3: "receive_server_first c ?m2 c1 = (Ok (), c2)"
    and x4: "client_final_message c c2 = (Ok (final_without_proof (cn @ ?sn) @ '',p='' @ b64_encode c pf), c3)"
    and x5: "handle_client_final c (final_without_proof (cn @ ?sn) @ '',p='' @ b64_encode c pf) s1 = (Ok (''v='' @ b64_encode c sg), s2)"
    and x6: "receive_server_final c (''v='' @ b64_encode c sg) c3 = (Ok (), c4)" "cl_state c4 = C_Done"
    and x7: "sv_username s2 = user" "length pf = digest_len m" "length sg = digest_len m"
    by (elim exE conjE) (rule that; assumption)
  let ?m3 = "final_without_proof (cn @ ?sn) @ '',p='' @ b64_encode c pf" and ?m4 = "''v='' @ b64_encode c sg"
  have dl: "digest_len m \<le> 32" by (cases m) simp_all
  have sn: "wf_str ?sn" using assms(1) by (simp add: generate_nonce_def)
  note wf1 = first_message_wf [OF assms(2,3,6)] and wf3 = final_message_wf [OF assms(1,3) sn _ assms(6), of pf]
  have l2: "length ?m2 \<le> 10000000" using length_reply [OF assms(1,6), of ?d] by (simp add: derive_def Let_def)
  have "length (b64_encode c sg) \<le> 4 * length sg + 4" using assms(1) by (rule crypto_b64_length)
  then have l4: "length ?m4 \<le> 10000000" using x7 dl by simp
  obtain r1 where r1: "sasl_reply 1 False ?m2 = Ok r1" "deep (sec_body (msg_sections r1)) = Ok (sasl_document 1 False ?m2)"
    using sasl_reply_ok [OF l2] by blast
  obtain r2 where r2: "sasl_reply 1 True ?m4 = Ok r2" "deep (sec_body (msg_sections r2)) = Ok (sasl_document 1 True ?m4)"
    using sasl_reply_ok [OF l4] by blast
  let ?ctx1 = "ctx\<lparr>auth := (auth ctx)\<lparr>scram := Some (m, s1)\<rparr>\<rparr>"
  let ?ctx2 = "ctx\<lparr>auth := (auth ctx)\<lparr>scram := None, authenticated := Some user\<rparr>\<rparr>"
  have s1: "sasl_start c creds_of e ctx (doc_bytes (start_document m ?m1)) = (Ok (ReplyMsg r1), ?ctx1)"
    using start_command [of ?m1 m] wf1 assms(7,8) memory_insert_lookup [of c m user pw users] parse_username [of user cn] x2 r1(1)
    by (simp add: sasl_start_def scram_server_new_def Let_def del: bson_bytes.simps append.simps)
  have s2: "sasl_continue c ?ctx1 (doc_bytes (continue_document 1 ?m3)) = (Ok (ReplyMsg r2), ?ctx2)"
    using continue_command [of ?m3 1] wf3 x7 dl x5 r2(1)
    by (simp add: sasl_continue_def Let_def del: bson_bytes.simps append.simps)
  show ?thesis
    by (intro exI conjI, rule x1, rule s1, rule r1(2), rule x3, rule x4, rule s2, rule r2(2), rule x6(1), rule x6(2)) simp_all
qed

definition login_env :: env where
  "login_env = \<lparr>env_now = 0, env_random = [0xAB, 0x10], env_oid_random = [], env_oid_counter = 0\<rparr>"

theorem login_succeeds_witness:
  "let creds_of = memory_lookup (memory_insert toy_crypto Sha1 ''a,b=c'' ''pw'' Map.empty)
   in \<exists>m1 m2 m3 m4 c1 c2 c3 c4 r1 r2 ctx1 ctx2.
      client_first_message (client_with_nonce Sha1 ''a,b=c'' (effective_password toy_crypto Sha1 ''a,b=c'' ''pw'') ''cn'') = (Ok m1, c1)
    \<and> sasl_start toy_crypto creds_of login_env connection_info_new (doc_bytes (start_document Sha1 m1)) = (Ok (ReplyMsg r1), ctx1)
    \<and> deep (sec_body (msg_sections r1)) = Ok (sasl_document 1 False m2)
    \<and> receive_server_first toy_crypto m2 c1 = (Ok (), c2) \<and> client_final_message toy_crypto c2 = (Ok m3, c3)
    \<and> sasl_continue toy_crypto ctx1 (doc_bytes (continue_document 1 m3)) = (Ok (ReplyMsg r2), ctx2)
    \<and> deep (sec_body (msg_sections r2)) = Ok (sasl_document 1 True m4)
    \<and> receive_server_final toy_crypto m4 c3 = (Ok (), c4) \<and> cl_state c4 = C_Done
    \<and> authenticated (auth ctx2) = Some ''a,b=c'' \<and> scram (auth ctx2) = None"
  unfolding Let_def
proof (rule login_succeeds [OF toy_crypto_ok _ _ _ _ _ _ refl])
  have nonce: "generate_nonce toy_crypto (env_random login_env) = ''ab10''"
    by (simp add: generate_nonce_def toy_crypto_def login_env_def to_hex_def HEX_DIGITS_def)
  show "nonce_ok (generate_nonce toy_crypto (env_random login_env))"
    "login_sizes ''a,b=c'' ''cn'' (generate_nonce toy_crypto (env_random login_env))"
    by (simp_all add: nonce nonce_ok_def login_sizes_def)
qed (simp_all add: wf_lit nonce_ok_def connection_info_new_def auth_state_default_def)

end
