(* ===== verification/Server.thy ===== *)
theory Server
  imports Api_Auth "HOL-Library.Sublist"
begin

text \<open>
  The server (\<open>mongowire/src/api/mod.rs\<close>): compression negotiation, the built-in commands, and the loop
  that reads frames, dispatches commands and writes replies.  Bytes written to the socket are appended
  to an output; connection and output are threaded through and returned beside every outcome.
\<close>

section \<open>Model\<close>

subsection \<open>Configuration and negotiation\<close>

record server_config =
  sc_max_msg_len :: i32
  sc_checksum :: bool
  sc_compressors :: "compressor_id list"

definition server_config_default :: server_config where
  "server_config_default = \<lparr>sc_max_msg_len = MAX_MSG_LEN, sc_checksum = True, sc_compressors = []\<rparr>"

text \<open>\<open>Result::ok\<close>, with a panic still a panic.\<close>

definition to_option :: "('e, 'a) result \<Rightarrow> ('f, 'a option) result" where
  "to_option r = (case r of Ok x \<Rightarrow> Ok (Some x) | Err _ \<Rightarrow> Ok None | Panic \<Rightarrow> Panic)"

definition string_values :: "array \<Rightarrow> string list" where
  "string_values vs = concat (map (\<lambda>v. case v of B_String name \<Rightarrow> [name] | _ \<Rightarrow> []) vs)"

definition requested_compressors :: "raw_document \<Rightarrow> ('e, string list option) result" where
  "requested_compressors body =
     andthen (to_option (raw_get body ''compression'')) (\<lambda>v. case v of
       Some (Some (R_Array names)) \<Rightarrow> map_ok (map_option string_values) (to_option (array_shallow names))
     | _ \<Rightarrow> Ok None)"

definition negotiate :: "compressor_id list \<Rightarrow> string list option \<Rightarrow> compressor_id list" where
  "negotiate configured requested = (case requested of
     None \<Rightarrow> []
   | Some names \<Rightarrow> filter (\<lambda>c. list_ex (\<lambda>name. name = compressor_name c) names) configured)"

subsection \<open>The built-in commands\<close>

definition is_handshake :: "string \<Rightarrow> bool" where
  "is_handshake name \<longleftrightarrow> name = ''hello'' \<or> name = ''isMaster'' \<or> name = ''ismaster''"

definition builtin_handler :: "compressor_id list \<Rightarrow> i32 \<Rightarrow> handler \<Rightarrow> handler" where
  "builtin_handler compressors max_len inner e ctx cmd =
     (if is_handshake (cmd_name cmd) then
        keep ctx (requested_compressors (cmd_body cmd)) (\<lambda>requested.
        let negotiated = negotiate compressors requested;
            ctx = ctx\<lparr>negotiated_compressors := negotiated\<rparr>;
            legacy = (cmd_name cmd \<noteq> ''hello'')
        in (map_ok ReplyMsg (handshake_reply (env_now e) negotiated max_len legacy), ctx))
      else if cmd_name cmd = ''ping'' then (map_ok ReplyMsg ping_reply, ctx)
      else inner e ctx cmd)"

subsection \<open>Replies on the socket\<close>

abbreviation (input) QUERY_FAILURE :: i32 where "QUERY_FAILURE \<equiv> 2"

definition error_reply :: "error \<Rightarrow> message_body \<Rightarrow> ('e, message_body option) result" where
  "error_reply err request = (case to_error_response_doc err of
     None \<Rightarrow> Ok None
   | Some d \<Rightarrow> andthen (to_option (document_encode d)) (\<lambda>r. case r of
       None \<Rightarrow> Ok None
     | Some raw \<Rightarrow> (case request of
         MB_Query _ \<Rightarrow>
           let reply = query_handshake_reply raw in
           Ok (Some (MB_Reply (reply\<lparr>response_flags := response_flags reply OR QUERY_FAILURE\<rparr>)))
       | _ \<Rightarrow> map_ok (map_option MB_Msg) (to_option (op_msg_reply 0 raw)))))"

text \<open>
  Errors of \<open>process_socket\<close>, all of them \<open>std::io::Error\<close>: a reply that does not encode, a handshake
  reply that cannot be built, or the socket.  What one iteration draws is the handler's draws and
  whether the write of its reply fails, and after how many bytes.
\<close>

datatype server_error = EncodeFailed protocol_error | HandshakeFailed error | SocketFailed

record io_env =
  io_draws :: env
  io_fault :: "nat option"

definition socket_write :: "nat option \<Rightarrow> bytes \<Rightarrow> bytes \<Rightarrow> (server_error, unit) result \<times> bytes" where
  "socket_write fault b out = (case fault of None \<Rightarrow> (Ok (), out @ b) | Some n \<Rightarrow> (Err SocketFailed, out @ take n b))"

definition send_reply ::
    "(bytes \<Rightarrow> u32) \<Rightarrow> nat option \<Rightarrow> connection_info \<Rightarrow> i32 \<Rightarrow> message_body \<Rightarrow> bytes
     \<Rightarrow> (server_error, unit) result \<times> connection_info \<times> bytes" where
  "send_reply crc fault ctx to_id body out =
     (case next_request_id ctx of (rid, ctx) \<Rightarrow>
      let h = header_new rid to_id (message_opcode body) in
      if ctx_checksum ctx \<and> (case body of MB_Msg _ \<Rightarrow> True | _ \<Rightarrow> False)
      then (case encode_message crc h body True [] of (r, _, b) \<Rightarrow>
        keep (ctx, out) (map_err EncodeFailed r) (\<lambda>_.
        case socket_write fault b out of (r, out) \<Rightarrow> (r, ctx, out)))
      else (case codec_encode crc (h, body) [] of (r, b) \<Rightarrow>
        keep (ctx, out) (map_err EncodeFailed r) (\<lambda>_.
        case socket_write fault b out of (r, out) \<Rightarrow> (r, ctx, out))))"

subsection \<open>The connection loop\<close>

datatype flow = NextFrame | CloseConnection

type_synonym step_result = "(server_error, flow) result \<times> connection_info \<times> bytes"

definition then_next :: "(server_error, unit) result \<times> connection_info \<times> bytes \<Rightarrow> step_result" where
  "then_next s = (case s of (r, ctx, out) \<Rightarrow> (map_ok (\<lambda>_. NextFrame) r, ctx, out))"

definition handle_query ::
    "(bytes \<Rightarrow> u32) \<Rightarrow> server_config \<Rightarrow> io_env \<Rightarrow> header \<Rightarrow> op_query \<Rightarrow> connection_info \<Rightarrow> bytes \<Rightarrow> step_result" where
  "handle_query crc cfg io h query ctx out =
     keep (ctx, out) (to_option (raw_command (query_doc query))) (\<lambda>name. case name of
       None \<Rightarrow> (Ok CloseConnection, ctx, out)
     | Some name \<Rightarrow>
         if \<not> is_handshake name then
           let err = error_command 59 ''CommandNotFound'' ''OP_QUERY only supports hello/isMaster'' in
           keep (ctx, out) (error_reply err (MB_Query query)) (\<lambda>r. case r of
             Some reply \<Rightarrow> then_next (send_reply crc (io_fault io) ctx (request_id h) reply out)
           | None \<Rightarrow> (Ok NextFrame, ctx, out))
         else keep (ctx, out) (requested_compressors (query_doc query)) (\<lambda>requested.
           let negotiated = negotiate (sc_compressors cfg) requested;
               ctx = ctx\<lparr>negotiated_compressors := negotiated\<rparr> in
           keep (ctx, out) (map_err HandshakeFailed
               (handshake_reply (env_now (io_draws io)) negotiated (sc_max_msg_len cfg) True)) (\<lambda>reply.
           let body = MB_Reply (query_handshake_reply (sec_body (msg_sections reply))) in
           then_next (send_reply crc (io_fault io) ctx (request_id h) body out))))"

definition handle_msg ::
    "(bytes \<Rightarrow> u32) \<Rightarrow> handler \<Rightarrow> io_env \<Rightarrow> header \<Rightarrow> op_msg \<Rightarrow> connection_info \<Rightarrow> bytes \<Rightarrow> step_result" where
  "handle_msg crc handle io h msg ctx out =
     keep (ctx, out) (to_option (raw_command (sec_body (msg_sections msg)))) (\<lambda>name. case name of
       None \<Rightarrow> (Ok CloseConnection, ctx, out)
     | Some name \<Rightarrow>
         let command = \<lparr>cmd_name = name, cmd_body = sec_body (msg_sections msg),
                        cmd_sequences = sec_sequences (msg_sections msg), cmd_flags = msg_flags msg\<rparr>;
             more_to_come = flags_contain (cmd_flags command) MORE_TO_COME in
         (case handle (io_draws io) ctx command of
           (Panic, ctx) \<Rightarrow> (Panic, ctx, out)
         | (result_of_handler, ctx) \<Rightarrow>
             if more_to_come then (Ok NextFrame, ctx, out)
             else (case result_of_handler of
               Ok (ReplyMsg reply) \<Rightarrow> then_next (send_reply crc (io_fault io) ctx (request_id h) (MB_Msg reply) out)
             | Ok NoReply \<Rightarrow> (Ok NextFrame, ctx, out)
             | Err err \<Rightarrow> keep (ctx, out) (error_reply err (MB_Msg msg)) (\<lambda>r. case r of
                 Some reply \<Rightarrow> then_next (send_reply crc (io_fault io) ctx (request_id h) reply out)
               | None \<Rightarrow> (Ok CloseConnection, ctx, out))
             | Panic \<Rightarrow> (Panic, ctx, out))))"

definition process_frame ::
    "(bytes \<Rightarrow> u32) \<Rightarrow> codecs \<Rightarrow> server_config \<Rightarrow> handler \<Rightarrow> io_env \<Rightarrow> header \<times> message_body
     \<Rightarrow> connection_info \<Rightarrow> bytes \<Rightarrow> step_result" where
  "process_frame crc z cfg handle io item ctx out =
     (case item of (h, body) \<Rightarrow>
      keep (ctx, out) (case body of
          MB_Compressed compressed \<Rightarrow> to_option (unwrap_body z compressed (sc_max_msg_len cfg))
        | body \<Rightarrow> Ok (Some body)) (\<lambda>body. case body of
        None \<Rightarrow> (Ok CloseConnection, ctx, out)
      | Some (MB_Query query) \<Rightarrow> handle_query crc cfg io h query ctx out
      | Some (MB_Msg msg) \<Rightarrow> handle_msg crc handle io h msg ctx out
      | Some (MB_Reply _) \<Rightarrow> (Ok NextFrame, ctx, out)
      | Some (MB_Compressed _) \<Rightarrow> (Ok CloseConnection, ctx, out)))"

text \<open>
  The items are what \<open>Framed::next\<close> yields for the codec, each with the draws of its iteration; the
  end of the list is the end of the stream.
\<close>

fun process_items ::
    "(bytes \<Rightarrow> u32) \<Rightarrow> codecs \<Rightarrow> server_config \<Rightarrow> handler
     \<Rightarrow> ((protocol_error, header \<times> message_body) result \<times> io_env) list \<Rightarrow> connection_info \<Rightarrow> bytes
     \<Rightarrow> (server_error, unit) result \<times> connection_info \<times> bytes" where
  "process_items crc z cfg handle [] ctx out = (Ok (), ctx, out)"
| "process_items crc z cfg handle ((item, io) # items) ctx out = (case item of
     Panic \<Rightarrow> (Panic, ctx, out)
   | Err _ \<Rightarrow> (Ok (), ctx, out)
   | Ok item \<Rightarrow> (case process_frame crc z cfg handle io item ctx out of
       (Ok NextFrame, ctx, out) \<Rightarrow> process_items crc z cfg handle items ctx out
     | (Ok CloseConnection, ctx, out) \<Rightarrow> (Ok (), ctx, out)
     | (Err e, ctx, out) \<Rightarrow> (Err e, ctx, out)
     | (Panic, ctx, out) \<Rightarrow> (Panic, ctx, out)))"

definition process_socket ::
    "(bytes \<Rightarrow> u32) \<Rightarrow> codecs \<Rightarrow> server_config \<Rightarrow> handler \<Rightarrow> string option
     \<Rightarrow> ((protocol_error, header \<times> message_body) result \<times> io_env) list
     \<Rightarrow> (server_error, unit) result \<times> connection_info \<times> bytes" where
  "process_socket crc z cfg handle peer items =
     process_items crc z cfg handle items
       (connection_info_new\<lparr>peer_addr := peer, ctx_checksum := sc_checksum cfg\<rparr>) []"

section \<open>Sending\<close>

text \<open>A reply body as the server builds it: one the wire can carry, with no trailer of its own.\<close>

definition reply_ok :: "message_body \<Rightarrow> bool" where
  "reply_ok m \<longleftrightarrow> message_ok m \<and> (\<forall>y. m = MB_Msg y \<longrightarrow> msg_checksum y = None)"

text \<open>What the peer reads of it: with checksums on, the OP_MSG carries the flag and the trailer.\<close>

definition received_as :: "(bytes \<Rightarrow> u32) \<Rightarrow> bool \<Rightarrow> header \<Rightarrow> message_body \<Rightarrow> message_body" where
  "received_as crc checksum h m = (case m of MB_Msg y \<Rightarrow> if checksum then MB_Msg (checksummed crc h y) else m | _ \<Rightarrow> m)"

definition reply_size :: "bool \<Rightarrow> message_body \<Rightarrow> nat" where
  "reply_size checksum m = 16 + message_body_len m + (if checksum \<and> message_opcode m = Msg then 4 else 0)"

definition reply_header :: "connection_info \<Rightarrow> i32 \<Rightarrow> message_body \<Rightarrow> header" where
  "reply_header ctx to_id m = \<lparr>message_length = u32_of_nat (reply_size (ctx_checksum ctx) m),
     request_id = request_id_counter ctx, response_to = to_id, op_code = message_opcode m\<rparr>"

text \<open>
  Sending never panics: a body that fits is one frame the peer reads as this reply, anything larger is
  an error with nothing written; either way one request id is used up.
\<close>

lemma send_reply_small:
  assumes "reply_ok m" "reply_size (ctx_checksum ctx) m \<le> 48000000"
  obtains f where "good_frame crc MAX_MSG_LEN f (reply_header ctx to_id m) (received_as crc (ctx_checksum ctx) (reply_header ctx to_id m) m)"
    "\<And>out. send_reply crc fault ctx to_id m out =
      (case socket_write fault f out of (r, out) \<Rightarrow> (r, ctx\<lparr>request_id_counter := request_id_counter ctx + 1\<rparr>, out))"
proof (cases "ctx_checksum ctx \<and> message_opcode m = Msg")
  case True
  then obtain y where m: "m = MB_Msg y" by (cases m) auto
  with True assms have y: "op_msg_ok y" "msg_checksum y = None" "20 + op_msg_body_len y \<le> 48000000"
    by (auto simp: reply_ok_def reply_size_def)
  let ?h = "reply_header ctx to_id m"
  let ?f = "header_bytes ?h @ op_msg_bytes (checksummed crc ?h y)"
  have g: "good_frame crc MAX_MSG_LEN ?f ?h (MB_Msg (checksummed crc ?h y))"
    using good_frame_checksum [OF y(1,2), of ?h] y True m by (simp add: reply_header_def reply_size_def)
  have h: "sent_header (header_new (request_id_counter ctx) to_id Msg) (20 + op_msg_body_len y) = ?h"
    using True m by (simp add: reply_header_def reply_size_def header_new_def)
  show ?thesis
    using True m g y encode_message_checksum [OF y, of crc "header_new (request_id_counter ctx) to_id Msg" "[]"] h
    by (intro that [of ?f]) (auto simp: send_reply_def next_request_id_def received_as_def Let_def
        split: prod.splits)
next
  case False
  let ?h = "reply_header ctx to_id m"
  from assms False have a: "message_ok m" "16 + message_body_len m \<le> 48000000" "\<forall>y. m = MB_Msg y \<longrightarrow> msg_checksum y = None"
    by (auto simp: reply_ok_def reply_size_def)
  obtain b where b: "message_encode_body m [] = Ok b" using body.round_trip [of m "message_opcode m" "[]"] a by auto
  let ?f = "header_bytes ?h @ b"
  have h: "sent_header (header_new (request_id_counter ctx) to_id (message_opcode m)) (16 + message_body_len m) = ?h"
    using False by (auto simp: reply_header_def reply_size_def header_new_def)
  have g: "good_frame crc MAX_MSG_LEN ?f ?h m"
    using good_frame_plain [OF a(1) _ b a(2) _ a(3), of "header_new (request_id_counter ctx) to_id (message_opcode m)" MAX_MSG_LEN] h a(2)
    by (simp add: header_new_def)
  show ?thesis
    using False g encode_message_plain [OF a(1) b a(2), of crc "header_new (request_id_counter ctx) to_id (message_opcode m)" "[]"] h
    by (intro that [of ?f]) (auto simp: send_reply_def next_request_id_def received_as_def codec_encode_def Let_def
        split: prod.splits message_body.splits)
qed

lemma send_reply_large:
  assumes "48000000 < reply_size (ctx_checksum ctx) m"
  shows "\<exists>size. send_reply crc fault ctx to_id m out =
    (Err (EncodeFailed (PE_MessageTooLarge size MAX_MSG_LEN)), ctx\<lparr>request_id_counter := request_id_counter ctx + 1\<rparr>, out)"
  using assms
  by (cases m; cases "ctx_checksum ctx") (auto simp: send_reply_def next_request_id_def codec_encode_def reply_size_def encode_message_def i32_try_from_def Let_def)

section \<open>One iteration\<close>

lemma to_option_simps [simp]: "to_option (Ok x) = Ok (Some x)" "to_option (Err e) = Ok None" "to_option Panic = Panic"
  by (simp_all add: to_option_def)

lemma to_option_total: "r \<noteq> Panic \<Longrightarrow> \<exists>x. to_option r = Ok x \<and> (\<forall>y. x = Some y \<longrightarrow> r = Ok y)"
  by (cases r) simp_all

lemma requested_compressors_total: "\<exists>r. requested_compressors body = (Ok r :: ('e, string list option) result)"
proof -
  have "array_shallow a \<noteq> Panic" for a unfolding array_shallow_def by (rule decode_panic)
  then have "\<exists>r. map_ok (map_option string_values) (to_option (array_shallow a)) = (Ok r :: ('e, string list option) result)" for a
    using to_option_total by (fastforce simp: map_ok_eq_Ok)
  moreover obtain v where "to_option (raw_get body ''compression'') = (Ok v :: ('e, raw_bson option option) result)"
    using to_option_total [of "raw_get body ''compression''"] by auto
  ultimately show ?thesis
    by (auto simp: requested_compressors_def split: option.splits raw_bson.splits)
qed

lemma sendable_reply_ok: "reply_ok (MB_Msg m) \<longleftrightarrow> sendable_msg m"
  by (auto simp: reply_ok_def sendable_msg_def)

lemma query_reply_ok: "doc_ok raw \<Longrightarrow> reply_ok (MB_Reply (query_handshake_reply raw))"
  by (simp add: reply_ok_def op_reply_ok_def query_handshake_reply_def REPLY_FLAGS_ALL_def)

lemma query_error_ok: "doc_ok raw \<Longrightarrow> reply_ok (MB_Reply ((query_handshake_reply raw)\<lparr>response_flags := 10\<rparr>))"
  by (simp add: reply_ok_def op_reply_ok_def query_handshake_reply_def REPLY_FLAGS_ALL_def)

lemma error_document_wf: "to_error_response_doc e = Some d \<Longrightarrow> error_ok e \<Longrightarrow> wf_doc d"
  by (auto simp: to_error_response_doc_def error_ok_def document_add_def document_new_def as_scalar_def scalar_ok_def wf_lit
      Let_def split: error.splits) (simp_all add: eval_simps)

lemma error_reply_total:
  assumes "error_ok err"
  shows "\<exists>r. error_reply err request = Ok r \<and> (\<forall>m. r = Some m \<longrightarrow> reply_ok m)"
proof (cases "to_error_response_doc err")
  case (Some d)
  have "document_encode d \<noteq> Panic" "\<And>raw. document_encode d = Ok raw \<Longrightarrow> doc_ok raw"
    using document_encode_layout [OF error_document_wf [OF Some assms]] document_encode_ok [OF error_document_wf [OF Some assms]]
    by (auto split: if_splits)
  then show ?thesis
    using op_msg_reply_ok query_error_ok by (cases "document_encode d"; cases request)
      (auto simp: error_reply_def Some sendable_reply_ok sendable_msg_def query_handshake_reply_def Let_def)
qed (simp add: error_reply_def)

text \<open>The built-in commands keep the contract of the handler they wrap.\<close>

lemma builtin_contract:
  assumes "quiet_handler inner"
  shows "quiet_handler (builtin_handler compressors max_len inner)"
proof -
  note inner = quiet_handler.axioms(1) [OF assms, THEN command_handler.handle_outcome]
    quiet_handler.handle_counter [OF assms] quiet_handler.handle_checksum [OF assms]
  have req: "\<exists>r. requested_compressors (cmd_body cmd) = (Ok r :: (error, string list option) result)" for cmd :: command
    by (rule requested_compressors_total)
  show ?thesis
  proof
    fix e ctx and cmd :: command assume "env_ok e" "wf_str (cmd_name cmd)"
    with req [of cmd] show "reply_outcome (fst (builtin_handler compressors max_len inner e ctx cmd))"
      by (auto simp: builtin_handler_def Let_def env_ok_def inner
          intro!: reply_outcome_msg handshake_reply_outcome ping_reply_outcome)
  next
    fix e ctx and cmd :: command
    from req [of cmd] show "request_id_counter (snd (builtin_handler compressors max_len inner e ctx cmd)) = request_id_counter ctx"
      "ctx_checksum (snd (builtin_handler compressors max_len inner e ctx cmd)) = ctx_checksum ctx"
      by (auto simp: builtin_handler_def Let_def inner)
  qed
qed

text \<open>
  What an iteration does to the connection and the output: nothing is written and the connection goes on
  or closes, or one reply to the request is sent.
\<close>

definition next_ctx :: "handler \<Rightarrow> io_env \<Rightarrow> connection_info \<Rightarrow> connection_info \<Rightarrow> bool" where
  "next_ctx handle io ctx ctx' \<longleftrightarrow> (\<exists>n. ctx' = ctx\<lparr>negotiated_compressors := n\<rparr>)
     \<or> (\<exists>cmd. ctx' = snd (handle (io_draws io) ctx cmd))"

lemma next_ctx_refl [simp]: "next_ctx handle io ctx ctx"
  by (auto simp: next_ctx_def intro!: exI [of _ "negotiated_compressors ctx"])

definition silent :: "handler \<Rightarrow> io_env \<Rightarrow> connection_info \<Rightarrow> bytes \<Rightarrow> step_result \<Rightarrow> bool" where
  "silent handle io ctx out s \<longleftrightarrow> (\<exists>r ctx'. s = (r, ctx', out) \<and> next_ctx handle io ctx ctx'
     \<and> ((\<exists>f. r = Ok f) \<or> (\<exists>e. r = Err (HandshakeFailed e))))"

definition replied :: "(bytes \<Rightarrow> u32) \<Rightarrow> handler \<Rightarrow> io_env \<Rightarrow> header \<Rightarrow> connection_info \<Rightarrow> bytes \<Rightarrow> step_result \<Rightarrow> bool" where
  "replied crc handle io h ctx out s \<longleftrightarrow> (\<exists>m ctx'. reply_ok m \<and> next_ctx handle io ctx ctx'
     \<and> s = then_next (send_reply crc (io_fault io) ctx' (request_id h) m out))"

lemma silentI: "next_ctx handle io ctx ctx' \<Longrightarrow> silent handle io ctx out (Ok f, ctx', out)"
  by (simp add: silent_def)

lemma repliedI: "reply_ok m \<Longrightarrow> next_ctx handle io ctx ctx'
    \<Longrightarrow> replied crc handle io h ctx out (then_next (send_reply crc (io_fault io) ctx' (request_id h) m out))"
  by (auto simp: replied_def)

lemma handle_query_step:
  assumes "env_ok (io_draws io)"
  shows "silent handle io ctx out (handle_query crc cfg io h query ctx out)
    \<or> replied crc handle io h ctx out (handle_query crc cfg io h query ctx out)"
proof -
  have nc: "next_ctx handle io ctx (ctx\<lparr>negotiated_compressors := n\<rparr>)" for n by (auto simp: next_ctx_def)
  obtain r where r: "requested_compressors (query_doc query) = (Ok r :: (server_error, string list option) result)"
    using requested_compressors_total by blast
  have e: "error_ok (error_command 59 ''CommandNotFound'' ''OP_QUERY only supports hello/isMaster'')"
    by (simp add: error_ok_def error_command_def wf_lit)
  obtain er where er: "error_reply (error_command 59 ''CommandNotFound'' ''OP_QUERY only supports hello/isMaster'') (MB_Query query)
      = (Ok er :: (server_error, message_body option) result)" "\<And>m. er = Some m \<Longrightarrow> reply_ok m"
    using error_reply_total [OF e] by blast
  have hs: "outcome sendable_msg (handshake_reply (env_now (io_draws io)) n l True)" for n l
    using assms by (intro handshake_reply_outcome) (simp add: env_ok_def)
  have q: "reply_ok (MB_Reply (query_handshake_reply (sec_body (msg_sections m))))" if "sendable_msg m" for m
    using that by (intro query_reply_ok) (simp add: sendable_msg_def op_msg_ok_def)
  show ?thesis
    using raw_command_panic [of "query_doc query"] er(2) nc q hs [of "negotiate (sc_compressors cfg) r" "sc_max_msg_len cfg"]
    by (cases "raw_command (query_doc query)"; cases er;
        cases "handshake_reply (env_now (io_draws io)) (negotiate (sc_compressors cfg) r) (sc_max_msg_len cfg) True")
      (auto simp: handle_query_def r er(1) Let_def intro: silentI repliedI, auto simp: silent_def)
qed

context command_handler
begin

lemma handle_msg_step:
  assumes "env_ok (io_draws io)"
  shows "silent handle io ctx out (handle_msg crc handle io h msg ctx out)
    \<or> replied crc handle io h ctx out (handle_msg crc handle io h msg ctx out)"
proof (cases "raw_command (sec_body (msg_sections msg))")
  case (Ok name)
  let ?cmd = "\<lparr>cmd_name = name, cmd_body = sec_body (msg_sections msg),
    cmd_sequences = sec_sequences (msg_sections msg), cmd_flags = msg_flags msg\<rparr>"
  obtain r ctx' where h: "handle (io_draws io) ctx ?cmd = (r, ctx')" by fastforce
  have n: "next_ctx handle io ctx ctx'" using h by (auto simp: next_ctx_def intro!: exI [of _ ?cmd])
  have out: "reply_outcome r" using handle_outcome [OF assms, of ?cmd ctx] raw_command_wf [OF Ok] by (simp add: h)
  show ?thesis
  proof (cases r)
    case (Err e)
    then have "error_ok e" using out by (simp add: reply_outcome_def)
    from error_reply_total [OF this, of "MB_Msg msg"] obtain er where
      "error_reply e (MB_Msg msg) = (Ok er :: (server_error, message_body option) result)" "\<And>m. er = Some m \<Longrightarrow> reply_ok m" by blast
    with Ok h Err n show ?thesis by (cases er) (auto simp: handle_msg_def Let_def intro: silentI repliedI)
  next
    case (Ok reply)
    with out have "reply_ok (MB_Msg m)" if "reply = ReplyMsg m" for m
      using that by (simp add: reply_outcome_def sendable_reply_ok)
    with \<open>raw_command _ = Ok name\<close> h Ok n show ?thesis
      by (cases reply) (auto simp: handle_msg_def Let_def intro: silentI repliedI)
  qed (use out in \<open>simp add: reply_outcome_def\<close>)
qed (auto simp: handle_msg_def intro: silentI)

lemma process_frame_step:
  assumes "env_ok (io_draws io)"
  shows "silent handle io ctx out (process_frame crc z cfg handle io (h, m) ctx out)
    \<or> replied crc handle io h ctx out (process_frame crc z cfg handle io (h, m) ctx out)"
proof -
  let ?unwrapped = "case m of MB_Compressed c \<Rightarrow> to_option (unwrap_body z c (sc_max_msg_len cfg)) | m \<Rightarrow> (Ok (Some m) :: (server_error, message_body option) result)"
  have "\<exists>b. ?unwrapped = Ok b"
  proof (cases m)
    case (MB_Compressed c)
    have "unwrap_body z c (sc_max_msg_len cfg) \<noteq> Panic" by (auto simp: unwrap_body_def andthen_eq_Panic)
    from to_option_total [OF this] MB_Compressed show ?thesis by auto
  qed auto
  then obtain b where b: "?unwrapped = Ok b" by blast
  show ?thesis
    unfolding process_frame_def case_prod_conv b keep_simps
    using handle_query_step [OF assms] handle_msg_step [OF assms]
    by (cases b) (auto intro: silentI split: message_body.splits)
qed

end

section \<open>Whole connections\<close>

type_synonym served_item = "(protocol_error, header \<times> message_body) result \<times> io_env"

definition items_ok :: "served_item list \<Rightarrow> bool" where
  "items_ok items \<longleftrightarrow> list_all (\<lambda>(item, io). item \<noteq> Panic \<and> env_ok (io_draws io)) items"

text \<open>The requests that may be answered: queries, and commands without \<open>moreToCome\<close>, compressed or not.\<close>

fun expects_reply :: "message_body \<Rightarrow> bool" where
  "expects_reply (MB_Query _) \<longleftrightarrow> True"
| "expects_reply (MB_Msg msg) \<longleftrightarrow> \<not> flags_contain (msg_flags msg) MORE_TO_COME"
| "expects_reply _ \<longleftrightarrow> False"

definition awaits_reply :: "codecs \<Rightarrow> server_config \<Rightarrow> message_body \<Rightarrow> bool" where
  "awaits_reply z cfg m \<longleftrightarrow> (case m of
     MB_Compressed c \<Rightarrow> (case unwrap_body z c (sc_max_msg_len cfg) of Ok b \<Rightarrow> expects_reply b | _ \<Rightarrow> False)
   | _ \<Rightarrow> expects_reply m)"

definition request_ids :: "codecs \<Rightarrow> server_config \<Rightarrow> served_item list \<Rightarrow> i32 list" where
  "request_ids z cfg items = concat (map (\<lambda>(item, _). case item of
     Ok (h, m) \<Rightarrow> if awaits_reply z cfg m then [request_id h] else [] | _ \<Rightarrow> []) items)"

lemma handle_msg_more_to_come:
  "flags_contain (msg_flags msg) MORE_TO_COME \<Longrightarrow> snd (snd (handle_msg crc handle io h msg ctx out)) = out"
  by (auto simp: handle_msg_def keep_def Let_def split: result.splits option.splits prod.splits)

lemma process_frame_unanswered:
  assumes "\<not> awaits_reply z cfg m"
  shows "snd (snd (process_frame crc z cfg handle io (h, m) ctx out)) = out"
proof -
  have "snd (snd (case b of MB_Query query \<Rightarrow> handle_query crc cfg io h query ctx out
      | MB_Msg msg \<Rightarrow> handle_msg crc handle io h msg ctx out | MB_Reply _ \<Rightarrow> (Ok NextFrame, ctx, out)
      | MB_Compressed _ \<Rightarrow> (Ok CloseConnection, ctx, out))) = out" if "\<not> expects_reply b" for b
    using that by (cases b) (simp_all add: handle_msg_more_to_come)
  with assms show ?thesis
    by (cases m) (auto simp: process_frame_def awaits_reply_def keep_def to_option_def handle_msg_more_to_come split: result.splits)
qed

text \<open>The bytes of a sequence of replies, as the decoder of the peer reads them.\<close>

definition reply_stream :: "(bytes \<Rightarrow> u32) \<Rightarrow> bytes \<Rightarrow> (header \<times> message_body) list \<Rightarrow> bool" where
  "reply_stream crc w replies \<longleftrightarrow>
     (\<forall>rest. decode_all crc (mongo_codec_new codec_config_default) (length replies) (w @ rest) = (Some replies, rest))"

lemma reply_stream_Nil: "reply_stream crc [] []"
  by (simp add: reply_stream_def)

lemma reply_stream_Cons:
  "good_frame crc MAX_MSG_LEN f h m \<Longrightarrow> reply_stream crc w rs \<Longrightarrow> reply_stream crc (f @ w) ((h, m) # rs)"
  by (simp add: reply_stream_def codec_decode_def mongo_codec_new_def codec_config_default_def parse_message_good)

lemma send_reply_outcome:
  assumes "reply_ok m"
  shows "(\<exists>e out'. send_reply crc fault ctx to_id m out = (Err e, ctx\<lparr>request_id_counter := request_id_counter ctx + 1\<rparr>, out') \<and> (fault = None \<longrightarrow> out' = out))
    \<or> (\<exists>f. send_reply crc fault ctx to_id m out = (Ok (), ctx\<lparr>request_id_counter := request_id_counter ctx + 1\<rparr>, out @ f)
        \<and> good_frame crc MAX_MSG_LEN f (reply_header ctx to_id m) (received_as crc (ctx_checksum ctx) (reply_header ctx to_id m) m))"
proof (cases "reply_size (ctx_checksum ctx) m \<le> 48000000")
  case True
  obtain f where f: "good_frame crc MAX_MSG_LEN f (reply_header ctx to_id m) (received_as crc (ctx_checksum ctx) (reply_header ctx to_id m) m)"
    "send_reply crc fault ctx to_id m out = (case socket_write fault f out of (r, out) \<Rightarrow> (r, ctx\<lparr>request_id_counter := request_id_counter ctx + 1\<rparr>, out))"
    using send_reply_small [OF assms True] by metis
  then show ?thesis by (cases fault) (auto simp: socket_write_def)
next
  case False
  then show ?thesis using send_reply_large [of ctx m crc fault to_id out] by fastforce
qed

context command_handler
begin

lemma process_frame_panic:
  assumes "env_ok (io_draws io)"
  shows "fst (process_frame crc z cfg handle io x ctx out) \<noteq> Panic"
proof (cases x)
  case (Pair h m)
  have s: "fst s \<noteq> Panic" if "silent handle io ctx out s" for s using that by (auto simp: silent_def)
  have "fst s \<noteq> Panic" if "replied crc handle io h ctx out s" for s
  proof -
    from that obtain m ctx' where "reply_ok m" "s = then_next (send_reply crc (io_fault io) ctx' (request_id h) m out)"
      by (auto simp: replied_def)
    with send_reply_outcome [of m crc "io_fault io" ctx' "request_id h" out] show ?thesis by (auto simp: then_next_def)
  qed
  with s process_frame_step [OF assms] Pair show ?thesis by blast
qed

lemma process_items_panic:
  "items_ok items \<Longrightarrow> fst (process_items crc z cfg handle items ctx out) \<noteq> Panic"
proof (induction items arbitrary: ctx out)
  case (Cons x items)
  obtain item io where x: "x = (item, io)" by (cases x)
  show ?case
    using Cons x process_frame_panic [of io crc z cfg _ ctx out]
    by (auto simp: items_ok_def split: result.splits flow.splits prod.splits) (metis fst_conv)+
qed simp

end

context quiet_handler
begin

lemma next_ctx_quiet: "next_ctx handle io ctx ctx' \<Longrightarrow> request_id_counter ctx' = request_id_counter ctx \<and> ctx_checksum ctx' = ctx_checksum ctx"
  by (auto simp: next_ctx_def handle_counter handle_checksum)

lemma process_frame_reply:
  assumes "env_ok (io_draws io)" "io_fault io = None" "process_frame crc z cfg handle io (h, m) ctx out = (r, ctx', out')"
  shows "ctx_checksum ctx' = ctx_checksum ctx \<and>
    (out' = out \<and> (\<forall>f. r = Ok f \<longrightarrow> request_id_counter ctx' = request_id_counter ctx) \<or>
     (\<exists>f h' m'. r = Ok NextFrame \<and> out' = out @ f \<and> request_id_counter ctx' = request_id_counter ctx + 1
        \<and> good_frame crc MAX_MSG_LEN f h' m' \<and> request_id h' = request_id_counter ctx \<and> response_to h' = request_id h
        \<and> (\<forall>y. m' = MB_Msg y \<longrightarrow> (msg_checksum y \<noteq> None \<longleftrightarrow> ctx_checksum ctx))))"
proof -
  from process_frame_step [OF assms(1), of ctx out crc z cfg h m]
  consider (quiet) "silent handle io ctx out (r, ctx', out')" | (reply) "replied crc handle io h ctx out (r, ctx', out')"
    using assms(3) by fastforce
  then show ?thesis
  proof cases
    case quiet
    then show ?thesis using next_ctx_quiet by (auto simp: silent_def)
  next
    case reply
    then obtain b ctx1 where b: "reply_ok b" "next_ctx handle io ctx ctx1"
      "(r, ctx', out') = then_next (send_reply crc None ctx1 (request_id h) b out)" using assms(2) by (auto simp: replied_def)
    have tag: "msg_checksum y \<noteq> None \<longleftrightarrow> ctx_checksum ctx"
      if "received_as crc (ctx_checksum ctx1) (reply_header ctx1 (request_id h) b) b = MB_Msg y" for y
      using that b(1) next_ctx_quiet [OF b(2)]
      by (cases b) (auto simp: received_as_def reply_ok_def checksummed_def Let_def split: if_splits)
    from send_reply_outcome [OF b(1), of crc None ctx1 "request_id h" out] consider
      (failed) e where "send_reply crc None ctx1 (request_id h) b out = (Err e, ctx1\<lparr>request_id_counter := request_id_counter ctx1 + 1\<rparr>, out)"
    | (sent) f where "send_reply crc None ctx1 (request_id h) b out = (Ok (), ctx1\<lparr>request_id_counter := request_id_counter ctx1 + 1\<rparr>, out @ f)"
        "good_frame crc MAX_MSG_LEN f (reply_header ctx1 (request_id h) b)
          (received_as crc (ctx_checksum ctx1) (reply_header ctx1 (request_id h) b) b)" by auto
    then show ?thesis
    proof cases
      case failed
      with b(3) next_ctx_quiet [OF b(2)] show ?thesis by (simp add: then_next_def)
    next
      case sent
      have "request_id (reply_header ctx1 (request_id h) b) = request_id_counter ctx"
        "response_to (reply_header ctx1 (request_id h) b) = request_id h"
        using next_ctx_quiet [OF b(2)] by (simp_all add: reply_header_def)
      with sent b(3) next_ctx_quiet [OF b(2)] tag show ?thesis
        unfolding then_next_def by (simp del: not_None_eq) blast
    qed
  qed
qed

lemma process_items_stream:
  assumes "items_ok items" "list_all (\<lambda>(_, io). io_fault io = None) items"
    and "process_items crc z cfg handle items ctx out = (r, ctx', out')"
  shows "\<exists>w replies. out' = out @ w \<and> reply_stream crc w replies
    \<and> map (\<lambda>x. request_id (fst x)) replies = map (\<lambda>i. request_id_counter ctx + of_nat i) [0..<length replies]
    \<and> subseq (map (\<lambda>x. response_to (fst x)) replies) (request_ids z cfg items)
    \<and> (\<forall>h y. (h, MB_Msg y) \<in> set replies \<longrightarrow> (msg_checksum y \<noteq> None \<longleftrightarrow> ctx_checksum ctx))"
  using assms
proof (induction items arbitrary: ctx out)
  case Nil
  then show ?case by (intro exI [of _ "[]"]) (simp add: reply_stream_Nil)
next
  case (Cons x items)
  obtain item io where x: "x = (item, io)" by (cases x)
  have quiet: "?case" if "out' = out" using that by (intro exI [of _ "[]"]) (simp add: reply_stream_Nil)
  show ?case
  proof (cases item)
    case (Ok hm)
    obtain h m where hm: "hm = (h, m)" by (cases hm)
    obtain q ctx1 out1 where q: "process_frame crc z cfg handle io (h, m) ctx out = (q, ctx1, out1)" by (metis prod_cases3)
    have ok: "env_ok (io_draws io)" "io_fault io = None" using Cons.prems x by (simp_all add: items_ok_def)
    note step = process_frame_reply [OF ok q]
    have ids: "request_ids z cfg (x # items) = (if awaits_reply z cfg m then [request_id h] else []) @ request_ids z cfg items"
      by (simp add: request_ids_def x Ok hm)
    show ?thesis
    proof (cases "q = Ok NextFrame")
      case True
      then have "process_items crc z cfg handle items ctx1 out1 = (r, ctx', out')" using Cons.prems(3) x Ok hm q by simp
      from Cons.IH [OF _ _ this] Cons.prems obtain w replies where w: "out' = out1 @ w" "reply_stream crc w replies"
        "map (\<lambda>x. request_id (fst x)) replies = map (\<lambda>i. request_id_counter ctx1 + of_nat i) [0..<length replies]"
        "subseq (map (\<lambda>x. response_to (fst x)) replies) (request_ids z cfg items)"
        "\<forall>h y. (h, MB_Msg y) \<in> set replies \<longrightarrow> (msg_checksum y \<noteq> None \<longleftrightarrow> ctx_checksum ctx1)"
        by (auto simp: items_ok_def)
      from step True consider (silent) "out1 = out" "request_id_counter ctx1 = request_id_counter ctx" "ctx_checksum ctx1 = ctx_checksum ctx"
        | (sent) f h' m' where "out1 = out @ f" "request_id_counter ctx1 = request_id_counter ctx + 1" "ctx_checksum ctx1 = ctx_checksum ctx"
          "good_frame crc MAX_MSG_LEN f h' m'" "request_id h' = request_id_counter ctx" "response_to h' = request_id h"
          "\<forall>y. m' = MB_Msg y \<longrightarrow> (msg_checksum y \<noteq> None \<longleftrightarrow> ctx_checksum ctx)" by blast
      then show ?thesis
      proof cases
        case silent
        with w ids show ?thesis by (intro exI [of _ w] exI [of _ replies]) auto
      next
        case sent
        have "map (\<lambda>i. request_id_counter ctx + of_nat i) [0..<Suc n] = request_id_counter ctx # map (\<lambda>i. request_id_counter ctx1 + of_nat i) [0..<n]" for n
          unfolding upt_conv_Cons [OF zero_less_Suc] map_Suc_upt [symmetric] using sent(2) by (simp add: algebra_simps)
        moreover have "f \<noteq> []" using sent(4) by (auto simp: good_frame_def)
        then have "awaits_reply z cfg m"
          using process_frame_unanswered [of z cfg m crc handle io h ctx out] q sent(1) by auto
        ultimately show ?thesis using w sent ids
          by (intro exI [of _ "f @ w"] exI [of _ "(h', m') # replies"]) (auto simp: reply_stream_Cons simp del: upt_Suc)
      qed
    next
      case False
      then have "(r, ctx', out') = (map_ok (\<lambda>_. ()) q, ctx1, out1)"
        using Cons.prems(3) x Ok hm q by (auto split: result.splits flow.splits)
      with step False quiet show ?thesis by auto
    qed
  qed (use Cons.prems(3) x quiet in auto)
qed

end

section \<open>Properties\<close>

text \<open>
  (C4) No peer can crash a connection: whatever frames arrive, well formed or not, compressed or not, and
  whatever happens to the socket, serving them with a handler that honours its contract never panics;
  the built-in handlers honour it whenever the handler they wrap does.
\<close>

theorem server_never_panics:
  assumes "command_handler handle" and "items_ok items"
  shows "fst (process_socket crc z cfg handle peer items) \<noteq> Panic"
  unfolding process_socket_def using assms by (rule command_handler.process_items_panic)

text \<open>
  (C3) What the server writes is a clean reply stream: as long as the socket accepts its writes, the
  bytes it sends on a connection are whole frames the peer's decoder reads one by one; their request ids
  count from 0; they answer, in order and at most once each, requests that expect an answer, never one
  with \<open>moreToCome\<close>; and OP_MSG replies carry a checksum exactly when the server is configured to.
\<close>

theorem server_reply_stream:
  assumes "quiet_handler handle" and "items_ok items" and "list_all (\<lambda>(_, io). io_fault io = None) items"
    and "process_socket crc z cfg handle peer items = (r, ctx, out)"
  shows "\<exists>replies. decode_all crc (mongo_codec_new codec_config_default) (length replies) out = (Some replies, [])
    \<and> map (\<lambda>x. request_id (fst x)) replies = map of_nat [0..<length replies]
    \<and> subseq (map (\<lambda>x. response_to (fst x)) replies) (request_ids z cfg items)
    \<and> (\<forall>h y. (h, MB_Msg y) \<in> set replies \<longrightarrow> (msg_checksum y \<noteq> None \<longleftrightarrow> sc_checksum cfg))"
proof -
  let ?ctx = "connection_info_new\<lparr>peer_addr := peer, ctx_checksum := sc_checksum cfg\<rparr>"
  have c: "request_id_counter ?ctx = 0" "ctx_checksum ?ctx = sc_checksum cfg" by (simp_all add: connection_info_new_def)
  from quiet_handler.process_items_stream [OF assms(1-3) assms(4) [unfolded process_socket_def]]
  obtain w replies where "out = [] @ w" "reply_stream crc w replies"
    "map (\<lambda>x. request_id (fst x)) replies = map (\<lambda>i. 0 + of_nat i) [0..<length replies]"
    "subseq (map (\<lambda>x. response_to (fst x)) replies) (request_ids z cfg items)"
    "\<forall>h y. (h, MB_Msg y) \<in> set replies \<longrightarrow> (msg_checksum y \<noteq> None \<longleftrightarrow> sc_checksum cfg)"
    unfolding c by blast
  moreover from this(1,2) have "decode_all crc (mongo_codec_new codec_config_default) (length replies) out = (Some replies, [])"
    unfolding reply_stream_def by (metis append_Nil append_Nil2)
  ultimately show ?thesis by (intro exI [of _ replies]) simp
qed

section \<open>Negotiation\<close>

text \<open>The compressors to use for a decoded handshake: those configured that it names, in the server's order.\<close>

definition agreed_compressors :: "compressor_id list \<Rightarrow> document \<Rightarrow> compressor_id list" where
  "agreed_compressors configured doc = (case document_get doc ''compression'' of
     Some (B_Array names) \<Rightarrow> filter (\<lambda>c. B_String (compressor_name c) \<in> set names) configured
   | _ \<Rightarrow> [])"

lemma set_string_values: "name \<in> set (string_values vs) \<longleftrightarrow> B_String name \<in> set vs"
  by (induction vs) (auto simp: string_values_def split: bson.splits)

lemma raw_deep_array:
  assumes "raw_deep raw = Ok v"
  shows "(\<exists>a vs. raw = R_Array a \<and> v = B_Array vs \<and> array_shallow a = Ok vs)
    \<or> ((\<forall>a. raw \<noteq> R_Array a) \<and> (\<forall>vs. v \<noteq> B_Array vs))"
proof (cases raw rule: raw_cases)
  case (Array a)
  have "array_shallow a = array_deep a"
    unfolding array_shallow_def array_deep_def by (rule decode_mode(2))
  with Array assms show ?thesis by (auto simp: raw_deep_def andthen_eq_Ok)
next
  case (Scalar s)
  with assms show ?thesis by (cases s) (auto simp: raw_deep_def to_bson_def)
qed (use assms in \<open>auto simp: raw_deep_def to_bson_def andthen_eq_Ok\<close>)

lemma negotiate_decoded:
  assumes "deep d = Ok doc"
  obtains requested where "requested_compressors d = (Ok requested :: ('e, string list option) result)"
    "\<And>cs. negotiate cs requested = agreed_compressors cs doc"
proof -
  note found = that
  have names: "negotiate cs (Some (string_values vs)) = filter (\<lambda>c. B_String (compressor_name c) \<in> set vs) cs" for cs vs
    by (simp add: negotiate_def list_ex_iff set_string_values)
  have none: thesis if "requested_compressors d = (Ok None :: ('e, string list option) result)" "\<And>cs. agreed_compressors cs doc = []"
    using that by (intro found [of None]) (simp_all add: negotiate_def)
  from raw_get_decoded [OF assms, of "''compression''"]
  consider (absent) "raw_get d ''compression'' = Ok None" "document_get doc ''compression'' = None"
    | (present) raw v where "raw_get d ''compression'' = Ok (Some raw)" "raw_deep raw = Ok v" "document_get doc ''compression'' = Some v"
    by (auto split: result.splits option.splits)
  then show thesis
  proof cases
    case absent
    then show ?thesis by (intro none) (simp_all add: requested_compressors_def agreed_compressors_def)
  next
    case present
    from raw_deep_array [OF present(2)] show ?thesis
    proof (elim disjE exE conjE)
      fix a vs assume "raw = R_Array a" "v = B_Array vs" "array_shallow a = Ok vs"
      with present show ?thesis
        by (intro found [of "Some (string_values vs)"]) (simp_all add: requested_compressors_def agreed_compressors_def names)
    next
      assume "\<forall>a. raw \<noteq> R_Array a" "\<forall>vs. v \<noteq> B_Array vs"
      with present show ?thesis
        by (intro none) (auto simp: requested_compressors_def agreed_compressors_def split: raw_bson.splits bson.splits)
    qed
  qed
qed

lemma length_agreed: "length (agreed_compressors cs doc) \<le> length cs"
  by (auto simp: agreed_compressors_def split: option.splits bson.splits)

lemma received_as_Msg: "\<exists>y. received_as crc b h (MB_Msg m) = MB_Msg y \<and> msg_sections y = msg_sections m"
  by (simp add: received_as_def checksummed_def Let_def)

text \<open>A reply of moderate size is written as one frame.\<close>

lemma send_reply_frame:
  assumes "reply_ok m" "message_body_len m \<le> 40000000"
  shows "\<exists>f. send_reply crc None ctx to_id m out = (Ok (), ctx\<lparr>request_id_counter := request_id_counter ctx + 1\<rparr>, out @ f)
    \<and> (\<forall>rest. parse_message crc (f @ rest) MAX_MSG_LEN =
         (Ok (Some (reply_header ctx to_id m, received_as crc (ctx_checksum ctx) (reply_header ctx to_id m) m)), rest))"
proof -
  have "reply_size (ctx_checksum ctx) m \<le> 48000000" using assms(2) by (simp add: reply_size_def)
  from send_reply_small [OF assms(1) this] obtain f where
    "good_frame crc MAX_MSG_LEN f (reply_header ctx to_id m) (received_as crc (ctx_checksum ctx) (reply_header ctx to_id m) m)"
    "send_reply crc None ctx to_id m out = (case socket_write None f out of (r, out) \<Rightarrow> (r, ctx\<lparr>request_id_counter := request_id_counter ctx + 1\<rparr>, out))"
    by metis
  then show ?thesis by (intro exI [of _ f]) (simp add: socket_write_def parse_message_good)
qed

text \<open>How the peer reads an answer to a command.\<close>

definition answers :: "(bytes \<Rightarrow> u32) \<Rightarrow> connection_info \<Rightarrow> header \<Rightarrow> bytes \<Rightarrow> sections \<Rightarrow> bool" where
  "answers crc ctx h f s \<longleftrightarrow> (\<exists>h' y. (\<forall>rest. parse_message crc (f @ rest) MAX_MSG_LEN = (Ok (Some (h', MB_Msg y)), rest))
     \<and> request_id h' = request_id_counter ctx \<and> response_to h' = request_id h \<and> msg_sections y = s)"

lemma send_msg_answers:
  assumes "sendable_msg m" "op_msg_body_len m \<le> 40000000"
  shows "\<exists>f. send_reply crc None ctx (request_id h) (MB_Msg m) out = (Ok (), ctx\<lparr>request_id_counter := request_id_counter ctx + 1\<rparr>, out @ f)
    \<and> answers crc ctx h f (msg_sections m)"
proof -
  have ok: "reply_ok (MB_Msg m)" "message_body_len (MB_Msg m) \<le> 40000000" using assms by (simp_all add: sendable_reply_ok)
  let ?h = "reply_header ctx (request_id h) (MB_Msg m)"
  from send_reply_frame [OF ok, of crc ctx "request_id h" out] obtain f where f:
    "send_reply crc None ctx (request_id h) (MB_Msg m) out = (Ok (), ctx\<lparr>request_id_counter := request_id_counter ctx + 1\<rparr>, out @ f)"
    "\<And>rest. parse_message crc (f @ rest) MAX_MSG_LEN = (Ok (Some (?h, received_as crc (ctx_checksum ctx) ?h (MB_Msg m))), rest)" by auto
  moreover obtain y where "received_as crc (ctx_checksum ctx) ?h (MB_Msg m) = MB_Msg y" "msg_sections y = msg_sections m"
    using received_as_Msg by blast
  ultimately have "answers crc ctx h f (msg_sections m)"
    unfolding answers_def by (intro exI [of _ ?h] exI [of _ y]) (simp add: reply_header_def)
  with f(1) show ?thesis by blast
qed

lemma process_frame_msg:
  assumes "deep (sec_body (msg_sections msg)) = Ok doc" "document_command doc = Some name"
  shows "process_frame crc z cfg handle io (h, MB_Msg msg) ctx out =
    (case handle (io_draws io) ctx \<lparr>cmd_name = name, cmd_body = sec_body (msg_sections msg),
        cmd_sequences = sec_sequences (msg_sections msg), cmd_flags = msg_flags msg\<rparr> of
       (Panic, ctx) \<Rightarrow> (Panic, ctx, out)
     | (r, ctx) \<Rightarrow> if flags_contain (msg_flags msg) MORE_TO_COME then (Ok NextFrame, ctx, out)
         else (case r of
           Ok (ReplyMsg reply) \<Rightarrow> then_next (send_reply crc (io_fault io) ctx (request_id h) (MB_Msg reply) out)
         | Ok NoReply \<Rightarrow> (Ok NextFrame, ctx, out)
         | Err err \<Rightarrow> keep (ctx, out) (error_reply err (MB_Msg msg)) (\<lambda>r. case r of
             Some reply \<Rightarrow> then_next (send_reply crc (io_fault io) ctx (request_id h) reply out)
           | None \<Rightarrow> (Ok CloseConnection, ctx, out))
         | Panic \<Rightarrow> (Panic, ctx, out)))"
  using raw_command_decoded [OF assms(1)] assms(2) 
  by (auto simp: process_frame_def handle_msg_def Let_def split: prod.splits result.splits reply.splits)

text \<open>
  (C18) The handshake negotiates compression end to end: a \<open>hello\<close> (or \<open>isMaster\<close>) command in an OP_MSG is
  answered with one frame that the client reads as an OP_MSG whose document, decoded, is the handshake
  document with the compressors the server is configured with and the client named, in the server's
  order of preference (none if the client sent no array); the connection records the same list.
\<close>

theorem hello_negotiates:
  assumes "deep (sec_body (msg_sections msg)) = Ok doc" and "document_command doc = Some name" and "is_handshake name"
    and "\<not> flags_contain (msg_flags msg) MORE_TO_COME" and "io_fault io = None"
    and "date_time_of (env_now (io_draws io)) = (Ok ms :: (error, i64) result)" and "length cs \<le> 1000"
  shows "\<exists>f raw ctx'. process_frame crc z cfg (builtin_handler cs max_len inner) io (h, MB_Msg msg) ctx out = (Ok NextFrame, ctx', out @ f)
    \<and> answers crc ctx h f \<lparr>sec_body = raw, sec_sequences = []\<rparr>
    \<and> deep raw = Ok (handshake_document ms (agreed_compressors cs doc) max_len (name \<noteq> ''hello''))
    \<and> negotiated_compressors ctx' = agreed_compressors cs doc"
proof -
  let ?agreed = "agreed_compressors cs doc" and ?legacy = "name \<noteq> ''hello''"
  let ?ctx = "ctx\<lparr>negotiated_compressors := ?agreed\<rparr>"
  have len: "length ?agreed \<le> 1000" using length_agreed [of cs doc] assms(7) by linarith
  define d where "d = handshake_document ms ?agreed max_len ?legacy"
  define m where "m = \<lparr>msg_flags = 0, msg_sections = \<lparr>sec_body = doc_bytes d, sec_sequences = []\<rparr>, msg_checksum = None\<rparr>"
  have reply: "handshake_reply (env_now (io_draws io)) ?agreed max_len ?legacy = Ok m" "sendable_msg m" "deep (doc_bytes d) = Ok d"
    using handshake_reply_ok [OF assms(6) len, of max_len ?legacy] by (simp_all only: d_def m_def sendable_msg_def op_msg.simps simp_thms)
  have "op_msg_body_len m \<le> 40000000"
    using handshake_document_length [OF len, of ms max_len ?legacy]
    by (simp add: m_def op_msg_body_len_def sections_size_def d_def del: bson_bytes.simps)
  from send_msg_answers [OF reply(2) this, of crc ?ctx h out] obtain f where f: "answers crc ctx h f (msg_sections m)"
    "send_reply crc None ?ctx (request_id h) (MB_Msg m) out = (Ok (), ?ctx\<lparr>request_id_counter := request_id_counter ctx + 1\<rparr>, out @ f)"
    by (auto simp: answers_def)
  obtain requested where req: "requested_compressors (sec_body (msg_sections msg)) = (Ok requested :: (error, string list option) result)"
    "negotiate cs requested = ?agreed" using negotiate_decoded [OF assms(1)] by metis
  have "process_frame crc z cfg (builtin_handler cs max_len inner) io (h, MB_Msg msg) ctx out
      = (Ok NextFrame, ?ctx\<lparr>request_id_counter := request_id_counter ctx + 1\<rparr>, out @ f)"
    unfolding process_frame_msg [OF assms(1,2)]
    using assms(3,4,5) req reply(1) f(2) by (simp add: builtin_handler_def then_next_def Let_def)
  with f(1) reply(3) show ?thesis by (auto simp: m_def d_def)
qed

text \<open>
  (C20) A command error reaches the client: when the handler reports one, the client receives one OP_MSG
  answering its request whose document, decoded, is \<open>{ok: 0.0, errmsg, code, codeName, $db: "admin"}\<close> with
  the handler's message, code and code name, and the connection goes on.
\<close>

theorem command_error_answered:
  assumes "deep (sec_body (msg_sections msg)) = Ok doc" and "document_command doc = Some name"
    and "handle (io_draws io) ctx \<lparr>cmd_name = name, cmd_body = sec_body (msg_sections msg),
        cmd_sequences = sec_sequences (msg_sections msg), cmd_flags = msg_flags msg\<rparr> = (Err (CommandError code code_name what), ctx')"
    and "\<not> flags_contain (msg_flags msg) MORE_TO_COME" and "io_fault io = None"
    and "wf_str code_name" and "wf_str what" and "length code_name + length what \<le> 16000000"
  shows "\<exists>f raw. process_frame crc z cfg handle io (h, MB_Msg msg) ctx out
      = (Ok NextFrame, ctx'\<lparr>request_id_counter := request_id_counter ctx' + 1\<rparr>, out @ f)
    \<and> answers crc ctx' h f \<lparr>sec_body = raw, sec_sequences = []\<rparr>
    \<and> deep raw = Ok [(''ok'', B_Double 0), (''errmsg'', B_String what), (''code'', B_Int32 code),
         (''codeName'', B_String code_name), (''$db'', B_String ''admin'')]"
proof -
  define d where "d = [(''ok'', B_Double 0), (''errmsg'', B_String what), (''code'', B_Int32 code),
         (''codeName'', B_String code_name), (''$db'', B_String ''admin'')]"
  define m where "m = \<lparr>msg_flags = 0, msg_sections = \<lparr>sec_body = doc_bytes d, sec_sequences = []\<rparr>, msg_checksum = None\<rparr>"
  let ?e = "CommandError code code_name what"
  have doc: "to_error_response_doc ?e = Some d"
    by (simp add: to_error_response_doc_def document_add_def document_new_def d_def Let_def)
  have wf: "wf_doc d" using error_document_wf [OF doc] assms(6,7) by (simp add: error_ok_def)
  have len: "length (doc_bytes d) \<le> 16000100"
    using assms(8) by (simp add: d_def as_scalar_def scalar_bytes_def length_string_bytes)
  note enc = document_encode_ok [OF wf, THEN conjunct1] document_encode_ok [OF wf, THEN conjunct2]
  have dec: "deep (doc_bytes d) = Ok d" using deep_doc_bytes [OF wf] len by (simp add: d_def)
  have m: "op_msg_reply 0 (doc_bytes d) = Ok m" "sendable_msg m"
    using op_msg_reply_ok [OF enc(2)] len by (simp_all add: m_def sendable_msg_def)
  have "op_msg_body_len m \<le> 40000000" using len by (simp add: m_def op_msg_body_len_def sections_size_def)
  from send_msg_answers [OF m(2) this, of crc ctx' h out] obtain f where f: "answers crc ctx' h f (msg_sections m)"
    "send_reply crc None ctx' (request_id h) (MB_Msg m) out = (Ok (), ctx'\<lparr>request_id_counter := request_id_counter ctx' + 1\<rparr>, out @ f)"
    by auto
  have "error_reply ?e (MB_Msg msg) = (Ok (Some (MB_Msg m)) :: (server_error, message_body option) result)"
    using enc(1) len m(1) by (simp add: error_reply_def doc)
  then have "process_frame crc z cfg handle io (h, MB_Msg msg) ctx out
      = (Ok NextFrame, ctx'\<lparr>request_id_counter := request_id_counter ctx' + 1\<rparr>, out @ f)"
    unfolding process_frame_msg [OF assms(1,2)] using assms(3,4,5) f(2) by (simp add: then_next_def)
  with f(1) dec show ?thesis by (auto simp: m_def d_def)
qed

definition answers_query :: "(bytes \<Rightarrow> u32) \<Rightarrow> connection_info \<Rightarrow> header \<Rightarrow> bytes \<Rightarrow> i32 \<Rightarrow> document \<Rightarrow> bool" where
  "answers_query crc ctx h f flags d \<longleftrightarrow> (\<exists>h' r raw. (\<forall>rest. parse_message crc (f @ rest) MAX_MSG_LEN = (Ok (Some (h', MB_Reply r)), rest))
     \<and> request_id h' = request_id_counter ctx \<and> response_to h' = request_id h
     \<and> response_flags r = flags \<and> documents r = [raw] \<and> deep raw = Ok d)"

lemma send_query_answers:
  assumes "doc_ok raw" "deep raw = Ok d" "length raw \<le> 30000000" "flags AND REPLY_FLAGS_ALL = flags"
  shows "\<exists>f. send_reply crc None ctx (request_id h) (MB_Reply ((query_handshake_reply raw)\<lparr>response_flags := flags\<rparr>)) out
      = (Ok (), ctx\<lparr>request_id_counter := request_id_counter ctx + 1\<rparr>, out @ f) \<and> answers_query crc ctx h f flags d"
proof -
  let ?r = "(query_handshake_reply raw)\<lparr>response_flags := flags\<rparr>"
  have ok: "reply_ok (MB_Reply ?r)" using assms(1,4) by (simp add: reply_ok_def op_reply_ok_def query_handshake_reply_def)
  have len: "message_body_len (MB_Reply ?r) \<le> 40000000" using assms(3) by (simp add: op_reply_body_len_def query_handshake_reply_def)
  from send_reply_frame [OF ok len, of crc ctx "request_id h" out] obtain f where
    f: "send_reply crc None ctx (request_id h) (MB_Reply ?r) out = (Ok (), ctx\<lparr>request_id_counter := request_id_counter ctx + 1\<rparr>, out @ f)"
    "\<And>rest. parse_message crc (f @ rest) MAX_MSG_LEN = (Ok (Some (reply_header ctx (request_id h) (MB_Reply ?r), MB_Reply ?r)), rest)"
    by (auto simp: received_as_def)
  have "answers_query crc ctx h f flags d"
    unfolding answers_query_def using f(2) assms(2)
    by (intro exI [of _ "reply_header ctx (request_id h) (MB_Reply ?r)"] exI [of _ ?r] exI [of _ raw])
      (simp add: reply_header_def query_handshake_reply_def)
  with f(1) show ?thesis by blast
qed

abbreviation query_refusal :: document where
  "query_refusal \<equiv> [(''ok'', B_Double 0), (''errmsg'', B_String ''OP_QUERY only supports hello/isMaster''),
     (''code'', B_Int32 59), (''codeName'', B_String ''CommandNotFound''), (''$db'', B_String ''admin'')]"

lemma handle_query_refused:
  assumes "raw_command (query_doc query) = Ok name" "\<not> is_handshake name" "io_fault io = None"
  shows "\<exists>f. handle_query crc cfg io h query ctx out = (Ok NextFrame, ctx\<lparr>request_id_counter := request_id_counter ctx + 1\<rparr>, out @ f)
    \<and> answers_query crc ctx h f 10 query_refusal"
proof -
  have wf: "wf_doc query_refusal" by (simp add: as_scalar_def scalar_ok_def eval_simps)
  have len: "length (doc_bytes query_refusal) \<le> 1000" by (simp add: as_scalar_def scalar_bytes_def length_string_bytes)
  have raw: "document_encode query_refusal = Ok (doc_bytes query_refusal)" "doc_ok (doc_bytes query_refusal)" "deep (doc_bytes query_refusal) = Ok query_refusal"
    using document_encode_ok [OF wf] deep_doc_bytes [OF wf] len by simp_all
  have er: "error_reply (error_command 59 ''CommandNotFound'' ''OP_QUERY only supports hello/isMaster'') (MB_Query query)
    = (Ok (Some (MB_Reply ((query_handshake_reply (doc_bytes query_refusal))\<lparr>response_flags := 10\<rparr>))) :: (server_error, message_body option) result)"
    using raw(1) by (simp add: error_reply_def error_command_def to_error_response_doc_def document_add_def document_new_def
        query_handshake_reply_def Let_def del: bson_bytes.simps)
  obtain f where "send_reply crc None ctx (request_id h) (MB_Reply ((query_handshake_reply (doc_bytes query_refusal))\<lparr>response_flags := 10\<rparr>)) out
      = (Ok (), ctx\<lparr>request_id_counter := request_id_counter ctx + 1\<rparr>, out @ f)" "answers_query crc ctx h f 10 query_refusal"
    using send_query_answers [OF raw(2,3), of 10 crc ctx h out] len by (auto simp: REPLY_FLAGS_ALL_def simp del: bson_bytes.simps)
  with er assms show ?thesis
    by (simp add: handle_query_def then_next_def Let_def del: bson_bytes.simps)
qed

text \<open>
  (C19) The legacy handshake: a \<open>hello\<close> or \<open>isMaster\<close> in an OP_QUERY is answered with one OP_REPLY frame,
  without a checksum even when checksums are on, holding the one handshake document with the agreed
  compressors; any other OP_QUERY command is refused with a \<open>QueryFailure\<close> reply with code 59 and leaves
  the negotiated compressors alone.
\<close>

theorem query_handshake:
  assumes "deep (query_doc query) = Ok doc" and "document_command doc = Some name" and "io_fault io = None"
    and "date_time_of (env_now (io_draws io)) = (Ok ms :: (error, i64) result)" and "length (sc_compressors cfg) \<le> 1000"
  shows "\<exists>f ctx'. process_frame crc z cfg handle io (h, MB_Query query) ctx out = (Ok NextFrame, ctx', out @ f)
    \<and> request_id_counter ctx' = request_id_counter ctx + 1
    \<and> (if is_handshake name
       then negotiated_compressors ctx' = agreed_compressors (sc_compressors cfg) doc
         \<and> answers_query crc ctx h f 8 (handshake_document ms (agreed_compressors (sc_compressors cfg) doc) (sc_max_msg_len cfg) True)
       else negotiated_compressors ctx' = negotiated_compressors ctx
         \<and> answers_query crc ctx h f 10 query_refusal)"
proof -
  have cmd: "raw_command (query_doc query) = Ok name" using raw_command_decoded [OF assms(1)] assms(2) by simp
  show ?thesis
  proof (cases "is_handshake name")
    case True
    let ?agreed = "agreed_compressors (sc_compressors cfg) doc"
    let ?d = "handshake_document ms ?agreed (sc_max_msg_len cfg) True" and ?ctx = "ctx\<lparr>negotiated_compressors := ?agreed\<rparr>"
    have len: "length ?agreed \<le> 1000" using length_agreed [of "sc_compressors cfg" doc] assms(5) by linarith
    obtain m where m: "handshake_reply (env_now (io_draws io)) ?agreed (sc_max_msg_len cfg) True = Ok m"
      "doc_ok (sec_body (msg_sections m))" "deep (sec_body (msg_sections m)) = Ok ?d" "length (sec_body (msg_sections m)) \<le> 30000000"
      using handshake_reply_ok [OF assms(4) len, of "sc_max_msg_len cfg" True] handshake_document_length [OF len, of ms "sc_max_msg_len cfg" True]
      by (auto simp: op_msg_ok_def simp del: bson_bytes.simps)
    have q: "query_handshake_reply raw = (query_handshake_reply raw)\<lparr>response_flags := 8\<rparr>" for raw by (simp add: query_handshake_reply_def)
    from send_query_answers [OF m(2,3,4), of 8 crc ?ctx h out] obtain f where f: "answers_query crc ctx h f 8 ?d"
      "send_reply crc None ?ctx (request_id h) (MB_Reply (query_handshake_reply (sec_body (msg_sections m)))) out
        = (Ok (), ?ctx\<lparr>request_id_counter := request_id_counter ctx + 1\<rparr>, out @ f)"
      unfolding q [symmetric] by (auto simp: answers_query_def REPLY_FLAGS_ALL_def)
    obtain requested where "requested_compressors (query_doc query) = (Ok requested :: (server_error, string list option) result)"
      "negotiate (sc_compressors cfg) requested = ?agreed" using negotiate_decoded [OF assms(1)] by metis
    with True cmd m(1) f assms(3) show ?thesis
      by (simp add: process_frame_def handle_query_def then_next_def Let_def)
  next
    case False
    with handle_query_refused [OF cmd False assms(3), of crc cfg h ctx out] show ?thesis
      by (auto simp: process_frame_def)
  qed
qed

end
