(* ===== verification/Demo_Server.thy ===== *)
theory Demo_Server
  imports Server
begin

text \<open>
  The example server (\<open>examples/mongowire-server/src/main.rs\<close>): its command handler, the proof that it and
  the whole stack of handlers around it honour the handler contract, and concrete runs of the server.
  The log line each command prints is left out.
\<close>

section \<open>Model\<close>

abbreviation (input) GREETING :: string where "GREETING \<equiv> ''hello from mongowire''"

definition unix_seconds :: "system_time \<Rightarrow> nat option" where
  "unix_seconds now = (if 0 \<le> now then Some (nat (now div 1000000000)) else None)"

definition demo_find :: "env \<Rightarrow> command \<Rightarrow> (error, reply) result" where
  "demo_find e cmd =
     andthen (map_err bson_failure (raw_get (cmd_body cmd) ''find'')) (\<lambda>v.
     andthen (case v of
         Some (R_String name) \<Rightarrow> Ok name
       | Some _ \<Rightarrow> Err (error_command 73 ''TypeMismatch'' ''find: the collection name must be a string'')
       | None \<Rightarrow> Err (error_command 40414 ''Location40414'' ''find: missing collection name'')) (\<lambda>collection.
     if collection \<noteq> ''demo''
     then Err (error_command 26 ''NamespaceNotFound'' (''no such collection: demo.'' @ collection))
     else let oid = fst (object_id_new (unix_seconds (env_now e)) (env_oid_random e) (env_oid_counter e));
              first = document_add ''_id'' (B_ObjectId oid) document_new;
              first = document_add ''greeting'' (B_String GREETING) first;
              cursor = [(''id'', B_Int64 0), (''ns'', B_String ''demo.demo''), (''firstBatch'', B_Array [B_Document first])];
              reply = [(''cursor'', B_Document cursor), (''ok'', B_Double F64_ONE)]
          in map_ok ReplyMsg (andthen (map_err bson_failure (document_encode reply)) (\<lambda>raw. op_msg_reply 0 raw))))"

definition demo_handle :: "i32 \<Rightarrow> env \<Rightarrow> command \<Rightarrow> (error, reply) result" where
  "demo_handle max_len e cmd =
     (if cmd_name cmd = ''hello'' then map_ok ReplyMsg (handshake_reply (env_now e) [] max_len False)
      else if cmd_name cmd = ''isMaster'' \<or> cmd_name cmd = ''ismaster''
      then map_ok ReplyMsg (handshake_reply (env_now e) [] max_len True)
      else if cmd_name cmd = ''ping'' then map_ok ReplyMsg ping_reply
      else if cmd_name cmd = ''buildInfo'' then
        let d = document_add ''version'' (B_String ''7.0.0-mongowire'') document_new;
            d = document_add ''gitVersion'' (B_String ''demo'') d;
            d = document_add ''ok'' (B_Double F64_ONE) d
        in map_ok ReplyMsg (andthen (map_err bson_failure (document_encode d)) (\<lambda>raw. op_msg_reply 0 raw))
      else if cmd_name cmd = ''find'' then demo_find e cmd
      else Err (error_command 59 ''CommandNotFound'' (''no such command: '' @ cmd_name cmd)))"

definition demo_handler :: "i32 \<Rightarrow> handler" where
  "demo_handler max_len e ctx cmd = (demo_handle max_len e cmd, ctx)"

section \<open>The contract\<close>

lemma command_error_ok: "error_ok (error_command code code_name what) \<longleftrightarrow> wf_str code_name \<and> wf_str what"
  by (simp add: error_ok_def error_command_def)

lemma length_object_id_new: "length rnd = 5 \<Longrightarrow> length (fst (object_id_new now rnd counter)) = 12"
  by (simp add: object_id_new_def Let_def)

lemma demo_find_outcome:
  assumes "length (env_oid_random e) = 5"
  shows "reply_outcome (demo_find e cmd)"
proof -
  have name: "wf_str name" if "raw_ok (R_String name)" for name using that by (simp add: raw_ok_def scalar_ok_def)
  let ?o = "fst (object_id_new (unix_seconds (env_now e)) (env_oid_random e) (env_oid_counter e))"
  have wf: "wf_doc [(''cursor'', B_Document [(''id'', B_Int64 0), (''ns'', B_String ''demo.demo''),
      (''firstBatch'', B_Array [B_Document [(''_id'', B_ObjectId ?o), (''greeting'', B_String GREETING)]])]), (''ok'', B_Double F64_ONE)]"
    using length_object_id_new [OF assms] by (simp add: as_scalar_def scalar_ok_def eval_simps)
  show ?thesis
    unfolding demo_find_def reply_outcome_def
    using raw_get_ok [of "cmd_body cmd" "''find''"]
    by (intro outcome_andthen [where Q = "\<lambda>v. case v of Some v \<Rightarrow> raw_ok v | None \<Rightarrow> True"] outcome_andthen [where Q = wf_str] outcome_bson)
      (auto simp: command_error_ok wf_lit name outcome_map_ok document_add_def document_new_def Let_def
        intro!: document_reply_outcome [OF wf] split: option.splits raw_bson.splits)
qed

lemma demo_handle_outcome:
  assumes "env_ok e" "wf_str (cmd_name cmd)"
  shows "reply_outcome (demo_handle max_len e cmd)"
proof -
  have wf: "wf_doc [(''version'', B_String ''7.0.0-mongowire''), (''gitVersion'', B_String ''demo''), (''ok'', B_Double F64_ONE)]"
    by (simp add: as_scalar_def scalar_ok_def eval_simps)
  have e: "date_time_of (env_now e) \<noteq> (Panic :: (error, i64) result)" "length (env_oid_random e) = 5"
    using assms(1) by (simp_all add: env_ok_def)
  have unknown: "reply_outcome (Err (error_command 59 ''CommandNotFound'' (''no such command: '' @ cmd_name cmd)))"
    using assms(2) by (simp add: reply_outcome_def command_error_ok wf_lit)
  show ?thesis
    unfolding demo_handle_def
    using unknown by (auto simp: document_add_def document_new_def Let_def
        intro!: reply_outcome_msg handshake_reply_outcome [OF e(1)] ping_reply_outcome demo_find_outcome [OF e(2)] document_reply_outcome [OF wf])
qed

interpretation demo: quiet_handler "demo_handler max_len" for max_len
  by unfold_locales (simp_all add: demo_handler_def demo_handle_outcome)

interpretation full: quiet_handler "builtin_handler compressors max_len (scram_bridge c creds_of (demo_handler max_len))"
  for compressors max_len c creds_of
  by (intro builtin_contract bridge_contract demo.quiet_handler_axioms)

section \<open>Concrete runs\<close>

definition sample_stack :: handler where
  "sample_stack = builtin_handler [Zstd, Zlib] MAX_MSG_LEN
     (scram_bridge toy_crypto (memory_lookup (memory_insert toy_crypto Sha256 ''u'' ''pw'' Map.empty)) (demo_handler MAX_MSG_LEN))"

lemma sample_stack_quiet: "quiet_handler sample_stack"
  unfolding sample_stack_def by (rule full.quiet_handler_axioms)

definition sample_io :: io_env where
  "sample_io = \<lparr>io_draws = \<lparr>env_now = 1000000000, env_random = [1, 2, 3], env_oid_random = [1, 2, 3, 4, 5], env_oid_counter = 7\<rparr>,
     io_fault = None\<rparr>"

lemma sample_io_ok: "env_ok (io_draws sample_io)" "io_fault sample_io = None"
  "date_time_of (env_now (io_draws sample_io)) = (Ok 1000 :: (error, i64) result)"
  by (simp_all add: sample_io_def env_ok_def date_time_of_def)

definition sample_request :: "document \<Rightarrow> op_msg" where
  "sample_request d = \<lparr>msg_flags = 0, msg_sections = \<lparr>sec_body = doc_bytes d, sec_sequences = []\<rparr>, msg_checksum = None\<rparr>"

definition sample_items :: "served_item list" where
  "sample_items = [(Ok (header_new 9 0 Msg, MB_Msg (sample_request [(''ping'', B_Int32 1)])), sample_io),
     (Err (PE_InvalidHeader ''length''), sample_io)]"

lemma sample_items_ok: "items_ok sample_items" "list_all (\<lambda>(_, io). io_fault io = None) sample_items"
  by (simp_all add: sample_items_def items_ok_def sample_io_ok)

abbreviation hello_document :: document where
  "hello_document \<equiv> [(''hello'', B_Int32 1), (''compression'', B_Array [B_String ''snappy'', B_String ''zlib''])]"

lemma sample_decoded:
  "deep (doc_bytes hello_document) = Ok hello_document" "deep (doc_bytes [(''x'', B_Int32 1)]) = Ok [(''x'', B_Int32 1)]"
proof -
  have wf: "wf_doc hello_document" "wf_doc [(''x'', B_Int32 1)]" by (simp_all add: as_scalar_def scalar_ok_def eval_simps)
  show "deep (doc_bytes hello_document) = Ok hello_document"
    using deep_doc_bytes [OF wf(1)] by (simp add: as_scalar_def scalar_bytes_def named_def show_nat.simps [of 0] show_nat.simps [of "Suc 0"])
  show "deep (doc_bytes [(''x'', B_Int32 1)]) = Ok [(''x'', B_Int32 1)]"
    using deep_doc_bytes [OF wf(2)] by (simp add: as_scalar_def scalar_bytes_def)
qed

theorem server_never_panics_witness:
  "fst (process_socket (\<lambda>_. 0) stored_codecs server_config_default sample_stack None sample_items) \<noteq> Panic"
  by (rule server_never_panics [OF quiet_handler.axioms(1) [OF sample_stack_quiet] sample_items_ok(1)])

theorem server_reply_stream_witness:
  "\<exists>replies r ctx out. process_socket (\<lambda>_. 0) stored_codecs server_config_default sample_stack None sample_items = (r, ctx, out)
    \<and> decode_all (\<lambda>_. 0) (mongo_codec_new codec_config_default) (length replies) out = (Some replies, [])
    \<and> subseq (map (\<lambda>x. response_to (fst x)) replies) [9]"
proof -
  obtain r ctx out where run: "process_socket (\<lambda>_. 0) stored_codecs server_config_default sample_stack None sample_items = (r, ctx, out)"
    by (metis prod_cases3)
  have "request_ids stored_codecs server_config_default sample_items = [9]"
    by (simp add: request_ids_def sample_items_def awaits_reply_def sample_request_def header_new_def flags_contain_def)
  with server_reply_stream [OF sample_stack_quiet sample_items_ok run] run show ?thesis by metis
qed

theorem hello_negotiates_witness:
  "\<exists>f raw ctx'. process_frame (\<lambda>_. 0) stored_codecs server_config_default (builtin_handler [Zstd, Zlib] MAX_MSG_LEN (demo_handler MAX_MSG_LEN))
      sample_io (header_new 9 0 Msg, MB_Msg (sample_request hello_document)) connection_info_new [] = (Ok NextFrame, ctx', f)
    \<and> answers (\<lambda>_. 0) connection_info_new (header_new 9 0 Msg) f \<lparr>sec_body = raw, sec_sequences = []\<rparr>
    \<and> deep raw = Ok (handshake_document 1000 [Zlib] MAX_MSG_LEN False) \<and> negotiated_compressors ctx' = [Zlib]"
proof -
  have a: "agreed_compressors [Zstd, Zlib] hello_document = [Zlib]" by (simp add: agreed_compressors_def)
  show ?thesis
    using hello_negotiates [of "sample_request hello_document" hello_document "''hello''" sample_io 1000 "[Zstd, Zlib]" "\<lambda>_. 0" stored_codecs
        server_config_default MAX_MSG_LEN "demo_handler MAX_MSG_LEN" "header_new 9 0 Msg" connection_info_new "[]"] sample_decoded(1) sample_io_ok
    by (simp add: sample_request_def document_command_def is_handshake_def flags_contain_def a del: bson_bytes.simps)
qed

theorem command_error_answered_witness:
  "\<exists>f raw ctx'. process_frame (\<lambda>_. 0) stored_codecs server_config_default (demo_handler MAX_MSG_LEN)
      sample_io (header_new 9 0 Msg, MB_Msg (sample_request [(''x'', B_Int32 1)])) connection_info_new [] = (Ok NextFrame, ctx', f)
    \<and> answers (\<lambda>_. 0) connection_info_new (header_new 9 0 Msg) f \<lparr>sec_body = raw, sec_sequences = []\<rparr>
    \<and> deep raw = Ok [(''ok'', B_Double 0), (''errmsg'', B_String ''no such command: x''), (''code'', B_Int32 59),
         (''codeName'', B_String ''CommandNotFound''), (''$db'', B_String ''admin'')]"
  using command_error_answered [of "sample_request [(''x'', B_Int32 1)]" "[(''x'', B_Int32 1)]" "''x''" "demo_handler MAX_MSG_LEN" sample_io
      connection_info_new 59 "''CommandNotFound''" "''no such command: x''" connection_info_new "\<lambda>_. 0" stored_codecs server_config_default
      "header_new 9 0 Msg" "[]"] sample_decoded(2) sample_io_ok
  by (simp add: sample_request_def document_command_def flags_contain_def demo_handler_def demo_handle_def error_command_def wf_lit
      del: bson_bytes.simps) blast

theorem query_handshake_witness:
  "\<exists>f ctx'. process_frame (\<lambda>_. 0) stored_codecs server_config_default (demo_handler MAX_MSG_LEN) sample_io
      (header_new 9 0 Query, MB_Query (op_query_handshake (doc_bytes hello_document))) connection_info_new [] = (Ok NextFrame, ctx', f)
    \<and> negotiated_compressors ctx' = []
    \<and> answers_query (\<lambda>_. 0) connection_info_new (header_new 9 0 Query) f 8 (handshake_document 1000 [] MAX_MSG_LEN True)"
proof -
  have a: "agreed_compressors [] hello_document = []" by (simp add: agreed_compressors_def)
  show ?thesis
    using query_handshake [of "op_query_handshake (doc_bytes hello_document)" hello_document "''hello''" sample_io 1000 server_config_default
        "\<lambda>_. 0" stored_codecs "demo_handler MAX_MSG_LEN" "header_new 9 0 Query" connection_info_new "[]"] sample_decoded(1) sample_io_ok
    by (auto simp: op_query_handshake_def document_command_def is_handshake_def server_config_default_def a simp del: bson_bytes.simps)
qed

end
