(* ===== verification/Test_Client.thy ===== *)
theory Test_Client
  imports Demo_Server
begin

text \<open>
  The wire client of the tests (\<open>mongowire/src/test_client.rs\<close>): request ids, framing of requests, the
  receive loop over the reads of a socket, and request/response round trips.  \<open>recv\<close> is proved
  independent of how the stream is cut into reads, and client and server are composed: replies are
  read back in order, and a request completes with its answer.
\<close>

section \<open>Model\<close>

text \<open>
  The client's \<open>ProtocolError\<close>: one of framing, or an \<open>io::Error\<close> of the socket or around an encoding
  error.
\<close>

datatype client_error = CE_Protocol protocol_error | CE_InvalidData protocol_error | CE_Socket

text \<open>
  The stream as the reads and writes see it: what each \<open>read_buf\<close> will append (\<open>None\<close> for a failing
  read; nothing left, or nothing read, is the end of the stream) and what was written so far.
\<close>

record test_client =
  tc_reads :: "bytes option list"
  tc_sent :: bytes
  tc_buf :: bytes

definition test_client_connect :: "bytes option list \<Rightarrow> test_client" where
  "test_client_connect reads = \<lparr>tc_reads = reads, tc_sent = [], tc_buf = []\<rparr>"

text \<open>\<open>NEXT.fetch_add(1)\<close> on the process-wide counter, which wraps.\<close>

definition next_id :: "i32 \<Rightarrow> i32 \<times> i32" where
  "next_id counter = (counter, counter + 1)"

definition frame_bytes :: "(bytes \<Rightarrow> u32) \<Rightarrow> i32 \<Rightarrow> i32 \<Rightarrow> message_body \<Rightarrow> bool \<Rightarrow> (client_error, bytes) result" where
  "frame_bytes crc request response body checksum =
     (case encode_message crc (header_new request response (message_opcode body)) body checksum [] of
        (r, _, out) \<Rightarrow> map_ok (\<lambda>_. out) (map_err CE_InvalidData r))"

text \<open>\<open>fault\<close>: whether the write fails, and after how many bytes.\<close>

definition write_frame ::
    "(bytes \<Rightarrow> u32) \<Rightarrow> nat option \<Rightarrow> i32 \<Rightarrow> i32 \<Rightarrow> message_body \<Rightarrow> bool \<Rightarrow> test_client \<Rightarrow> (client_error, unit) result \<times> test_client" where
  "write_frame crc fault request response body checksum c =
     keep c (frame_bytes crc request response body checksum) (\<lambda>f.
     case fault of
       None \<Rightarrow> (Ok (), c\<lparr>tc_sent := tc_sent c @ f\<rparr>)
     | Some n \<Rightarrow> (Err CE_Socket, c\<lparr>tc_sent := tc_sent c @ take n f\<rparr>))"

definition client_send ::
    "(bytes \<Rightarrow> u32) \<Rightarrow> nat option \<Rightarrow> i32 \<Rightarrow> i32 \<Rightarrow> message_body \<Rightarrow> test_client \<Rightarrow> (client_error, unit) result \<times> test_client" where
  "client_send crc fault request response body c = write_frame crc fault request response body False c"

definition send_with_checksum ::
    "(bytes \<Rightarrow> u32) \<Rightarrow> nat option \<Rightarrow> i32 \<Rightarrow> i32 \<Rightarrow> message_body \<Rightarrow> test_client \<Rightarrow> (client_error, unit) result \<times> test_client" where
  "send_with_checksum crc fault request response body c = write_frame crc fault request response body True c"

definition send_op_query_handshake ::
    "(bytes \<Rightarrow> u32) \<Rightarrow> nat option \<Rightarrow> raw_document \<Rightarrow> i32 \<Rightarrow> test_client \<Rightarrow> (client_error, i32) result \<times> i32 \<times> test_client" where
  "send_op_query_handshake crc fault request counter c =
     (let (rid, counter) = next_id counter;
          (r, c) = client_send crc fault rid 0 (MB_Query (op_query_handshake request)) c in
      (map_ok (\<lambda>_. rid) r, counter, c))"

fun recv_loop ::
    "(bytes \<Rightarrow> u32) \<Rightarrow> bytes option list \<Rightarrow> bytes \<Rightarrow> (client_error, (header \<times> message_body) option) result \<times> bytes option list \<times> bytes" where
  "recv_loop crc reads buf = (case parse_message crc buf 0x7FFFFFFF of
     (Err e, buf) \<Rightarrow> (Err (CE_Protocol e), reads, buf)
   | (Panic, buf) \<Rightarrow> (Panic, reads, buf)
   | (Ok (Some m), buf) \<Rightarrow> (Ok (Some m), reads, buf)
   | (Ok None, buf) \<Rightarrow>
       (let eof = (if buf = [] then Ok None else Err (CE_Protocol (PE_InvalidHeader ''truncated message before EOF''))) in
        case reads of
          [] \<Rightarrow> (eof, [], buf)
        | None # reads \<Rightarrow> (Err CE_Socket, reads, buf)
        | Some chunk # reads \<Rightarrow> if chunk = [] then (eof, reads, buf) else recv_loop crc reads (buf @ chunk)))"

declare recv_loop.simps [simp del]

definition recv :: "(bytes \<Rightarrow> u32) \<Rightarrow> test_client \<Rightarrow> (client_error, (header \<times> message_body) option) result \<times> test_client" where
  "recv crc c = (case recv_loop crc (tc_reads c) (tc_buf c) of
     (r, reads, buf) \<Rightarrow> (r, c\<lparr>tc_reads := reads, tc_buf := buf\<rparr>))"

definition recv_op_reply :: "(bytes \<Rightarrow> u32) \<Rightarrow> test_client \<Rightarrow> (client_error, header \<times> op_reply) result \<times> test_client" where
  "recv_op_reply crc c = (case recv crc c of (r, c) \<Rightarrow>
     (andthen r (\<lambda>m. case m of
        None \<Rightarrow> Panic
      | Some (h, MB_Reply reply) \<Rightarrow> Ok (h, reply)
      | Some _ \<Rightarrow> Panic), c))"

definition client_request ::
    "(bytes \<Rightarrow> u32) \<Rightarrow> nat option \<Rightarrow> message_body \<Rightarrow> i32 \<Rightarrow> test_client
     \<Rightarrow> (client_error, header \<times> message_body) result \<times> i32 \<times> test_client" where
  "client_request crc fault body counter c =
     (let (rid, counter) = next_id counter in
      case client_send crc fault rid 0 body c of
        (Ok _, c) \<Rightarrow> (case recv crc c of (r, c) \<Rightarrow>
          (andthen r (\<lambda>m. case m of
             None \<Rightarrow> Panic
           | Some (h, reply) \<Rightarrow> if response_to h = rid then Ok (h, reply) else Panic), counter, c))
      | (Err e, c) \<Rightarrow> (Err e, counter, c)
      | (Panic, c) \<Rightarrow> (Panic, counter, c))"

section \<open>Receiving\<close>

text \<open>What a stream holds next, read in one piece.\<close>

definition next_in_stream :: "(bytes \<Rightarrow> u32) \<Rightarrow> bytes \<Rightarrow> (client_error, (header \<times> message_body) option) result" where
  "next_in_stream crc s = (case parse_message crc s 0x7FFFFFFF of
     (Ok (Some m), _) \<Rightarrow> Ok (Some m)
   | (Ok None, _) \<Rightarrow> if s = [] then Ok None else Err (CE_Protocol (PE_InvalidHeader ''truncated message before EOF''))
   | (Err e, _) \<Rightarrow> Err (CE_Protocol e)
   | (Panic, _) \<Rightarrow> Panic)"

lemma recv_loop_stream:
  assumes "[] \<notin> set chunks" "recv_loop crc (map Some chunks) buf = (r, reads, buf')"
  shows "r = next_in_stream crc (buf @ concat chunks)
    \<and> (\<forall>m. r = Ok (Some m) \<longrightarrow> (\<exists>left. reads = map Some left \<and> [] \<notin> set left
        \<and> parse_message crc (buf @ concat chunks) 0x7FFFFFFF = (Ok (Some m), buf' @ concat left)))"
  using assms
proof (induction chunks arbitrary: buf)
  case Nil
  obtain p rest where p: "parse_message crc buf 0x7FFFFFFF = (p, rest)" by fastforce
  show ?case
  proof (cases p)
    case (Ok m)
    with p Nil parse_message_None [of crc buf "0x7FFFFFFF" rest] show ?thesis
      by (cases m) (auto simp: recv_loop.simps [of crc "[]"] next_in_stream_def Let_def)
  qed (use p Nil in \<open>auto simp: recv_loop.simps [of crc "[]"] next_in_stream_def\<close>)
next
  case (Cons chunk chunks)
  obtain p rest where p: "parse_message crc buf 0x7FFFFFFF = (p, rest)" by fastforce
  show ?case
  proof (cases p)
    case (Ok m)
    show ?thesis
    proof (cases m)
      case None
      with Ok p have "rest = buf" by (simp add: parse_message_None)
      with p Ok None Cons.prems have "recv_loop crc (map Some chunks) (buf @ chunk) = (r, reads, buf')"
        by (auto simp: recv_loop.simps [of crc "Some chunk # _"] split: if_splits)
      from Cons.IH [OF _ this] Cons.prems(1) show ?thesis by simp
    next
      case (Some hm)
      with p Ok obtain f where f: "buf = f @ rest" "good_frame crc 0x7FFFFFFF f (fst hm) (snd hm)"
        using parse_message_Some [of crc buf "0x7FFFFFFF" "fst hm" "snd hm" rest] by auto
      from parse_message_good [OF f(2), of "rest @ chunk @ concat chunks"] Some p Ok Cons.prems f(1) show ?thesis
        by (auto simp: recv_loop.simps [of crc "Some chunk # _"] next_in_stream_def intro: exI [of _ "chunk # chunks"])
    qed
  next
    case (Err e)
    with p parse_message_prefix_Err [of crc buf "0x7FFFFFFF" e rest "chunk @ concat chunks"] Cons.prems show ?thesis
      by (auto simp: recv_loop.simps [of crc "Some chunk # _"] next_in_stream_def split: prod.splits result.splits)
  qed (use p parse_message_panic [of crc buf "0x7FFFFFFF"] in simp)
qed

text \<open>The client reads \<open>n\<close> messages, then finds the end of the stream.\<close>

fun recv_all :: "(bytes \<Rightarrow> u32) \<Rightarrow> nat \<Rightarrow> test_client \<Rightarrow> (client_error, (header \<times> message_body) option) result list" where
  "recv_all crc 0 c = [fst (recv crc c)]"
| "recv_all crc (Suc n) c = (case recv crc c of (r, c) \<Rightarrow> r # recv_all crc n c)"

lemma client_limit: "parse_message crc s MAX_MSG_LEN = (Ok (Some (h, m)), rest) \<Longrightarrow> parse_message crc s 0x7FFFFFFF = (Ok (Some (h, m)), rest)"
  unfolding parse_message_Some good_frame_def by (auto simp: header_parse_Ok header_ok_def)

lemma recv_stream:
  assumes "[] \<notin> set chunks" "tc_reads c = map Some chunks" "recv crc c = (r, c')"
  shows "r = next_in_stream crc (tc_buf c @ concat chunks) \<and> tc_sent c' = tc_sent c
    \<and> (\<forall>m. r = Ok (Some m) \<longrightarrow> (\<exists>left. tc_reads c' = map Some left \<and> [] \<notin> set left
        \<and> parse_message crc (tc_buf c @ concat chunks) 0x7FFFFFFF = (Ok (Some m), tc_buf c' @ concat left)))"
proof -
  obtain r0 reads buf' where l: "recv_loop crc (map Some chunks) (tc_buf c) = (r0, reads, buf')" by (metis prod_cases3)
  then have "r0 = r" "c' = c\<lparr>tc_reads := reads, tc_buf := buf'\<rparr>" using assms(2,3) by (auto simp: recv_def)
  with recv_loop_stream [OF assms(1) l] show ?thesis by simp
qed

text \<open>
  Receiving does not depend on how the network cuts the stream: whatever the sizes of the reads, the
  client's \<open>recv\<close> returns what the whole stream holds next (the first message, the error of the
  first frame, a clean end, or a truncated one), and what it leaves unread is the rest of the stream.
\<close>

theorem recv_chunking:
  assumes "[] \<notin> set chunks" and "tc_reads c = map Some chunks" and "recv crc c = (r, c')"
  shows "r = next_in_stream crc (tc_buf c @ concat chunks)
    \<and> (\<forall>m. r = Ok (Some m) \<longrightarrow> (\<exists>left. tc_reads c' = map Some left \<and> [] \<notin> set left
        \<and> parse_message crc (tc_buf c @ concat chunks) 0x7FFFFFFF = (Ok (Some m), tc_buf c' @ concat left)))"
  using recv_stream [OF assms] by simp

lemma recv_all_replies:
  assumes "decode_all crc (mongo_codec_new codec_config_default) (length replies) s = (Some replies, [])"
    and "[] \<notin> set chunks" "tc_reads c = map Some chunks" "tc_buf c @ concat chunks = s"
  shows "recv_all crc (length replies) c = map (\<lambda>m. Ok (Some m)) replies @ [Ok None]"
  using assms
proof (induction replies arbitrary: s chunks c)
  case Nil
  then have "s = []" by simp
  moreover obtain r c' where rc: "recv crc c = (r, c')" by fastforce
  moreover have "r = next_in_stream crc s" using recv_stream [OF Nil.prems(2,3) rc] Nil.prems(4) by simp
  ultimately show ?case by (simp add: next_in_stream_def parse_message_def)
next
  case (Cons m replies)
  obtain rest where p: "parse_message crc s MAX_MSG_LEN = (Ok (Some m), rest)"
      and d: "decode_all crc (mongo_codec_new codec_config_default) (length replies) rest = (Some replies, [])"
    using Cons.prems(1) by (auto simp: codec_decode_def mongo_codec_new_def codec_config_default_def split: prod.splits result.splits option.splits)
  have p': "parse_message crc s 0x7FFFFFFF = (Ok (Some m), rest)" using p client_limit by (cases m) blast
  obtain r c' where rc: "recv crc c = (r, c')" by fastforce
  note st = recv_stream [OF Cons.prems(2,3) rc, unfolded Cons.prems(4)]
  have r: "r = Ok (Some m)" using st p' by (simp add: next_in_stream_def)
  with st p' obtain left where "tc_reads c' = map Some left" "[] \<notin> set left" "tc_buf c' @ concat left = rest" by auto
  with Cons.IH [OF d] rc r show ?case by simp
qed

section \<open>A client and a server\<close>

text \<open>
  A client reads what a server writes: however the network cuts the bytes a server sent on a
  connection, the client receives the server's replies one by one and then a clean end of stream,
  and they answer, in order, requests that expected an answer.
\<close>

theorem client_reads_replies:
  assumes "quiet_handler handle" and "items_ok items" and "list_all (\<lambda>(_, io). io_fault io = None) items"
    and "process_socket crc z cfg handle peer items = (r, ctx, concat chunks)" and "[] \<notin> set chunks"
  shows "\<exists>replies. recv_all crc (length replies) (test_client_connect (map Some chunks)) = map (\<lambda>m. Ok (Some m)) replies @ [Ok None]
    \<and> subseq (map (\<lambda>x. response_to (fst x)) replies) (request_ids z cfg items)"
proof -
  from quiet_handler.process_items_stream [OF assms(1-3) assms(4) [unfolded process_socket_def]]
  obtain w replies where "concat chunks = [] @ w" "reply_stream crc w replies"
    and sub: "subseq (map (\<lambda>x. response_to (fst x)) replies) (request_ids z cfg items)" by blast
  then have "decode_all crc (mongo_codec_new codec_config_default) (length replies) (concat chunks) = (Some replies, [])"
    unfolding reply_stream_def by (metis append_Nil append_Nil2)
  from recv_all_replies [OF this assms(5), of "test_client_connect (map Some chunks)"] sub show ?thesis
    by (intro exI [of _ replies]) (simp add: test_client_connect_def)
qed

lemma frame_bytes_sendable:
  assumes "sendable (mongo_codec_new codec_config_default) (header_new rid 0 (message_opcode body), body)"
  obtains f where "frame_bytes crc rid 0 body False = Ok f"
    "\<And>rest. codec_decode crc (mongo_codec_new codec_config_default) (f @ rest)
       = (Ok (Some (with_length (header_new rid 0 (message_opcode body), body))), rest)"
proof -
  from codec_step [OF assms, of crc] obtain f where f: "\<And>dst. codec_encode crc (header_new rid 0 (message_opcode body), body) dst = (Ok (), dst @ f)"
    "\<And>rest. codec_decode crc (mongo_codec_new codec_config_default) (f @ rest) = (Ok (Some (with_length (header_new rid 0 (message_opcode body), body))), rest)"
    by auto
  have "frame_bytes crc rid 0 body False = Ok f"
    using f(1) [of "[]"] by (auto simp: frame_bytes_def codec_encode_def split: prod.splits)
  then show thesis using f(2) by (rule that)
qed

text \<open>
  A request completes with its answer: the frame the client writes is read by the server as the
  client's message, and when the server answers it, the client's \<open>request\<close> returns that answer, however
  the network cuts it; the assertion on \<open>responseTo\<close> holds.
\<close>

theorem client_server_exchange:
  assumes "command_handler handle" and "env_ok (io_draws io)" and "io_fault io = None"
    and "sendable (mongo_codec_new codec_config_default) (header_new counter 0 (message_opcode body), body)"
    and "process_frame crc z cfg handle io (with_length (header_new counter 0 (message_opcode body), body)) ctx [] = (q, ctx', concat chunks)"
    and "[] \<notin> set chunks" and "chunks \<noteq> []"
  shows "\<exists>h reply c. client_request crc None body counter (test_client_connect (map Some chunks)) = (Ok (h, reply), counter + 1, c)
    \<and> response_to h = counter \<and> parse_message crc (concat chunks) MAX_MSG_LEN = (Ok (Some (h, reply)), [])
    \<and> codec_decode crc (mongo_codec_new codec_config_default) (tc_sent c)
        = (Ok (Some (with_length (header_new counter 0 (message_opcode body), body))), [])"
proof -
  obtain h0 m0 where hm: "with_length (header_new counter 0 (message_opcode body), body) = (h0, m0)" by fastforce
  have rid: "request_id h0 = counter" using hm by (auto simp: with_length_def header_new_def)
  have ne: "concat chunks \<noteq> []" using assms(6,7) by (cases chunks) auto
  have "replied crc handle io h0 ctx [] (q, ctx', concat chunks)"
    using command_handler.process_frame_step [OF assms(1,2), of ctx "[]" crc z cfg h0 m0] assms(5) hm ne by (auto simp: silent_def)
  then obtain m ctx1 where "reply_ok m" "then_next (send_reply crc None ctx1 counter m []) = (q, ctx', concat chunks)"
    using assms(3) rid by (auto simp: replied_def)
  with send_reply_outcome [of m crc None ctx1 counter "[]"]
  have g: "good_frame crc MAX_MSG_LEN (concat chunks) (reply_header ctx1 counter m) (received_as crc (ctx_checksum ctx1) (reply_header ctx1 counter m) m)"
    using ne by (auto simp: then_next_def)
  let ?h = "reply_header ctx1 counter m" and ?b = "received_as crc (ctx_checksum ctx1) (reply_header ctx1 counter m) m"
  have p: "parse_message crc (concat chunks) MAX_MSG_LEN = (Ok (Some (?h, ?b)), [])" using parse_message_good [OF g, of "[]"] by simp
  from frame_bytes_sendable [OF assms(4), of crc] obtain f where f: "frame_bytes crc counter 0 body False = Ok f"
    "\<And>rest. codec_decode crc (mongo_codec_new codec_config_default) (f @ rest)
       = (Ok (Some (with_length (header_new counter 0 (message_opcode body), body))), rest)" by auto
  let ?c = "\<lparr>tc_reads = map Some chunks, tc_sent = f, tc_buf = []\<rparr>"
  obtain r c' where rc: "recv crc ?c = (r, c')" by fastforce
  have "r = Ok (Some (?h, ?b))" "tc_sent c' = f"
    using recv_stream [OF assms(6) _ rc] client_limit [OF p] by (simp_all add: next_in_stream_def)
  with rc have c': "recv crc ?c = (Ok (Some (?h, ?b)), c')" "tc_sent c' = f" by simp_all
  have "client_request crc None body counter (test_client_connect (map Some chunks)) = (Ok (?h, ?b), counter + 1, c')"
    using c' f(1) by (simp add: client_request_def next_id_def client_send_def write_frame_def test_client_connect_def reply_header_def)
  with p f(2) [of "[]"] c'(2) show ?thesis
    by (intro exI [of _ ?h] exI [of _ ?b] exI [of _ c']) (simp add: reply_header_def)
qed

lemma recv_sent: "tc_sent (snd (recv crc c)) = tc_sent c"
  by (simp add: recv_def split: prod.splits)

lemma client_request_sent:
  assumes "client_request crc None body counter (test_client_connect reads) = (Ok m, n, c)" "frame_bytes crc counter 0 body False = Ok f"
  shows "tc_sent c = f"
  using assms recv_sent [of crc "\<lparr>tc_reads = reads, tc_sent = f, tc_buf = []\<rparr>"]
  by (auto simp: client_request_def next_id_def client_send_def write_frame_def test_client_connect_def split: prod.splits)

section \<open>Witnesses\<close>

theorem recv_chunking_witness:
  "fst (recv (\<lambda>_. 0) \<lparr>tc_reads = [Some [1], Some [2, 3]], tc_sent = [], tc_buf = []\<rparr>) = next_in_stream (\<lambda>_. 0) [1, 2, 3]"
proof -
  obtain r c' where r: "recv (\<lambda>_. 0) \<lparr>tc_reads = [Some [1], Some [2, 3]], tc_sent = [], tc_buf = []\<rparr> = (r, c')" by fastforce
  have "[] \<notin> set [[1], [2, 3 :: u8]]" by simp
  from recv_chunking [OF this _ r] r show ?thesis by simp
qed

theorem client_reads_replies_witness:
  "\<exists>chunks replies r ctx. process_socket (\<lambda>_. 0) stored_codecs server_config_default sample_stack None sample_items = (r, ctx, concat chunks)
    \<and> recv_all (\<lambda>_. 0) (length replies) (test_client_connect (map Some chunks)) = map (\<lambda>m. Ok (Some m)) replies @ [Ok None]"
proof -
  obtain r ctx out where out: "process_socket (\<lambda>_. 0) stored_codecs server_config_default sample_stack None sample_items
      = (r, ctx, concat (map (\<lambda>b. [b]) out))"
    unfolding concat_map_singleton list.map_ident by (metis prod_cases3)
  have "[] \<notin> set (map (\<lambda>b. [b]) out)" by auto
  from client_reads_replies [OF sample_stack_quiet sample_items_ok out this] out show ?thesis by blast
qed

abbreviation sample_query :: op_query where
  "sample_query \<equiv> op_query_handshake (doc_bytes [(''x'', B_Int32 1)])"

lemma sample_query_sendable: "sendable (mongo_codec_new codec_config_default) (header_new 7 0 (message_opcode (MB_Query sample_query)), MB_Query sample_query)"
proof -
  have len: "length (doc_bytes [(''x'', B_Int32 1)]) = 12" by (simp add: as_scalar_def scalar_bytes_def)
  then have "doc_ok (doc_bytes [(''x'', B_Int32 1)])"
    using document_encode_ok [of "[(''x'', B_Int32 1)]"] by (simp add: as_scalar_def scalar_ok_def eval_simps del: bson_bytes.simps)
  moreover have "op_query_body_len sample_query = 35"
    using len by (simp add: op_query_body_len_def op_query_handshake_def del: bson_bytes.simps)
  ultimately show ?thesis
    using op_query_handshake_ok by (simp add: sendable_def header_new_def mongo_codec_new_def codec_config_default_def del: bson_bytes.simps)
qed

lemma sample_query_answered:
  obtains ctx' f where "process_frame (\<lambda>_. 0) stored_codecs server_config_default (demo_handler MAX_MSG_LEN) sample_io
      (with_length (header_new 7 0 (message_opcode (MB_Query sample_query)), MB_Query sample_query)) connection_info_new [] = (Ok NextFrame, ctx', concat (map (\<lambda>b. [b]) f))"
    "f \<noteq> []"
proof -
  let ?x = "(header_new 7 0 (message_opcode (MB_Query sample_query)), MB_Query sample_query)"
  have cmd: "raw_command (query_doc sample_query) = Ok ''x''"
    using raw_command_decoded [OF sample_decoded(2)] by (simp add: op_query_handshake_def document_command_def)
  have nh: "\<not> is_handshake ''x''" by (simp add: is_handshake_def)
  obtain f where f: "handle_query (\<lambda>_. 0) server_config_default sample_io (fst (with_length ?x)) sample_query connection_info_new []
      = (Ok NextFrame, connection_info_new\<lparr>request_id_counter := request_id_counter connection_info_new + 1\<rparr>, [] @ f)"
      "answers_query (\<lambda>_. 0) connection_info_new (fst (with_length ?x)) f 10 query_refusal"
    using handle_query_refused [OF cmd nh sample_io_ok(2)] by blast
  have "f \<noteq> []" using f(2) by (auto simp: answers_query_def parse_message_def dest: spec [of _ "[]"])
  with f(1) that show thesis by (simp add: process_frame_def with_length_def)
qed

theorem client_server_exchange_witness:
  "\<exists>chunks h reply c. chunks \<noteq> [] \<and> list_all (\<lambda>chunk. length chunk = 1) chunks
    \<and> client_request (\<lambda>_. 0) None (MB_Query sample_query) 7 (test_client_connect (map Some chunks)) = (Ok (h, reply), 8, c)
    \<and> response_to h = 7"
proof -
  obtain ctx' f where
    f: "process_frame (\<lambda>_. 0) stored_codecs server_config_default (demo_handler MAX_MSG_LEN) sample_io
      (with_length (header_new 7 0 (message_opcode (MB_Query sample_query)), MB_Query sample_query)) connection_info_new [] = (Ok NextFrame, ctx', concat (map (\<lambda>b. [b]) f))"
    "f \<noteq> []" by (rule sample_query_answered)
  let ?chunks = "map (\<lambda>b. [b]) f"
  have "[] \<notin> set ?chunks" "?chunks \<noteq> []" using f(2) by auto
  from client_server_exchange [OF demo.command_handler_axioms sample_io_ok(1,2) sample_query_sendable f(1) this]
  have "\<exists>h reply c. client_request (\<lambda>_. 0) None (MB_Query sample_query) 7 (test_client_connect (map Some ?chunks)) = (Ok (h, reply), 7 + 1, c)
      \<and> response_to h = 7" by blast
  then show ?thesis using f(2) by (intro exI [of _ ?chunks]) (auto simp: list_all_iff)
qed

end
