(* ===== verification/Serve.thy ===== *)
theory Serve
  imports Test_Client
begin

text \<open>
  The accept loop (\<open>serve\<close> of \<open>mongowire/src/api/mod.rs\<close>): many connections, each a task of its own running
  \<open>process_socket\<close>, whose steps the runtime interleaves.
\<close>

section \<open>Model\<close>

text \<open>
  A running task: its connection, the read buffer of \<open>Framed\<close>, the bytes written, the draws of its
  iterations with the number of the next one, and how it ended.  The handlers and the configuration are
  immutable and cloned into the task; it shares nothing else with the other tasks.
\<close>

record connection =
  conn_ctx :: connection_info
  conn_buf :: bytes
  conn_out :: bytes
  conn_draws :: "nat \<Rightarrow> io_env"
  conn_turn :: nat
  conn_result :: "(server_error, unit) result option"

definition connection_new :: "server_config \<Rightarrow> string option \<times> (nat \<Rightarrow> io_env) \<Rightarrow> connection" where
  "connection_new cfg client = (case client of (peer, draws) \<Rightarrow>
     \<lparr>conn_ctx = connection_info_new\<lparr>peer_addr := peer, ctx_checksum := sc_checksum cfg\<rparr>,
      conn_buf = [], conn_out = [], conn_draws = draws, conn_turn = 0, conn_result = None\<rparr>)"

definition server_codec :: "server_config \<Rightarrow> mongo_codec" where
  "server_codec cfg = mongo_codec_new \<lparr>max_msg_len = sc_max_msg_len cfg\<rparr>"

text \<open>The loop of \<open>process_socket\<close> on the bytes read so far: it runs until the codec waits for more, or it returns.\<close>

function drive :: "(bytes \<Rightarrow> u32) \<Rightarrow> codecs \<Rightarrow> server_config \<Rightarrow> handler \<Rightarrow> connection \<Rightarrow> connection" where
  "drive crc z cfg handle conn = (case codec_decode crc (server_codec cfg) (conn_buf conn) of
     (Ok None, buf) \<Rightarrow> conn\<lparr>conn_buf := buf\<rparr>
   | (Err _, buf) \<Rightarrow> conn\<lparr>conn_buf := buf, conn_result := Some (Ok ())\<rparr>
   | (Panic, buf) \<Rightarrow> conn\<lparr>conn_buf := buf, conn_result := Some Panic\<rparr>
   | (Ok (Some item), buf) \<Rightarrow>
       (case process_frame crc z cfg handle (conn_draws conn (conn_turn conn)) item (conn_ctx conn) (conn_out conn) of
          (r, ctx, out) \<Rightarrow>
            let conn = conn\<lparr>conn_buf := buf, conn_ctx := ctx, conn_out := out, conn_turn := Suc (conn_turn conn)\<rparr> in
            (case r of
               Ok NextFrame \<Rightarrow> drive crc z cfg handle conn
             | Ok CloseConnection \<Rightarrow> conn\<lparr>conn_result := Some (Ok ())\<rparr>
             | Err e \<Rightarrow> conn\<lparr>conn_result := Some (Err e)\<rparr>
             | Panic \<Rightarrow> conn\<lparr>conn_result := Some Panic\<rparr>)))"
  by pat_completeness auto
termination
proof (relation "measure (\<lambda>(_, _, _, _, conn). length (conn_buf conn))", goal_cases)
  case (2 crc z cfg handle conn a b c d e f g h i)
  then show ?case by (cases d) (auto elim!: codec_decode_Some [OF sym])
qed simp

declare drive.simps [simp del]

text \<open>
  What a task may see of its socket: a chunk of bytes, the end of the stream, or a failing read.  At the
  end \<open>Framed\<close> yields nothing more, or an error when bytes of an unfinished frame remain; the loop
  returns \<open>Ok\<close> either way, and on a failing read too.
\<close>

datatype socket_event = Chunk bytes | StreamEnd | ReadFailed

definition connection_step :: "(bytes \<Rightarrow> u32) \<Rightarrow> codecs \<Rightarrow> server_config \<Rightarrow> handler \<Rightarrow> socket_event \<Rightarrow> connection \<Rightarrow> connection" where
  "connection_step crc z cfg handle ev conn =
     (if conn_result conn \<noteq> None then conn else case ev of
        Chunk b \<Rightarrow> drive crc z cfg handle (conn\<lparr>conn_buf := conn_buf conn @ b\<rparr>)
      | _ \<Rightarrow> conn\<lparr>conn_result := Some (Ok ())\<rparr>)"

text \<open>
  What happens to the server: \<open>accept\<close> returns a client or fails, or the runtime lets a task see something of
  its socket.
\<close>

datatype server_event = Accept "string option \<times> (nat \<Rightarrow> io_env)" | AcceptFailed | Task nat socket_event

definition serve_step :: "(bytes \<Rightarrow> u32) \<Rightarrow> codecs \<Rightarrow> server_config \<Rightarrow> handler \<Rightarrow> server_event \<Rightarrow> connection list \<Rightarrow> connection list" where
  "serve_step crc z cfg handle ev conns = (case ev of
     Accept client \<Rightarrow> conns @ [connection_new cfg client]
   | AcceptFailed \<Rightarrow> conns
   | Task i e \<Rightarrow> if i < length conns then conns[i := connection_step crc z cfg handle e (conns ! i)] else conns)"

definition serve :: "(bytes \<Rightarrow> u32) \<Rightarrow> codecs \<Rightarrow> server_config \<Rightarrow> handler \<Rightarrow> server_event list \<Rightarrow> connection list" where
  "serve crc z cfg handle evs = fold (serve_step crc z cfg handle) evs []"

text \<open>
  The process of the example server (\<open>examples/mongowire-server/src/main.rs\<close>): its arguments after the program
  name, and what it serves.  \<open>Err\<close> is the exit status: 2 for a usage error, 1 when the address cannot be bound.
\<close>

fun parse_args_from :: "string \<Rightarrow> bool \<Rightarrow> string list \<Rightarrow> (nat, string \<times> bool) result" where
  "parse_args_from bind checksum [] = Ok (bind, checksum)"
| "parse_args_from bind checksum (arg # args) =
     (if arg = ''--bind'' then (case args of [] \<Rightarrow> Err 2 | addr # args \<Rightarrow> parse_args_from addr checksum args)
      else if arg = ''--no-checksum'' then parse_args_from bind False args
      else Err 2)"

definition parse_args :: "string list \<Rightarrow> (nat, string \<times> bool) result" where
  "parse_args args = parse_args_from ''127.0.0.1:27017'' True args"

definition main :: "(string \<Rightarrow> bool) \<Rightarrow> string list \<Rightarrow> (nat, server_config \<times> handler) result" where
  "main bindable args =
     andthen (parse_args args) (\<lambda>(bind, checksum).
     let config = server_config_default\<lparr>sc_checksum := checksum\<rparr> in
     if \<not> bindable bind then Err 1 else Ok (config, demo_handler (sc_max_msg_len config)))"

section \<open>Each task on its own\<close>

text \<open>The clients accepted, and what the task \<open>i\<close> saw, when \<open>n\<close> tasks run already.\<close>

fun accepts :: "server_event list \<Rightarrow> (string option \<times> (nat \<Rightarrow> io_env)) list" where
  "accepts [] = []"
| "accepts (Accept client # evs) = client # accepts evs"
| "accepts (_ # evs) = accepts evs"

fun traffic :: "nat \<Rightarrow> nat \<Rightarrow> server_event list \<Rightarrow> socket_event list" where
  "traffic n i [] = []"
| "traffic n i (Accept _ # evs) = traffic (Suc n) i evs"
| "traffic n i (AcceptFailed # evs) = traffic n i evs"
| "traffic n i (Task j e # evs) = (if j = i \<and> i < n then e # traffic n i evs else traffic n i evs)"

lemma fold_serve_step:
  "length (fold (serve_step crc z cfg handle) evs conns) = length conns + length (accepts evs)
   \<and> (\<forall>i < length conns + length (accepts evs). fold (serve_step crc z cfg handle) evs conns ! i
        = fold (connection_step crc z cfg handle) (traffic (length conns) i evs) ((conns @ map (connection_new cfg) (accepts evs)) ! i))"
proof (induction evs arbitrary: conns)
  case Nil
  show ?case by simp
next
  case (Cons ev evs)
  show ?case
  proof (cases ev)
    case (Accept client)
    then show ?thesis using Cons.IH [of "conns @ [connection_new cfg client]"] by (simp add: serve_step_def)
  next
    case AcceptFailed
    then show ?thesis using Cons.IH [of conns] by (simp add: serve_step_def)
  next
    case (Task j e)
    have eq: "(conns[j := c] @ xs) ! i = (if j = i \<and> i < length conns then c else (conns @ xs) ! i)" for c xs i
      by (simp add: nth_append nth_list_update)
    show ?thesis
      using Cons.IH [of "serve_step crc z cfg handle ev conns"] by (auto simp: serve_step_def Task eq nth_append)
  qed
qed

lemma serve_task:
  assumes "i < length (accepts evs)"
  shows "i < length (serve crc z cfg handle evs)"
    and "serve crc z cfg handle evs ! i = fold (connection_step crc z cfg handle) (traffic 0 i evs) (connection_new cfg (accepts evs ! i))"
  using assms fold_serve_step [of crc z cfg handle evs "[]"] by (simp_all add: serve_def)

section \<open>A task and its byte stream\<close>

text \<open>The items \<open>Framed\<close> yields for a whole stream, with the draws of the iterations that take them.\<close>

function framed_items :: "(bytes \<Rightarrow> u32) \<Rightarrow> mongo_codec \<Rightarrow> (nat \<Rightarrow> io_env) \<Rightarrow> nat \<Rightarrow> bytes \<Rightarrow> served_item list" where
  "framed_items crc c draws n buf = (case codec_decode crc c buf of
     (Ok None, _) \<Rightarrow> []
   | (Err e, _) \<Rightarrow> [(Err e, draws n)]
   | (Panic, _) \<Rightarrow> [(Panic, draws n)]
   | (Ok (Some item), buf) \<Rightarrow> (Ok item, draws n) # framed_items crc c draws (Suc n) buf)"
  by pat_completeness auto
termination
proof (relation "measure (\<lambda>(_, _, _, _, buf). length buf)", goal_cases)
  case (2 crc c draws n buf a b d e)
  then show ?case by (cases e) (auto elim!: codec_decode_Some [OF sym])
qed simp

declare framed_items.simps [simp del]

lemma codec_decode_more:
  assumes "codec_decode crc c buf = (r, rest)"
  shows "r = Ok (Some x) \<Longrightarrow> codec_decode crc c (buf @ s) = (r, rest @ s)"
    and "r = Err e \<Longrightarrow> fst (codec_decode crc c (buf @ s)) = Err e"
    and "r = Ok None \<Longrightarrow> rest = buf"
    and "r \<noteq> Panic"
proof -
  show "codec_decode crc c (buf @ s) = (r, rest @ s)" if r: "r = Ok (Some x)"
  proof -
    obtain f where "buf = f @ rest" "good_frame crc (max_msg_len (codec_conf c)) f (fst x) (snd x)"
      using assms r by (cases x) (auto simp: codec_decode_def parse_message_Some)
    with r show ?thesis by (simp add: codec_decode_def parse_message_good)
  qed
  show "fst (codec_decode crc c (buf @ s)) = Err e" if "r = Err e"
    using assms that parse_message_prefix_Err by (simp add: codec_decode_def)
  show "rest = buf" if "r = Ok None" using assms that by (simp add: codec_decode_def parse_message_None)
  show "r \<noteq> Panic" using assms parse_message_panic [of crc buf "max_msg_len (codec_conf c)"] by (auto simp: codec_decode_def)
qed

text \<open>What is seen of a task from outside: its connection, what it wrote, and whether it returned.\<close>

definition task_view :: "connection \<Rightarrow> connection_info \<times> bytes \<times> (server_error, unit) result option" where
  "task_view conn = (conn_ctx conn, conn_out conn, conn_result conn)"

lemma drive_more:
  assumes "conn_result conn = None"
  shows "(conn_result (drive crc z cfg handle conn) = None \<longrightarrow>
      (let c = drive crc z cfg handle conn in drive crc z cfg handle (c\<lparr>conn_buf := conn_buf c @ s\<rparr>))
        = drive crc z cfg handle (conn\<lparr>conn_buf := conn_buf conn @ s\<rparr>))
    \<and> (conn_result (drive crc z cfg handle conn) \<noteq> None \<longrightarrow>
      task_view (drive crc z cfg handle (conn\<lparr>conn_buf := conn_buf conn @ s\<rparr>)) = task_view (drive crc z cfg handle conn))"
  using assms
proof (induction crc z cfg handle conn rule: drive.induct)
  case (1 crc z cfg handle conn)
  obtain r rest where d: "codec_decode crc (server_codec cfg) (conn_buf conn) = (r, rest)" by fastforce
  note more = codec_decode_more [OF d]
  show ?case
  proof (cases r)
    case (Ok m)
    show ?thesis
    proof (cases m)
      case None
      with Ok d more(3) have "drive crc z cfg handle conn = conn" by (subst drive.simps) simp
      with "1.prems" show ?thesis by (simp add: Let_def)
    next
      case (Some x)
      with Ok more(1) have d': "codec_decode crc (server_codec cfg) (conn_buf conn @ s) = (Ok (Some x), rest @ s)" by simp
      obtain q ctx out where q: "process_frame crc z cfg handle (conn_draws conn (conn_turn conn)) x (conn_ctx conn) (conn_out conn) = (q, ctx, out)"
        by (metis prod_cases3)
      show ?thesis
      proof (cases "q = Ok NextFrame")
        case True
        let ?c = "conn\<lparr>conn_buf := rest, conn_ctx := ctx, conn_out := out, conn_turn := Suc (conn_turn conn)\<rparr>"
        have u: "?c\<lparr>conn_buf := b\<rparr> = conn\<lparr>conn_buf := b, conn_ctx := ctx, conn_out := out, conn_turn := Suc (conn_turn conn)\<rparr>" for b
          by (cases conn) simp
        have e: "drive crc z cfg handle conn = drive crc z cfg handle ?c"
          "drive crc z cfg handle (conn\<lparr>conn_buf := conn_buf conn @ s\<rparr>) = drive crc z cfg handle (?c\<lparr>conn_buf := conn_buf ?c @ s\<rparr>)"
          unfolding u using d d' q True Ok Some by (simp_all add: drive.simps [of _ _ _ _ conn] drive.simps [of _ _ _ _ "conn\<lparr>conn_buf := conn_buf conn @ s\<rparr>"])
        show ?thesis
          unfolding e using "1.IH" [OF d [symmetric] Ok Some q [symmetric] refl refl True refl] "1.prems"
          by simp
      next
        case False
        then show ?thesis
          using d d' q Ok Some
          by (auto simp: drive.simps [of _ _ _ _ conn] drive.simps [of _ _ _ _ "conn\<lparr>conn_buf := conn_buf conn @ s\<rparr>"] task_view_def Let_def
              split: result.splits flow.splits)
      qed
    qed
  next
    case (Err e)
    with d more(2) obtain rest' where "codec_decode crc (server_codec cfg) (conn_buf conn @ s) = (Err e, rest')" by (metis fst_conv surj_pair)
    with Err d show ?thesis
      by (simp add: drive.simps [of _ _ _ _ conn] drive.simps [of _ _ _ _ "conn\<lparr>conn_buf := conn_buf conn @ s\<rparr>"] task_view_def)
  qed (use more(4) in simp)
qed

text \<open>What a task shows is what \<open>process_items\<close> computes for the items of its stream.\<close>

definition shows_run :: "connection \<Rightarrow> (server_error, unit) result \<times> connection_info \<times> bytes \<Rightarrow> bool" where
  "shows_run conn p \<longleftrightarrow> conn_ctx conn = fst (snd p) \<and> conn_out conn = snd (snd p)
     \<and> (conn_result conn = Some (fst p) \<or> conn_result conn = None \<and> fst p = Ok ())"

lemma drive_items:
  assumes "conn_result conn = None"
  shows "shows_run (drive crc z cfg handle conn)
    (process_items crc z cfg handle (framed_items crc (server_codec cfg) (conn_draws conn) (conn_turn conn) (conn_buf conn)) (conn_ctx conn) (conn_out conn))"
  using assms
proof (induction crc z cfg handle conn rule: drive.induct)
  case (1 crc z cfg handle conn)
  obtain r rest where d: "codec_decode crc (server_codec cfg) (conn_buf conn) = (r, rest)" by fastforce
  note unfold = drive.simps [of _ _ _ _ conn] framed_items.simps [of _ _ _ _ "conn_buf conn"]
  show ?case
  proof (cases r)
    case (Ok m)
    show ?thesis
    proof (cases m)
      case None
      with Ok d "1.prems" show ?thesis by (simp add: unfold shows_run_def)
    next
      case (Some x)
      obtain q ctx out where q: "process_frame crc z cfg handle (conn_draws conn (conn_turn conn)) x (conn_ctx conn) (conn_out conn) = (q, ctx, out)"
        by (metis prod_cases3)
      show ?thesis
      proof (cases "q = Ok NextFrame")
        case True
        from "1.IH" [OF d [symmetric] Ok Some q [symmetric] refl refl True refl] "1.prems" show ?thesis
          using d q Ok Some True by (simp add: unfold)
      next
        case False
        then show ?thesis using d q Ok Some by (auto simp: unfold shows_run_def Let_def split: result.splits flow.splits)
      qed
    qed
  qed (use d in \<open>simp_all add: unfold shows_run_def\<close>)
qed

text \<open>The bytes a task read: the chunks before the stream ended or failed.\<close>

fun received :: "socket_event list \<Rightarrow> bytes" where
  "received (Chunk b # es) = b @ received es"
| "received _ = []"

fun socket_open :: "socket_event list \<Rightarrow> bool" where
  "socket_open [] \<longleftrightarrow> True"
| "socket_open (Chunk _ # es) \<longleftrightarrow> socket_open es"
| "socket_open _ \<longleftrightarrow> False"

lemma connection_step_end: "conn_result conn = None \<Longrightarrow> e = StreamEnd \<or> e = ReadFailed
    \<Longrightarrow> connection_step crc z cfg handle e conn = conn\<lparr>conn_result := Some (Ok ())\<rparr>"
  by (auto simp: connection_step_def)

lemma task_done: "conn_result conn \<noteq> None \<Longrightarrow> fold (connection_step crc z cfg handle) es conn = conn"
  by (induction es) (simp_all add: connection_step_def)

lemma task_view_run: "task_view c = task_view c' \<Longrightarrow> shows_run c p \<longleftrightarrow> shows_run c' p"
  by (simp add: task_view_def shows_run_def)

text \<open>A task that has drained its buffer, fed further events, shows the run of everything it read.\<close>

lemma task_fold:
  fixes es :: "socket_event list"
  assumes "conn_result conn = None" "conn_result (drive crc z cfg handle conn) = None"
  defines "run \<equiv> fold (connection_step crc z cfg handle) es (drive crc z cfg handle conn)"
  shows "shows_run run (process_items crc z cfg handle
        (framed_items crc (server_codec cfg) (conn_draws conn) (conn_turn conn) (conn_buf conn @ received es)) (conn_ctx conn) (conn_out conn))
    \<and> (conn_result run = None \<longrightarrow> socket_open es)"
  using assms(1,2) unfolding run_def
proof (induction es arbitrary: conn)
  case Nil
  then show ?case using drive_items [OF Nil(1), of crc z cfg handle] by simp
next
  case (Cons e es)
  let ?d = "drive crc z cfg handle"
  show ?case
  proof (cases e)
    case (Chunk b)
    let ?c = "conn\<lparr>conn_buf := conn_buf conn @ b\<rparr>"
    have step: "connection_step crc z cfg handle e (?d conn) = ?d ?c"
      using drive_more [OF Cons.prems(1), of crc z cfg handle b] Cons.prems(2) by (simp add: connection_step_def Chunk Let_def)
    show ?thesis
    proof (cases "conn_result (?d ?c) = None")
      case True
      with Cons.IH [of ?c] Cons.prems step show ?thesis by (simp add: Chunk)
    next
      case False
      let ?e = "?c\<lparr>conn_buf := conn_buf ?c @ received es\<rparr>"
      have "task_view (?d ?e) = task_view (?d ?c)" using drive_more [of ?c crc z cfg handle "received es"] False Cons.prems(1) by simp
      from task_view_run [OF this] drive_items [of ?e crc z cfg handle] Cons.prems(1) False step show ?thesis
        by (auto simp: Chunk task_done)
    qed
  qed (use drive_items [OF Cons.prems(1), of crc z cfg handle] Cons.prems(2) in
      \<open>simp_all add: connection_step_end task_done shows_run_def\<close>)
qed

lemma drive_empty: "conn_buf conn = [] \<Longrightarrow> drive crc z cfg handle conn = conn"
  by (simp add: drive.simps codec_decode_def parse_message_def)

lemma task_run:
  assumes "i < length (accepts evs)" "accepts evs ! i = (peer, draws)"
  shows "shows_run (serve crc z cfg handle evs ! i)
      (process_socket crc z cfg handle peer (framed_items crc (server_codec cfg) draws 0 (received (traffic 0 i evs))))
    \<and> (conn_result (serve crc z cfg handle evs ! i) = None \<longrightarrow> socket_open (traffic 0 i evs))"
proof -
  let ?c = "connection_new cfg (peer, draws)"
  have "drive crc z cfg handle ?c = ?c" "conn_result ?c = None" by (simp_all add: drive_empty connection_new_def)
  with task_fold [of ?c crc z cfg handle "traffic 0 i evs"] show ?thesis
    unfolding serve_task(2) [OF assms(1)] assms(2) process_socket_def by (simp add: connection_new_def)
qed

section \<open>Properties\<close>

text \<open>
  (C6) The server refines \<open>process_socket\<close> per client: however the runtime interleaves accepted clients
  and however the network cuts their bytes, each task stands where \<open>process_socket\<close> stands on the items of
  the bytes it alone has read: same connection state, same bytes written, and the task has returned with
  the same result, or still waits on an open socket with nothing gone wrong.
\<close>

theorem serve_refines_process_socket:
  assumes "i < length (accepts evs)" and "accepts evs ! i = (peer, draws)"
    and "process_socket crc z cfg handle peer (framed_items crc (server_codec cfg) draws 0 (received (traffic 0 i evs))) = (r, ctx, out)"
  defines "conn \<equiv> serve crc z cfg handle evs ! i"
  shows "length (serve crc z cfg handle evs) = length (accepts evs) \<and> conn_ctx conn = ctx \<and> conn_out conn = out
    \<and> (conn_result conn = Some r \<or> conn_result conn = None \<and> r = Ok () \<and> socket_open (traffic 0 i evs))"
  using task_run [OF assms(1,2), of crc z cfg handle] fold_serve_step [of crc z cfg handle evs "[]"] assms(3)
  unfolding conn_def by (auto simp: shows_run_def serve_def)

text \<open>
  Clients do not disturb each other: what a task has done depends on nothing but the client it was
  accepted for and what it saw of its own socket, whatever the other clients send, in whatever order.
\<close>

theorem clients_isolated:
  assumes "i < length (accepts evs)" and "i < length (accepts evs')"
    and "accepts evs ! i = accepts evs' ! i" and "traffic 0 i evs = traffic 0 i evs'"
  shows "serve crc z cfg handle evs ! i = serve crc z cfg handle evs' ! i"
  using assms by (simp add: serve_task(2))

lemma framed_items_ok: "(\<And>n. env_ok (io_draws (draws n))) \<Longrightarrow> items_ok (framed_items crc c draws n buf)"
proof (induction crc c draws n buf rule: framed_items.induct)
  case (1 crc c draws n buf)
  obtain r rest where d: "codec_decode crc c buf = (r, rest)" by fastforce
  from codec_decode_more(4) [OF d] d "1.IH" [OF d [symmetric] _ _] "1.prems" show ?case
    by (cases r) (auto simp: framed_items.simps [of crc c draws n buf] items_ok_def split: option.splits)
qed

text \<open>
  No client can crash its task: whatever bytes arrive, no task of the server ends in a panic.
\<close>

theorem serve_never_panics:
  assumes "command_handler handle" and "list_all (\<lambda>(peer, draws). \<forall>n. env_ok (io_draws (draws n))) (accepts evs)"
  shows "list_all (\<lambda>conn. conn_result conn \<noteq> Some Panic) (serve crc z cfg handle evs)"
proof -
  have "conn_result (serve crc z cfg handle evs ! i) \<noteq> Some Panic" if i: "i < length (accepts evs)" for i
  proof -
    obtain peer draws where a: "accepts evs ! i = (peer, draws)" by fastforce
    have "\<And>n. env_ok (io_draws (draws n))" using assms(2) i a by (auto simp: list_all_length)
    from command_handler.process_items_panic [OF assms(1) framed_items_ok [OF this]] task_run [OF i a, of crc z cfg handle]
    show ?thesis by (auto simp: shows_run_def process_socket_def)
  qed
  then show ?thesis using fold_serve_step [of crc z cfg handle evs "[]"] by (simp add: list_all_length serve_def)
qed

section \<open>Authentication across clients\<close>

lemma send_reply_auth: "auth (fst (snd (send_reply crc fault ctx to_id m out))) = auth ctx"
  by (auto simp: send_reply_def next_request_id_def keep_def Let_def split: result.splits prod.splits)

lemma then_next_ctx: "fst (snd (then_next s)) = fst (snd s)"
  by (simp add: then_next_def split: prod.splits)

text \<open>What one iteration makes of the authentication state: nothing, or what the handler makes of it.\<close>

definition auth_next :: "handler \<Rightarrow> io_env \<Rightarrow> connection_info \<Rightarrow> connection_info \<Rightarrow> bool" where
  "auth_next handle io ctx ctx' \<longleftrightarrow> auth ctx' = auth ctx \<or> (\<exists>cmd. auth ctx' = auth (snd (handle (io_draws io) ctx cmd)))"

lemma auth_next_refl [simp]: "auth_next handle io ctx ctx"
  by (simp add: auth_next_def)

lemma handle_query_auth: "auth_next handle io ctx (fst (snd (handle_query crc cfg io h query ctx out)))"
  unfolding auth_next_def
  by (rule disjI1) (auto simp: handle_query_def keep_def Let_def then_next_ctx send_reply_auth split: result.splits option.splits)

lemma handle_msg_auth: "auth_next handle io ctx (fst (snd (handle_msg crc handle io h msg ctx out)))"
proof (cases "raw_command (sec_body (msg_sections msg))")
  case (Ok name)
  let ?cmd = "\<lparr>cmd_name = name, cmd_body = sec_body (msg_sections msg),
    cmd_sequences = sec_sequences (msg_sections msg), cmd_flags = msg_flags msg\<rparr>"
  obtain r ctx' where h: "handle (io_draws io) ctx ?cmd = (r, ctx')" by fastforce
  have "auth (fst (snd (handle_msg crc handle io h msg ctx out))) = auth ctx'"
    using Ok h by (auto simp: handle_msg_def keep_def Let_def then_next_ctx send_reply_auth split: result.splits option.splits reply.splits)
  with h show ?thesis unfolding auth_next_def by (intro disjI2 exI [of _ ?cmd]) simp
qed (simp_all add: handle_msg_def)

lemma process_frame_auth: "auth_next handle io ctx (fst (snd (process_frame crc z cfg handle io item ctx out)))"
  by (auto simp: process_frame_def keep_def handle_query_auth handle_msg_auth split: prod.splits result.splits option.splits message_body.splits)

text \<open>The states the server can reach, under any events.\<close>

inductive served :: "(bytes \<Rightarrow> u32) \<Rightarrow> codecs \<Rightarrow> server_config \<Rightarrow> handler \<Rightarrow> connection list \<Rightarrow> bool" for crc z cfg handle where
  start: "served crc z cfg handle []"
| event: "served crc z cfg handle conns \<Longrightarrow> served crc z cfg handle (serve_step crc z cfg handle ev conns)"

lemma serve_served: "served crc z cfg handle (serve crc z cfg handle evs)"
  by (induction evs rule: rev_induct) (auto simp: serve_def intro: served.intros)

lemma drive_ctx_inv:
  assumes "\<And>io ctx ctx'. P ctx \<Longrightarrow> auth_next handle io ctx ctx' \<Longrightarrow> P ctx'"
  shows "P (conn_ctx conn) \<Longrightarrow> P (conn_ctx (drive crc z cfg handle conn))"
  using assms
proof (induction crc z cfg handle conn rule: drive.induct)
  case (1 crc z cfg handle conn)
  obtain r rest where d: "codec_decode crc (server_codec cfg) (conn_buf conn) = (r, rest)" by fastforce
  show ?case
  proof (cases "\<exists>x. r = Ok (Some x)")
    case True
    then obtain x where r: "r = Ok (Some x)" by blast
    obtain q ctx out where q: "process_frame crc z cfg handle (conn_draws conn (conn_turn conn)) x (conn_ctx conn) (conn_out conn) = (q, ctx, out)"
      by (metis prod_cases3)
    have P: "P ctx" using "1.prems" process_frame_auth [of handle "conn_draws conn (conn_turn conn)" "conn_ctx conn" crc z cfg x "conn_out conn"] q by auto
    show ?thesis
      using "1.IH" [OF d [symmetric] r refl q [symmetric] refl refl _ refl _ "1.prems"(2)] P d r q
      by (auto simp: drive.simps [of _ _ _ _ conn] Let_def split: result.splits flow.splits)
  next
    case False
    then show ?thesis using d "1.prems"(1) by (auto simp: drive.simps [of _ _ _ _ conn] split: result.splits option.splits)
  qed
qed

lemma served_ctx_inv:
  assumes "served crc z cfg handle conns" and fresh: "\<And>client. P (conn_ctx (connection_new cfg client))"
    and step: "\<And>io ctx ctx'. P ctx \<Longrightarrow> auth_next handle io ctx ctx' \<Longrightarrow> P ctx'"
  shows "list_all (\<lambda>conn. P (conn_ctx conn)) conns"
  using assms(1)
proof (induction rule: served.induct)
  case (event conns ev)
  have "P (conn_ctx (connection_step crc z cfg handle e conn))" if "P (conn_ctx conn)" for e conn
    using that drive_ctx_inv [of P handle "conn\<lparr>conn_buf := conn_buf conn @ b\<rparr>" for b, OF step]
    by (auto simp: connection_step_def split: socket_event.splits)
  with event.IH show ?case
    by (auto simp: serve_step_def fresh list_all_length nth_list_update nth_append less_Suc_eq split: server_event.splits)
qed simp


section \<open>A client of the server\<close>

lemma served_request:
  assumes "i < length (accepts evs)" "accepts evs ! i = (peer, draws)" "sc_max_msg_len cfg = MAX_MSG_LEN"
    and "sendable (mongo_codec_new codec_config_default) (header_new counter 0 (message_opcode body), body)"
    and "frame_bytes crc counter 0 body False = Ok (received (traffic 0 i evs))"
  shows "conn_out (serve crc z cfg handle evs ! i) = snd (snd (process_frame crc z cfg handle (draws 0)
    (with_length (header_new counter 0 (message_opcode body), body)) (connection_info_new\<lparr>peer_addr := peer, ctx_checksum := sc_checksum cfg\<rparr>) []))"
proof -
  let ?x = "with_length (header_new counter 0 (message_opcode body), body)"
  let ?ctx = "connection_info_new\<lparr>peer_addr := peer, ctx_checksum := sc_checksum cfg\<rparr>"
  have c: "server_codec cfg = mongo_codec_new codec_config_default" by (simp add: server_codec_def codec_config_default_def assms(3))
  obtain f where "frame_bytes crc counter 0 body False = Ok f"
      "\<And>rest. codec_decode crc (mongo_codec_new codec_config_default) (f @ rest) = (Ok (Some ?x), rest)"
    using frame_bytes_sendable [OF assms(4)] by metis
  with assms(5) have f: "codec_decode crc (mongo_codec_new codec_config_default) (received (traffic 0 i evs)) = (Ok (Some ?x), [])"
    by (metis append_Nil2 result.inject(1))
  have empty: "framed_items crc (mongo_codec_new codec_config_default) draws n [] = []" for n
    by (simp add: framed_items.simps codec_decode_def parse_message_def)
  have items: "framed_items crc (server_codec cfg) draws 0 (received (traffic 0 i evs)) = [(Ok ?x, draws 0)]"
    using f unfolding c by (subst framed_items.simps) (simp add: empty)
  obtain q ctx' out where q: "process_frame crc z cfg handle (draws 0) ?x ?ctx [] = (q, ctx', out)" by (metis prod_cases3)
  then show ?thesis
    using task_run [OF assms(1,2), of crc z cfg handle]
    by (auto simp: shows_run_def items process_socket_def split: result.splits flow.splits)
qed

text \<open>
  (C5) A client is served end to end: when the bytes of its request have reached its task, in whatever
  pieces and among whatever other clients, and the task has answered, the client reads that answer from
  the bytes the task wrote, in whatever pieces they come, and it is the answer to its request.
\<close>

theorem served_client_exchange:
  assumes "command_handler handle" and "i < length (accepts evs)" and "accepts evs ! i = (peer, draws)"
    and "env_ok (io_draws (draws 0))" and "io_fault (draws 0) = None" and "sc_max_msg_len cfg = MAX_MSG_LEN"
    and "sendable (mongo_codec_new codec_config_default) (header_new counter 0 (message_opcode body), body)"
    and "frame_bytes crc counter 0 body False = Ok (received (traffic 0 i evs))"
    and "conn_out (serve crc z cfg handle evs ! i) = concat chunks" and "[] \<notin> set chunks" and "chunks \<noteq> []"
  shows "\<exists>h reply c. client_request crc None body counter (test_client_connect (map Some chunks)) = (Ok (h, reply), counter + 1, c)
    \<and> response_to h = counter \<and> tc_sent c = received (traffic 0 i evs)"
proof -
  obtain q ctx' where q: "process_frame crc z cfg handle (draws 0) (with_length (header_new counter 0 (message_opcode body), body))
      (connection_info_new\<lparr>peer_addr := peer, ctx_checksum := sc_checksum cfg\<rparr>) [] = (q, ctx', concat chunks)"
    using served_request [OF assms(2,3,6-8), of z handle] assms(9) by (metis surjective_pairing)
  from client_server_exchange [OF assms(1,4,5,7) q assms(10,11)] client_request_sent [OF _ assms(8)] show ?thesis by metis
qed

section \<open>The example process\<close>

lemma parse_args_from_Ok:
  "parse_args_from bind checksum args = Ok (b, k) \<Longrightarrow> k = (checksum \<and> ''--no-checksum'' \<notin> set args) \<or> ''--bind'' \<in> set args"
  by (induction bind checksum args rule: parse_args_from.induct) (auto split: if_splits list.splits)

text \<open>
  The example server serves or exits: any arguments lead to exit status 1 or 2, or to a server with
  the default limits whose tasks never panic, whatever its clients send; \<open>--no-checksum\<close> alone decides on
  the checksums of its replies, unless it stands for an address.
\<close>

theorem example_server_serves:
  assumes "list_all (\<lambda>(peer, draws). \<forall>n. env_ok (io_draws (draws n))) (accepts evs)"
  shows "main bindable args \<in> {Err 1, Err 2}
    \<or> (\<exists>cfg handle. main bindable args = Ok (cfg, handle) \<and> sc_max_msg_len cfg = MAX_MSG_LEN
        \<and> list_all (\<lambda>conn. conn_result conn \<noteq> Some Panic) (serve crc z cfg handle evs)
        \<and> (''--bind'' \<notin> set args \<longrightarrow> sc_checksum cfg = (''--no-checksum'' \<notin> set args)))"
proof -
  have e: "parse_args_from b k args \<noteq> Panic" "parse_args_from b k args = Err n \<Longrightarrow> n = 2" for b k n
    by (induction b k args rule: parse_args_from.induct) (auto split: if_splits list.splits)
  show ?thesis
  proof (cases "parse_args args")
    case (Ok x)
    then obtain b k where x: "parse_args args = Ok (b, k)" by (cases x) auto
    have p: "list_all (\<lambda>conn. conn_result conn \<noteq> Some Panic) (serve crc z cfg (demo_handler n) evs)" for cfg n
      using serve_never_panics [OF demo.quiet_handler_axioms [THEN quiet_handler.axioms(1)] assms] by blast
    with x parse_args_from_Ok [of _ _ args b k] show ?thesis
      by (auto simp: main_def server_config_default_def parse_args_def Let_def)
  qed (use e in \<open>auto simp: main_def parse_args_def\<close>)
qed

theorem example_server_serves_witness:
  "\<exists>cfg handle. main (\<lambda>_. True) [''--bind'', ''[::]:1'', ''--no-checksum''] = Ok (cfg, handle)
    \<and> list_all (\<lambda>conn. conn_result conn \<noteq> Some Panic) (serve (\<lambda>_. 0) stored_codecs cfg handle [Accept (None, \<lambda>_. sample_io), Task 0 (Chunk [0])])"
  using example_server_serves [of "[Accept (None, \<lambda>_. sample_io), Task 0 (Chunk [0])]" "\<lambda>_. True" "[''--bind'', ''[::]:1'', ''--no-checksum'']" "\<lambda>_. 0" stored_codecs]
  by (auto simp: sample_io_ok main_def parse_args_def Let_def)

section \<open>Witnesses\<close>

text \<open>Two clients; the first sends two chunks and closes, the second sends one in between.\<close>

definition sample_events :: "server_event list" where
  "sample_events = [Accept (None, \<lambda>_. sample_io), Task 0 (Chunk [16, 0, 0]), AcceptFailed, Accept (Some ''b'', \<lambda>_. sample_io),
     Task 1 (Chunk [9]), Task 0 (Chunk [0, 7]), Task 0 StreamEnd, Task 7 ReadFailed]"

lemma sample_events_facts:
  "length (accepts sample_events) = 2" "accepts sample_events ! 0 = (None, \<lambda>_. sample_io)"
  "list_all (\<lambda>(peer, draws). \<forall>n. env_ok (io_draws (draws n))) (accepts sample_events)"
  "traffic 0 0 sample_events = [Chunk [16, 0, 0], Chunk [0, 7], StreamEnd]"
  by (simp_all add: sample_events_def sample_io_ok)

theorem serve_refines_process_socket_witness:
  "\<exists>r ctx out. process_socket (\<lambda>_. 0) stored_codecs server_config_default sample_stack None
      (framed_items (\<lambda>_. 0) (server_codec server_config_default) (\<lambda>_. sample_io) 0 [16, 0, 0, 0, 7]) = (r, ctx, out)
    \<and> conn_ctx (serve (\<lambda>_. 0) stored_codecs server_config_default sample_stack sample_events ! 0) = ctx
    \<and> conn_result (serve (\<lambda>_. 0) stored_codecs server_config_default sample_stack sample_events ! 0) = Some r"
proof -
  obtain r ctx out where p: "process_socket (\<lambda>_. 0) stored_codecs server_config_default sample_stack None
      (framed_items (\<lambda>_. 0) (server_codec server_config_default) (\<lambda>_. sample_io) 0 [16, 0, 0, 0, 7]) = (r, ctx, out)" by (metis prod_cases3)
  with serve_refines_process_socket [OF _ sample_events_facts(2), of "\<lambda>_. 0" stored_codecs server_config_default sample_stack r ctx out]
  show ?thesis by (simp add: sample_events_facts)
qed

theorem clients_isolated_witness:
  "serve (\<lambda>_. 0) stored_codecs server_config_default sample_stack sample_events ! 0
     = serve (\<lambda>_. 0) stored_codecs server_config_default sample_stack
         [Accept (None, \<lambda>_. sample_io), Task 0 (Chunk [16, 0, 0]), Task 0 (Chunk [0, 7]), Task 0 StreamEnd] ! 0"
  by (rule clients_isolated) (simp_all add: sample_events_facts)

theorem serve_never_panics_witness:
  "list_all (\<lambda>conn. conn_result conn \<noteq> Some Panic) (serve (\<lambda>_. 0) stored_codecs server_config_default sample_stack sample_events)"
  by (rule serve_never_panics [OF quiet_handler.axioms(1) [OF sample_stack_quiet] sample_events_facts(3)])


theorem served_client_exchange_witness:
  "\<exists>a b chunks h reply c. conn_out (serve (\<lambda>_. 0) stored_codecs server_config_default (demo_handler MAX_MSG_LEN)
        [Accept (None, \<lambda>_. sample_io), Task 0 (Chunk a), Accept (None, \<lambda>_. sample_io), Task 1 (Chunk [3]), Task 0 (Chunk b)] ! 0) = concat chunks
    \<and> client_request (\<lambda>_. 0) None (MB_Query sample_query) 7 (test_client_connect (map Some chunks)) = (Ok (h, reply), 8, c)
    \<and> response_to h = 7 \<and> tc_sent c = a @ b"
proof -
  let ?h = "demo_handler MAX_MSG_LEN"
  obtain f where f: "frame_bytes (\<lambda>_. 0) 7 0 (MB_Query sample_query) False = Ok f"
    using frame_bytes_sendable [OF sample_query_sendable, of "\<lambda>_. 0"] by blast
  let ?a = "take 9 f" and ?b = "drop 9 f"
  let ?evs = "[Accept (None, \<lambda>_. sample_io), Task 0 (Chunk ?a), Accept (None, \<lambda>_. sample_io), Task 1 (Chunk [3]), Task 0 (Chunk ?b)]"
  have i: "0 < length (accepts ?evs)" "accepts ?evs ! 0 = (None, \<lambda>_. sample_io)" "sc_max_msg_len server_config_default = MAX_MSG_LEN"
    by (simp_all add: server_config_default_def)
  have r: "frame_bytes (\<lambda>_. 0) 7 0 (MB_Query sample_query) False = Ok (received (traffic 0 0 ?evs))" using f by simp
  have fresh: "connection_info_new\<lparr>peer_addr := None, ctx_checksum := sc_checksum server_config_default\<rparr> = connection_info_new"
    by (simp add: connection_info_new_def server_config_default_def)
  obtain ctx' out where out:
    "process_frame (\<lambda>_. 0) stored_codecs server_config_default ?h sample_io
      (with_length (header_new 7 0 (message_opcode (MB_Query sample_query)), MB_Query sample_query)) connection_info_new [] = (Ok NextFrame, ctx', concat (map (\<lambda>b. [b]) out))"
    "out \<noteq> []" by (rule sample_query_answered)
  let ?chunks = "map (\<lambda>b. [b]) out"
  have chunks: "[] \<notin> set ?chunks" "?chunks \<noteq> []" using out(2) by auto
  have o: "conn_out (serve (\<lambda>_. 0) stored_codecs server_config_default ?h ?evs ! 0) = concat ?chunks"
    using served_request [OF i sample_query_sendable r, of stored_codecs ?h] out(1) by (simp add: fresh)
  from served_client_exchange [OF demo.command_handler_axioms i(1,2) sample_io_ok(1,2) i(3) sample_query_sendable r o chunks]
  have "\<exists>h reply c. client_request (\<lambda>_. 0) None (MB_Query sample_query) 7 (test_client_connect (map Some ?chunks)) = (Ok (h, reply), 8, c)
    \<and> response_to h = 7 \<and> tc_sent c = ?a @ ?b" by simp
  with o show ?thesis by blast
qed

end
