(* ===== verification/Log_Date.thy ===== *)
theory Log_Date
  imports Bson_Encode Rust_Str "HOL-Library.Signed_Division"
begin

text \<open>
  Dates of the log output (\<open>format_datetime\<close> and \<open>civil_from_days\<close> of \<open>wirebson/src/encode.rs\<close>) and
  the number formats they use.  The reference calendar (\<open>leap_year\<close>, \<open>month_days\<close>, \<open>next_date\<close>)
  counts one day at a time; \<open>year_start\<close> counts the days of whole years beginning in March, the
  frame in which the closed formula of the source is proved equal to it.
\<close>



section \<open>Numbers\<close>

text \<open>\<open>to_string\<close> of a signed integer, and the formats \<open>{:02}\<close>, \<open>{:03}\<close>, \<open>{:04}\<close>: zeros go after the sign, which counts.\<close>

definition show_int :: "int \<Rightarrow> string" where
  "show_int n = (if n < 0 then CHR ''-'' # show_nat (nat (- n)) else show_nat (nat n))"

definition pad_zeros :: "nat \<Rightarrow> string \<Rightarrow> string" where
  "pad_zeros width s = replicate (width - length s) CHR ''0'' @ s"

definition show_padded :: "nat \<Rightarrow> int \<Rightarrow> string" where
  "show_padded width n =
     (if n < 0 then CHR ''-'' # pad_zeros (width - 1) (show_nat (nat (- n))) else pad_zeros width (show_nat (nat n)))"

section \<open>Civil dates\<close>

text \<open>
  An \<open>i64\<close> computation on unbounded integers: every listed intermediate result has to fit, or the
  overflow check panics.  Division is the truncating \<open>/\<close> of Rust.
\<close>

definition in_i64 :: "int \<Rightarrow> bool" where
  "in_i64 n \<longleftrightarrow> - (2 ^ 63) \<le> n \<and> n < 2 ^ 63"

definition no_overflow :: "int list \<Rightarrow> ('e, 'a) result \<Rightarrow> ('e, 'a) result" where
  "no_overflow ns k = (if list_all in_i64 ns then k else Panic)"

definition civil_from_days :: "int \<Rightarrow> (bson_error, int \<times> int \<times> int) result" where
  "civil_from_days days =
     (let z = days + 719468;
          n = (if 0 \<le> z then z else z - 146096);
          era = n sdiv 146097;
          doe = z - era * 146097;
          a = doe - doe sdiv 1460;
          b = a + doe sdiv 36524;
          c = b - doe sdiv 146096;
          yoe = c sdiv 365;
          y = yoe + era * 400;
          e = 365 * yoe + yoe sdiv 4;
          f = e - yoe sdiv 100;
          doy = doe - f;
          mp = (5 * doy + 2) sdiv 153;
          g = doy - (153 * mp + 2) sdiv 5;
          d = g + 1;
          m = (if mp < 10 then mp + 3 else mp - 9) in
      no_overflow [z, n, era * 146097, doe, a, b, c, era * 400, y, 365 * yoe, e, f, doy,
          5 * doy, 5 * doy + 2, 153 * mp, 153 * mp + 2, g, d, m, if m \<le> 2 then y + 1 else y]
        (Ok (if m \<le> 2 then y + 1 else y, m, d)))"

definition format_datetime :: "i64 \<Rightarrow> (bson_error, string) result" where
  "format_datetime ms =
     (let secs = sint ms div 1000; millis = sint ms mod 1000;
          days = secs div 86400; sod = secs mod 86400 in
      andthen (civil_from_days days) (\<lambda>(year, month, day).
      let hh = sod sdiv 3600; mm = (sod sdiv 60) smod 60; ss = sod smod 60;
          date = show_padded 4 year @ ''-'' @ show_padded 2 month @ ''-'' @ show_padded 2 day;
          time = show_padded 2 hh @ '':'' @ show_padded 2 mm @ '':'' @ show_padded 2 ss in
      Ok (if millis = 0 then date @ ''T'' @ time @ ''Z''
          else date @ ''T'' @ time @ ''.'' @ show_padded 3 millis @ ''Z'')))"

section \<open>The reference calendar\<close>

definition leap_year :: "int \<Rightarrow> bool" where
  "leap_year y \<longleftrightarrow> y mod 4 = 0 \<and> (y mod 100 \<noteq> 0 \<or> y mod 400 = 0)"

definition month_days :: "bool \<Rightarrow> int \<Rightarrow> int" where
  "month_days leap m = (if m = 2 then if leap then 29 else 28
     else if m = 4 \<or> m = 6 \<or> m = 9 \<or> m = 11 then 30 else 31)"

abbreviation month_length :: "int \<Rightarrow> int \<Rightarrow> int" where
  "month_length y \<equiv> month_days (leap_year y)"

definition valid_date :: "int \<times> int \<times> int \<Rightarrow> bool" where
  "valid_date = (\<lambda>(y, m, d). 1 \<le> m \<and> m \<le> 12 \<and> 1 \<le> d \<and> d \<le> month_length y m)"

definition next_date :: "int \<times> int \<times> int \<Rightarrow> int \<times> int \<times> int" where
  "next_date = (\<lambda>(y, m, d). if d < month_length y m then (y, m, d + 1)
     else if m < 12 then (y, m + 1, 1) else (y + 1, 1, 1))"

text \<open>The first day of year \<open>y\<close>, counted from 1 March of the year 0; month and day of a day of such a year.\<close>

definition year_start :: "int \<Rightarrow> int" where
  "year_start y = 365 * y + y div 4 - y div 100 + y div 400"

definition month_day :: "int \<Rightarrow> int \<times> int" where
  "month_day doy = (let mp = (5 * doy + 2) div 153 in
     (if mp < 10 then mp + 3 else mp - 9, doy - (153 * mp + 2) div 5 + 1))"

definition march_date :: "int \<Rightarrow> int \<Rightarrow> int \<times> int \<times> int" where
  "march_date y doy = (case month_day doy of (m, d) \<Rightarrow> (if m \<le> 2 then y + 1 else y, m, d))"

definition year_sum :: "int \<Rightarrow> int" where
  "year_sum doe = doe - doe div 1460 + doe div 36524 - doe div 146096"

lemma div_step: "0 < k \<Longrightarrow> (n + 1) div k = n div k + (if (k :: int) dvd n + 1 then 1 else 0)"
proof -
  assume k: "0 < k"
  define r where "r = (n + 1) mod k"
  have r: "0 \<le> r" "r < k" "n + 1 = k * ((n + 1) div k) + r" "k dvd n + 1 \<longleftrightarrow> r = 0"
    using k by (simp_all add: r_def dvd_eq_mod_eq_0)
  have "n div k = (n + 1) div k - (if r = 0 then 1 else 0)"
    using r by (intro int_div_pos_eq [where r = "if r = 0 then k - 1 else r - 1"]) (auto simp: algebra_simps)
  with r show ?thesis by simp
qed

lemma year_sum_step: "year_sum n \<le> year_sum (n + 1)"
proof -
  have "(36524 :: int) dvd n + 1" if "146096 dvd n + 1"
    using that by (rule dvd_trans [rotated]) simp
  then show ?thesis by (simp add: year_sum_def div_step)
qed

lemma year_sum_mono: "a \<le> b \<Longrightarrow> year_sum a \<le> year_sum b"
  by (rule int_ge_induct [of a b]) (auto intro: order_trans year_sum_step)

lemma era_years_all: "list_all (\<lambda>y. 365 * y \<le> year_sum (year_start y) \<and> year_sum (year_start (y + 1) - 1) < 365 * (y + 1)) [0..399]"
  by code_simp

lemma year_of_era:
  assumes "0 \<le> y" "y < 400" "year_start y \<le> doe" "doe < year_start (y + 1)"
  shows "year_sum doe div 365 = y"
proof -
  have "365 * y \<le> year_sum (year_start y)" "year_sum (year_start (y + 1) - 1) < 365 * (y + 1)"
    using era_years_all assms(1,2) by (auto simp: list_all_iff)
  moreover have "year_sum (year_start y) \<le> year_sum doe" "year_sum doe \<le> year_sum (year_start (y + 1) - 1)"
    using assms(3,4) by (auto intro: year_sum_mono)
  ultimately show ?thesis by (intro int_div_pos_eq [where r = "year_sum doe - 365 * y"]) simp_all
qed

lemma year_start_exists_upto:
  assumes "0 \<le> doe" "0 \<le> n" "doe < year_start n"
  shows "\<exists>y. 0 \<le> y \<and> y < n \<and> year_start y \<le> doe \<and> doe < year_start (y + 1)"
  using assms(2,3)
proof (induction n rule: int_ge_induct)
  case base
  with assms(1) show ?case by (simp add: year_start_def)
next
  case (step n)
  then show ?case by (cases "doe < year_start n") force+
qed


lemma year_start_era: "year_start (y + 400 * e) = year_start y + 146097 * e"
proof -
  have "(y + 400 * e) div 4 = y div 4 + 100 * e" "(y + 400 * e) div 100 = y div 100 + 4 * e"
    "(y + 400 * e) div 400 = y div 400 + e"
    using div_mult_self2 [of 4 y "100 * e"] div_mult_self2 [of 100 y "4 * e"] by simp_all
  then show ?thesis by (simp add: year_start_def)
qed

lemma year_start_exists: "\<exists>y. year_start y \<le> z \<and> z < year_start (y + 1)"
proof -
  define e doe where "e = z div 146097" and "doe = z mod 146097"
  have z: "z = doe + 146097 * e" "0 \<le> doe" "doe < 146097" by (simp_all add: e_def doe_def)
  have "year_start 400 = 146097" by (simp add: year_start_def)
  with z obtain y where y: "year_start y \<le> doe" "doe < year_start (y + 1)"
    using year_start_exists_upto [of doe 400] by auto
  have "y + 400 * e + 1 = (y + 1) + 400 * e" by simp
  with y z have "year_start (y + 400 * e) \<le> z" "z < year_start (y + 400 * e + 1)"
    by (simp_all only: year_start_era)
  then show ?thesis by blast
qed

lemma year_length: "year_start (y + 1) = year_start y + (if leap_year (y + 1) then 366 else 365)"
proof -
  have "\<not> (4 :: int) dvd y + 1 \<Longrightarrow> \<not> 100 dvd y + 1" "\<not> (100 :: int) dvd y + 1 \<Longrightarrow> \<not> 400 dvd y + 1"
    by (auto elim: contrapos_nn dvd_trans [rotated])
  then show ?thesis by (auto simp: year_start_def leap_year_def div_step simp flip: dvd_eq_mod_eq_0)
qed

definition month_day_step :: "int \<Rightarrow> bool" where
  "month_day_step doy = (case (month_day doy, month_day (doy + 1)) of ((m, d), (m', d')) \<Rightarrow>
     1 \<le> m \<and> m \<le> 12 \<and> 1 \<le> d \<and> d \<le> month_days False m \<and> (m = 2 \<longrightarrow> d < 28)
     \<and> (if d < month_days False m then m' = m \<and> d' = d + 1
        else if m < 12 then m' = m + 1 \<and> d' = 1 else m' = 1 \<and> d' = 1))"

lemma month_day_steps: "list_all month_day_step [0..363]"
  by code_simp

lemma month_day_stepI: "0 \<le> doy \<Longrightarrow> doy \<le> 363 \<Longrightarrow> month_day_step doy"
  using month_day_steps unfolding list_all_iff set_upto by simp

lemma month_day_ends: "month_day 0 = (3, 1)" "month_day 364 = (2, 28)" "month_day 365 = (2, 29)"
  by (simp_all add: month_day_def)

lemma march_date_step:
  assumes "0 \<le> doy" "doy + 1 < (if leap_year (y + 1) then 366 else 365)"
  shows "march_date y (doy + 1) = next_date (march_date y doy)"
proof (cases "doy = 364")
  case True
  with assms have "leap_year (y + 1)" by (simp split: if_splits)
  with True show ?thesis by (simp add: march_date_def month_day_ends next_date_def month_days_def)
next
  case False
  with assms have "month_day_step doy" by (intro month_day_stepI) (auto split: if_splits)
  then show ?thesis
    by (auto simp: month_day_step_def march_date_def next_date_def month_days_def split: prod.splits if_splits)
qed

lemma march_date_year_end:
  "march_date (y + 1) 0 = next_date (march_date y (if leap_year (y + 1) then 365 else 364))"
  by (simp add: march_date_def month_day_ends next_date_def month_days_def)

lemma march_date_valid:
  assumes "0 \<le> doy" "doy < (if leap_year (y + 1) then 366 else 365)"
  shows "valid_date (march_date y doy)"
proof (cases "doy \<in> {364, 365}")
  case True
  with assms show ?thesis by (auto simp: march_date_def month_day_ends valid_date_def month_days_def split: if_splits)
next
  case False
  with assms have "month_day_step doy" by (intro month_day_stepI) (auto split: if_splits)
  then show ?thesis
    by (auto simp: month_day_step_def march_date_def valid_date_def month_days_def split: prod.splits if_splits)
qed


lemma sdiv_nonneg: "0 \<le> a \<Longrightarrow> 0 < b \<Longrightarrow> a sdiv b = a div (b :: int)"
  by (cases "a = 0") (simp_all add: signed_divide_int_def)

lemma sdiv_era: "(if 0 \<le> z then z else z - 146096) sdiv 146097 = z div (146097 :: int)"
proof (cases "0 \<le> z")
  case False
  have "(146096 - z) div 146097 = - (z div 146097)"
  proof (rule int_div_pos_eq [where r = "146096 - z mod 146097"])
    show "146096 - z = 146097 * - (z div 146097) + (146096 - z mod 146097)"
      using mult_div_mod_eq [of 146097 z] by linarith
  qed simp_all
  with False show ?thesis by (simp add: signed_divide_int_def)
qed (simp add: sdiv_nonneg)

lemma div_le_self: "0 \<le> a \<Longrightarrow> 0 < b \<Longrightarrow> a div b \<le> (a :: int)"
  using zdiv_mono2 [of a 1 b] by simp

lemma month_day_bounds:
  assumes "0 \<le> doy" "doy \<le> 365"
  shows "0 \<le> (5 * doy + 2) div 153 \<and> (5 * doy + 2) div 153 \<le> (11 :: int)"
    "0 \<le> doy - (153 * ((5 * doy + 2) div 153) + 2) div 5"
proof -
  show "0 \<le> (5 * doy + 2) div 153 \<and> (5 * doy + 2) div 153 \<le> 11" using assms by auto
  define mp where "mp = (5 * doy + 2) div 153"
  have "153 * mp \<le> 5 * doy + 2" by (simp add: mp_def)
  then have "(153 * mp + 2) div 5 \<le> (5 * doy + 4) div 5" by (intro zdiv_mono1) simp_all
  then show "0 \<le> doy - (153 * ((5 * doy + 2) div 153) + 2) div 5" by (simp flip: mp_def)
qed

lemma year_start_within: "0 \<le> y \<Longrightarrow> y < 400 \<Longrightarrow> 365 * y + y div 4 - y div 100 = year_start y"
  by (simp add: year_start_def)

lemma in_i64_if: "in_i64 a \<Longrightarrow> in_i64 b \<Longrightarrow> in_i64 (if c then a else b)"
  by simp

lemma in_i64I: "- 9223372036854775808 \<le> n \<Longrightarrow> n < 9223372036854775808 \<Longrightarrow> in_i64 n"
  by (simp add: in_i64_def)

lemma civil_in_range:
  assumes doe: "0 \<le> doe" "doe < 146097" and k: "0 \<le> k" "k < 400" and doy: "0 \<le> doy" "doy \<le> 365"
    and c: "0 \<le> year_sum doe" and ys: "0 \<le> year_start k" "year_start k \<le> 146097"
    and e: "- (2 ^ 62) \<le> 146097 * e" "146097 * e \<le> 2 ^ 62" and mp: "mp = (5 * doy + 2) div 153"
  shows "list_all in_i64 [e * 146097 + doe, if 0 \<le> e * 146097 + doe then e * 146097 + doe else e * 146097 + doe - 146096,
    e * 146097, doe, doe - doe div 1460, doe - doe div 1460 + doe div 36524, year_sum doe, e * 400, k + e * 400,
    365 * k, 365 * k + k div 4, year_start k, doy, 5 * doy, 5 * doy + 2, 153 * mp, 153 * mp + 2,
    doy - (153 * mp + 2) div 5, doy - (153 * mp + 2) div 5 + 1, if mp < 10 then mp + 3 else mp - 9,
    if (if mp < 10 then mp + 3 else mp - 9) \<le> 2 then k + e * 400 + 1 else k + e * 400]"
proof -
  have m: "0 \<le> mp" "mp \<le> 11" "0 \<le> doy - (153 * mp + 2) div 5"
    using month_day_bounds [OF doy] by (simp_all add: mp)
  then have "0 \<le> (153 * mp + 2) div 5" by simp
  moreover have "0 \<le> doe div 1460" "doe div 1460 \<le> doe" "0 \<le> doe div 36524" "doe div 36524 \<le> doe"
      "0 \<le> doe div 146096" "0 \<le> k div 4" "k div 4 \<le> k"
    using doe k by (simp_all add: pos_imp_zdiv_nonneg_iff div_le_self)
  moreover have "year_sum doe \<le> 300000" using calculation doe by (simp add: year_sum_def)
  moreover have "- 4611686018427387904 \<le> 146097 * e" "146097 * e \<le> 4611686018427387904" using e by simp_all
  ultimately show ?thesis using doe k doy c ys m
    unfolding list.pred_inject by (intro conjI in_i64_if in_i64I list.pred_inject(1); linarith)
qed


lemma civil_era:
  assumes days: "days + 719468 = e * 146097 + doe" and range: "- (2 ^ 61) \<le> days" "days \<le> 2 ^ 61"
    and k: "0 \<le> k" "k < 400" and doe: "year_start k \<le> doe" "doe < year_start (k + 1)"
  shows "civil_from_days days = Ok (march_date (k + e * 400) (doe - year_start k))"
proof -
  define doy mp where "doy = doe - year_start k" and "mp = (5 * doy + 2) div 153"
  have nn: "0 \<le> year_start k" "year_start (k + 1) \<le> 146097" using k by (auto simp: year_start_def)
  have doy: "0 \<le> doy" "doy \<le> 365" using doe year_length [of k] by (auto simp: doy_def split: if_splits)
  have d0: "0 \<le> doe" "doe < 146097" using doe nn by simp_all
  have yoe: "year_sum doe div 365 = k" using k doe by (rule year_of_era)
  with k(1) have c: "0 \<le> year_sum doe" by (metis pos_imp_zdiv_nonneg_iff zero_less_numeral)
  have mp: "0 \<le> mp" using month_day_bounds(1) [OF doy] by (simp add: mp_def)
  have era: "(if 0 \<le> e * 146097 + doe then e * 146097 + doe else e * 146097 + doe - 146096) sdiv 146097 = e"
    unfolding sdiv_era by (rule int_div_pos_eq [where r = doe]) (use d0 in simp_all)
  have quot: "doe sdiv 1460 = doe div 1460" "doe sdiv 36524 = doe div 36524" "doe sdiv 146096 = doe div 146096"
      "k sdiv 4 = k div 4" "k sdiv 100 = k div 100" "year_sum doe sdiv 365 = k"
      "(5 * doy + 2) sdiv 153 = mp" "(153 * mp + 2) sdiv 5 = (153 * mp + 2) div 5"
    using d0 k c yoe doy mp by (simp_all add: sdiv_nonneg mp_def)
  have parts: "e * 146097 + doe - e * 146097 = doe" "doe - doe div 1460 + doe div 36524 - doe div 146096 = year_sum doe"
      "365 * k + k div 4 - k div 100 = year_start k" "doe - year_start k = doy"
    using k by (simp_all add: year_sum_def year_start_within doy_def)
  have "- (2 ^ 62) \<le> 146097 * e" "146097 * e \<le> 2 ^ 62" using range days d0 by simp_all
  moreover have "year_start k \<le> 146097" using doe d0 by simp
  ultimately have "list_all in_i64 [e * 146097 + doe, if 0 \<le> e * 146097 + doe then e * 146097 + doe else e * 146097 + doe - 146096,
    e * 146097, doe, doe - doe div 1460, doe - doe div 1460 + doe div 36524, year_sum doe, e * 400, k + e * 400,
    365 * k, 365 * k + k div 4, year_start k, doy, 5 * doy, 5 * doy + 2, 153 * mp, 153 * mp + 2,
    doy - (153 * mp + 2) div 5, doy - (153 * mp + 2) div 5 + 1, if mp < 10 then mp + 3 else mp - 9,
    if (if mp < 10 then mp + 3 else mp - 9) \<le> 2 then k + e * 400 + 1 else k + e * 400]"
    using d0 k doy c nn(1) mp_def by (intro civil_in_range)
  then show ?thesis
    unfolding civil_from_days_def Let_def days era quot parts no_overflow_def
    by (simp only: if_True march_date_def month_day_def Let_def prod.case flip: mp_def)
qed

lemma civil_from_days_at:
  assumes range: "- (2 ^ 61) \<le> days" "days \<le> 2 ^ 61"
    and y: "year_start y \<le> days + 719468" "days + 719468 < year_start (y + 1)"
  shows "civil_from_days days = Ok (march_date y (days + 719468 - year_start y))"
proof -
  define e k where "e = y div 400" and "k = y mod 400"
  have yk: "y = k + 400 * e" "y + 1 = (k + 1) + 400 * e" "0 \<le> k" "k < 400" by (simp_all add: e_def k_def)
  define doe where "doe = days + 719468 - e * 146097"
  have "year_start k \<le> doe" "doe < year_start (k + 1)"
    using y year_start_era [of k e, folded yk(1)] year_start_era [of "k + 1" e, folded yk(2)] by (simp_all add: doe_def)
  then have "civil_from_days days = Ok (march_date (k + e * 400) (doe - year_start k))"
    using range yk(3,4) by (intro civil_era) (simp_all add: doe_def)
  moreover have "k + e * 400 = y" "doe - year_start k = days + 719468 - year_start y"
    using year_start_era [of k e, folded yk(1)] yk(1) by (simp_all add: doe_def)
  ultimately show ?thesis by simp
qed

lemma civil_from_days_total:
  assumes "- (2 ^ 61) \<le> days \<and> days < 2 ^ 61"
  shows "\<exists>date. civil_from_days days = Ok date \<and> valid_date date"
proof -
  obtain y where y: "year_start y \<le> days + 719468" "days + 719468 < year_start (y + 1)"
    using year_start_exists by blast
  then have "valid_date (march_date y (days + 719468 - year_start y))"
    using year_length [of y] by (intro march_date_valid) simp_all
  moreover have "civil_from_days days = Ok (march_date y (days + 719468 - year_start y))"
    using assms y by (intro civil_from_days_at) simp_all
  ultimately show ?thesis by blast
qed

text \<open>
  (C26) \<open>civil_from_days\<close> is the proleptic Gregorian calendar: day 0 is 1 January 1970, every result is a
  valid date, and the date of the next day is the next date.  The arithmetic stays within \<open>i64\<close>
  for every day within \<open>2^61\<close> of the epoch.
\<close>

theorem civil_from_days_correct:
  "civil_from_days 0 = Ok (1970, 1, 1)
   \<and> (\<forall>days. - (2 ^ 61) \<le> days \<and> days < 2 ^ 61 \<longrightarrow>
       (\<exists>date. civil_from_days days = Ok date \<and> valid_date date \<and> civil_from_days (days + 1) = Ok (next_date date)))"
proof (intro conjI allI impI)
  show "civil_from_days 0 = Ok (1970, 1, 1)"
    using civil_from_days_at [of 0 1969] by (simp add: year_start_def march_date_def month_day_def Let_def)
  fix days :: int
  assume range: "- (2 ^ 61) \<le> days \<and> days < 2 ^ 61"
  obtain y where y: "year_start y \<le> days + 719468" "days + 719468 < year_start (y + 1)"
    using year_start_exists by blast
  define doy where "doy = days + 719468 - year_start y"
  have doy: "0 \<le> doy" "doy < (if leap_year (y + 1) then 366 else 365)"
    using y by (simp_all add: doy_def year_length)
  have now: "civil_from_days days = Ok (march_date y doy)"
    unfolding doy_def using range y by (intro civil_from_days_at) simp_all
  have "civil_from_days (days + 1) = Ok (next_date (march_date y doy))"
  proof (cases "days + 1 + 719468 < year_start (y + 1)")
    case True
    then have "civil_from_days (days + 1) = Ok (march_date y (doy + 1))"
      using range y civil_from_days_at [of "days + 1" y] by (simp add: doy_def algebra_simps)
    moreover have "march_date y (doy + 1) = next_date (march_date y doy)"
      using doy True year_length [of y] by (intro march_date_step) (simp_all add: doy_def)
    ultimately show ?thesis by simp
  next
    case False
    then have eq: "days + 1 + 719468 = year_start (y + 1)" using y by simp
    moreover have "year_start (y + 1) < year_start (y + 1 + 1)" using year_length [of "y + 1"] by simp
    ultimately have "civil_from_days (days + 1) = Ok (march_date (y + 1) 0)"
      using range civil_from_days_at [of "days + 1" "y + 1"] by simp
    moreover have "doy = (if leap_year (y + 1) then 365 else 364)" using eq year_length [of y] by (auto simp: doy_def)
    ultimately show ?thesis using march_date_year_end [of y] by simp
  qed
  with now march_date_valid [OF doy] show "\<exists>date. civil_from_days days = Ok date \<and> valid_date date \<and> civil_from_days (days + 1) = Ok (next_date date)"
    by blast
qed

theorem civil_from_days_correct_witness:
  "\<exists>date. civil_from_days (- 141428) = Ok date \<and> valid_date date \<and> civil_from_days (- 141427) = Ok (next_date date)"
  using civil_from_days_correct [THEN conjunct2, THEN spec, of "- 141428"] by simp

lemma smod_nonneg: "0 \<le> a \<Longrightarrow> 0 < b \<Longrightarrow> a smod b = a mod (b :: int)"
  by (cases "a = 0") (simp_all add: signed_modulo_int_def)

lemma days_of_ms_range: "- (2 ^ 61) \<le> sint (ms :: i64) div 1000 div 86400 \<and> sint ms div 1000 div 86400 < 2 ^ 61"
proof -
  have "- (2 ^ 63) \<le> sint ms" "sint ms < 2 ^ 63" using sint_ge [of ms] sint_lt [of ms] by simp_all
  then have "- (2 ^ 63) div 86400000 \<le> sint ms div 86400000" "sint ms div 86400000 \<le> (2 ^ 63) div 86400000"
    by (simp_all only: zdiv_mono1 less_imp_le zero_less_numeral)
  moreover have "sint ms div 1000 div 86400 = sint ms div 86400000" using zdiv_zmult2_eq [of 86400 "sint ms" 1000] by simp
  ultimately show ?thesis by simp
qed

text \<open>
  \<open>format_datetime\<close> never panics and prints the instant it is given: the fields it prints are a
  valid date and a time of day, and together with the milliseconds they add up to the argument.
\<close>

theorem format_datetime_fields:
  "\<exists>days y m d hh mm ss millis.
     format_datetime ms = Ok (show_padded 4 y @ ''-'' @ show_padded 2 m @ ''-'' @ show_padded 2 d @ ''T''
       @ show_padded 2 hh @ '':'' @ show_padded 2 mm @ '':'' @ show_padded 2 ss
       @ (if millis = 0 then [] else ''.'' @ show_padded 3 millis) @ ''Z'')
   \<and> civil_from_days days = Ok (y, m, d) \<and> valid_date (y, m, d)
   \<and> 0 \<le> hh \<and> hh < 24 \<and> 0 \<le> mm \<and> mm < 60 \<and> 0 \<le> ss \<and> ss < 60 \<and> 0 \<le> millis \<and> millis < 1000
   \<and> sint ms = (((days * 24 + hh) * 60 + mm) * 60 + ss) * 1000 + millis"
proof -
  define secs millis where "secs = sint ms div 1000" and "millis = sint ms mod 1000"
  define days sod where "days = secs div 86400" and "sod = secs mod 86400"
  have "- (2 ^ 61) \<le> days \<and> days < 2 ^ 61" using days_of_ms_range [of ms] by (simp add: days_def secs_def)
  then obtain y m d where date: "civil_from_days days = Ok (y, m, d)" "valid_date (y, m, d)"
    using civil_from_days_total by (metis prod.collapse)
  have sod: "0 \<le> sod" "sod < 86400" by (simp_all add: sod_def)
  define hh mm ss where "hh = sod div 3600" and "mm = sod div 60 mod 60" and "ss = sod mod 60"
  have "hh = sod div 60 div 60" using zdiv_zmult2_eq [of 60 sod 60] by (simp add: hh_def)
  then have "sod = (hh * 60 + mm) * 60 + ss"
    using mult_div_mod_eq [of 60 sod] mult_div_mod_eq [of 60 "sod div 60"] unfolding mm_def ss_def by (simp add: algebra_simps)
  moreover have "sint ms = secs * 1000 + millis" "secs = days * 86400 + sod"
    by (simp_all add: secs_def millis_def days_def sod_def)
  ultimately have "sint ms = (((days * 24 + hh) * 60 + mm) * 60 + ss) * 1000 + millis" by simp
  moreover have "sod sdiv 3600 = hh" "(sod sdiv 60) smod 60 = mm" "sod smod 60 = ss"
    using sod by (simp_all add: sdiv_nonneg smod_nonneg hh_def mm_def ss_def pos_imp_zdiv_nonneg_iff)
  then have "format_datetime ms = Ok (show_padded 4 y @ ''-'' @ show_padded 2 m @ ''-'' @ show_padded 2 d @ ''T''
       @ show_padded 2 hh @ '':'' @ show_padded 2 mm @ '':'' @ show_padded 2 ss
       @ (if millis = 0 then [] else ''.'' @ show_padded 3 millis) @ ''Z'')"
    using date(1) unfolding format_datetime_def Let_def secs_def [symmetric] millis_def [symmetric] days_def [symmetric] sod_def [symmetric]
    by simp
  moreover have "0 \<le> hh" "hh < 24" "0 \<le> mm" "mm < 60" "0 \<le> ss" "ss < 60" "0 \<le> millis" "millis < 1000"
    using sod by (auto simp: hh_def mm_def ss_def millis_def)
  ultimately show ?thesis using date by blast
qed

end
