(* ===== verification/Log_Text.thy ===== *)
theory Log_Text
  imports Log_Date
begin

text \<open>
  Text of single values in the log output of \<open>wirebson/src/encode.rs\<close>: hexadecimal, base64, quoted
  strings and doubles, with the parts of the standard library they use (\<open>chunks\<close>, the debug format
  of a string, the display format of a double).  Each is proved against a reference that reads the
  text back: a base64 decoder, a reader of quoted strings, the rounding interval of a double.
\<close>

unbundle bit_operations_syntax

section \<open>Model\<close>

subsection \<open>Hexadecimal and base64\<close>

text \<open>\<open>{b:02x}\<close> per byte.\<close>

definition hex :: "bytes \<Rightarrow> string" where
  "hex bs = concat (map (\<lambda>b. [HEX_DIGITS ! (unat b div 16), HEX_DIGITS ! (unat b mod 16)]) bs)"

text \<open>\<open>slice::chunks(n)\<close>.\<close>

function chunks :: "nat \<Rightarrow> 'a list \<Rightarrow> 'a list list" where
  "chunks n xs = (if n = 0 \<or> xs = [] then [] else take n xs # chunks n (drop n xs))"
  by auto
termination by (relation "measure (\<lambda>(n, xs). length xs)") auto

declare chunks.simps [simp del]

abbreviation (input) ALPHABET :: string where
  "ALPHABET \<equiv> ''ABCDEFGHIJKLMNOPQRSTUVWXYZabcdefghijklmnopqrstuvwxyz0123456789+/''"

definition base64_chunk :: "bytes \<Rightarrow> string" where
  "base64_chunk chunk =
     (let b0 = ucast (chunk ! 0) :: u32;
          b1 = (if 1 < length chunk then ucast (chunk ! 1) else 0) :: u32;
          b2 = (if 2 < length chunk then ucast (chunk ! 2) else 0) :: u32;
          n = push_bit 16 b0 OR push_bit 8 b1 OR b2 in
      [ALPHABET ! unat (drop_bit 18 n AND 63),
       ALPHABET ! unat (drop_bit 12 n AND 63),
       if 1 < length chunk then ALPHABET ! unat (drop_bit 6 n AND 63) else CHR ''='',
       if 2 < length chunk then ALPHABET ! unat (n AND 63) else CHR ''=''])"

definition base64 :: "bytes \<Rightarrow> string" where
  "base64 data = concat (map base64_chunk (chunks 3 data))"

subsection \<open>Quoted strings\<close>

text \<open>
  The characters of a string with their code points: the decoding of UTF-8 behind \<open>str::chars\<close>.
\<close>

definition utf8_head :: "string \<Rightarrow> (nat \<times> string \<times> string) option" where
  "utf8_head s = (case s of
     [] \<Rightarrow> None
   | a # _ \<Rightarrow>
     (let x = of_char a :: nat;
          (k, lead) = (if x < 0x80 then (1, x) else if x < 0xE0 then (2, x mod 32)
            else if x < 0xF0 then (3, x mod 16) else (4, x mod 8)) in
      Some (fold (\<lambda>b n. n * 64 + of_char b mod 64) (tl (take k s)) lead, take k s, drop k s)))"

lemma utf8_head_shorter: "utf8_head s = Some (c, u, r) \<Longrightarrow> length r < length s"
  by (auto simp: utf8_head_def Let_def split: list.splits if_splits)

function utf8_chars :: "string \<Rightarrow> (nat \<times> string) list" where
  "utf8_chars s = (case utf8_head s of None \<Rightarrow> [] | Some (c, u, r) \<Rightarrow> (c, u) # utf8_chars r)"
  by auto
termination by (relation "measure length") (auto dest: utf8_head_shorter)

declare utf8_chars.simps [simp del]

fun show_hex :: "nat \<Rightarrow> string" where
  "show_hex n = (if n < 16 then [HEX_DIGITS ! n] else show_hex (n div 16) @ [HEX_DIGITS ! (n mod 16)])"

declare show_hex.simps [simp del]

text \<open>
  \<open>{s:?}\<close>: \<open>char::escape_debug\<close> of every character between double quotes.  Outside ASCII, the Unicode
  tables decide which characters are printed as they are: the parameter \<open>shown\<close>.
\<close>

definition escape_debug :: "(nat \<Rightarrow> bool) \<Rightarrow> nat \<times> string \<Rightarrow> string" where
  "escape_debug shown = (\<lambda>(c, units).
     if c = 0 then [CHR 0x5C, CHR ''0'']
     else if c = 9 then [CHR 0x5C, CHR ''t'']
     else if c = 13 then [CHR 0x5C, CHR ''r'']
     else if c = 10 then [CHR 0x5C, CHR ''n'']
     else if c = 92 \<or> c = 34 then CHR 0x5C # units
     else if (if c < 128 then 32 \<le> c \<and> c < 127 else shown c) then units
     else [CHR 0x5C, CHR ''u'', CHR ''{''] @ show_hex c @ [CHR ''}''])"

definition quote :: "(nat \<Rightarrow> bool) \<Rightarrow> string \<Rightarrow> string" where
  "quote shown s = [CHR 0x22] @ concat (map (escape_debug shown) (utf8_chars s)) @ [CHR 0x22]"

subsection \<open>Doubles\<close>

definition f64_is_nan :: "f64 \<Rightarrow> bool" where
  "f64_is_nan w \<longleftrightarrow> unat (drop_bit 52 w) mod 2048 = 2047 \<and> unat w mod 2 ^ 52 \<noteq> 0"

definition f64_is_infinite :: "f64 \<Rightarrow> bool" where
  "f64_is_infinite w \<longleftrightarrow> unat (drop_bit 52 w) mod 2048 = 2047 \<and> unat w mod 2 ^ 52 = 0"

text \<open>
  \<open>format!("{v}")\<close> of a finite double: the shortest decimal that reads back as the same double, the
  one nearest to it, written without an exponent.  A double is \<open>m * 2^e\<close>; the numbers that round
  to it reach half a unit up and half a unit down, a quarter at a power of two, the bounds included
  when \<open>m\<close> is even.  In units of \<open>2^(e - 2)\<close> all of them are integers.
\<close>

definition f64_decode :: "f64 \<Rightarrow> nat \<times> int" where
  "f64_decode w =
     (let e = unat (drop_bit 52 w) mod 2048; f = unat w mod 2 ^ 52 in
      if e = 0 then (f, - 1074) else (2 ^ 52 + f, int e - 1075))"

text \<open>\<open>c * 10^p\<close> lies between \<open>lo\<close> and \<open>hi\<close>, both in units of \<open>2^q\<close>.\<close>

definition dec_num :: "nat \<Rightarrow> int \<Rightarrow> int \<Rightarrow> nat" where
  "dec_num c p q = c * 10 ^ nat p * 2 ^ nat (- q)"

definition bin_num :: "nat \<Rightarrow> int \<Rightarrow> int \<Rightarrow> nat" where
  "bin_num n p q = n * 10 ^ nat (- p) * 2 ^ nat q"

definition rounds_to :: "nat \<times> int \<Rightarrow> nat \<Rightarrow> int \<Rightarrow> bool" where
  "rounds_to = (\<lambda>(m, e) c p.
     (let x = dec_num c p (e - 2);
          lo = bin_num (4 * m - (if m = 2 ^ 52 then 1 else 2)) p (e - 2);
          hi = bin_num (4 * m + 2) p (e - 2) in
      if even m then lo \<le> x \<and> x \<le> hi else lo < x \<and> x < hi))"

text \<open>The search for the largest decimal unit that has a multiple among them, down from \<open>10^p\<close>.\<close>

fun shortest_from :: "nat \<times> int \<Rightarrow> nat \<Rightarrow> int \<Rightarrow> nat \<times> int" where
  "shortest_from (m, e) 0 p = (0, p)"
| "shortest_from (m, e) (Suc fuel) p =
     (let v = bin_num (4 * m) p (e - 2); unit = dec_num 1 p (e - 2);
          lo = v div unit in
      case (rounds_to (m, e) lo p, rounds_to (m, e) (lo + 1) p) of
        (True, True) \<Rightarrow> (if 2 * (v mod unit) < unit then lo else lo + 1, p)
      | (True, False) \<Rightarrow> (lo, p)
      | (False, True) \<Rightarrow> (lo + 1, p)
      | (False, False) \<Rightarrow> shortest_from (m, e) fuel (p - 1))"

definition show_decimal :: "nat \<Rightarrow> int \<Rightarrow> string" where
  "show_decimal c p =
     (let ds = show_nat c; k = nat (- p) in
      if 0 \<le> p then ds @ replicate (nat p) CHR ''0''
      else if k < length ds then take (length ds - k) ds @ ''.'' @ drop (length ds - k) ds
      else ''0.'' @ replicate (k - length ds) CHR ''0'' @ ds)"

definition f64_display :: "f64 \<Rightarrow> string" where
  "f64_display w =
     (let (m, e) = f64_decode w in
      (if bit w 63 then ''-'' else []) @
      (if m = 0 then ''0'' else case shortest_from (m, e) 1400 309 of (c, p) \<Rightarrow> show_decimal c p))"

definition format_f64 :: "f64 \<Rightarrow> string" where
  "format_f64 v = (let s = f64_display v in if CHR ''.'' \<in> set s then s else s @ ''.0'')"

section \<open>Base64\<close>

text \<open>The reference decoder: groups of four characters, the last one padded.\<close>

fun index_of :: "'a \<Rightarrow> 'a list \<Rightarrow> nat option" where
  "index_of x [] = None"
| "index_of x (y # ys) = (if x = y then Some 0 else map_option Suc (index_of x ys))"

definition sextet :: "char \<Rightarrow> u32 option" where
  "sextet c = map_option word_of_nat (index_of c ALPHABET)"

definition join_sextets :: "u32 \<Rightarrow> u32 \<Rightarrow> u32 \<Rightarrow> u32 \<Rightarrow> bytes" where
  "join_sextets a b c d =
     (let n = push_bit 18 a OR push_bit 12 b OR push_bit 6 c OR d in
      [ucast (drop_bit 16 n), ucast (drop_bit 8 n), ucast n])"

definition base64_group :: "char \<Rightarrow> char \<Rightarrow> char \<Rightarrow> char \<Rightarrow> bytes option" where
  "base64_group a b c d = (case (sextet a, sextet b) of
     (Some x, Some y) \<Rightarrow> (case (sextet c, sextet d) of
         (Some z, Some w) \<Rightarrow> Some (join_sextets x y z w)
       | (Some z, None) \<Rightarrow> if d = CHR ''='' then Some (take 2 (join_sextets x y z 0)) else None
       | _ \<Rightarrow> if c = CHR ''='' \<and> d = CHR ''='' then Some (take 1 (join_sextets x y 0 0)) else None)
   | _ \<Rightarrow> None)"

fun base64_decode :: "string \<Rightarrow> bytes option" where
  "base64_decode [] = Some []"
| "base64_decode (a # b # c # d # s) = (case (base64_group a b c d, base64_decode s) of
     (Some g, Some r) \<Rightarrow> Some (g @ r) | _ \<Rightarrow> None)"
| "base64_decode _ = None"

lemma sextet_ALPHABET_all: "list_all (\<lambda>i. sextet (ALPHABET ! i) = Some (word_of_nat i)) [0..<64]"
  by code_simp

lemma sextet_ALPHABET [simp]: "i < 64 \<Longrightarrow> sextet (ALPHABET ! i) = Some (word_of_nat i)"
  using sextet_ALPHABET_all unfolding list_all_iff set_upt by simp

lemma sextet_pad [simp]: "sextet CHR ''='' = None"
  by (simp add: sextet_def)

lemma and_63: "w AND 63 = take_bit 6 (w :: u32)"
  by (simp add: take_bit_eq_mask mask_numeral)

lemma and_63_less: "unat ((w :: u32) AND 63) < 64"
  unfolding and_63 unsigned_take_bit_eq using take_bit_nat_less_exp [of 6 "unat w"] by simp

lemma sextet_and_63 [simp]: "sextet (ALPHABET ! unat (w AND 63)) = Some (w AND 63)"
  using and_63_less [of w] by simp

lemma join_split_sextets:
  fixes b0 b1 b2 :: u8
  defines "n \<equiv> push_bit 16 (ucast b0 :: u32) OR push_bit 8 (ucast b1) OR ucast b2"
  shows "join_sextets (drop_bit 18 n AND 63) (drop_bit 12 n AND 63) (drop_bit 6 n AND 63) (n AND 63) = [b0, b1, b2]"
proof -
  have small: "bit n i \<Longrightarrow> i < 24" for i
    using bit_imp_le_length by (fastforce simp: n_def bit_simps)
  have n: "push_bit 18 (drop_bit 18 n AND 63) OR push_bit 12 (drop_bit 12 n AND 63) OR push_bit 6 (drop_bit 6 n AND 63) OR (n AND 63) = n"
    unfolding and_63
  proof (rule bit_word_eqI)
    fix i
    show "bit (push_bit 18 (take_bit 6 (drop_bit 18 n)) OR push_bit 12 (take_bit 6 (drop_bit 12 n))
        OR push_bit 6 (take_bit 6 (drop_bit 6 n)) OR take_bit 6 n) i \<longleftrightarrow> bit n i"
      using small [of i] bit_imp_le_length [of n i]
      by (cases "i < 6"; cases "i < 12"; cases "i < 18") (auto simp: bit_simps)
  qed
  show ?thesis
    unfolding join_sextets_def n Let_def list.inject
    by (intro conjI bit_word_eqI refl) (auto simp: n_def bit_simps dest: bit_imp_le_length)
qed

lemma base64_decode_chunk:
  assumes "chunk \<noteq> []" "length chunk \<le> 3"
  shows "base64_decode (base64_chunk chunk @ s) = map_option (\<lambda>r. chunk @ r) (base64_decode s)"
proof -
  from assms consider b0 where "chunk = [b0]" | b0 b1 where "chunk = [b0, b1]" | b0 b1 b2 where "chunk = [b0, b1, b2]"
    by (cases chunk; cases "tl chunk"; cases "tl (tl chunk)") auto
  then show ?thesis
  proof cases
    case (1 b0)
    have n: "(push_bit 16 (ucast b0 :: u32) AND 63) = 0" "(drop_bit 6 (push_bit 16 (ucast b0 :: u32)) AND 63) = 0"
      unfolding and_63 by (rule bit_word_eqI; auto simp: bit_simps)+
    show ?thesis using join_split_sextets [of b0 0 0]
      by (simp add: 1 base64_chunk_def base64_group_def Let_def n split: option.split)
  next
    case (2 b0 b1)
    have n: "((push_bit 16 (ucast b0 :: u32) OR push_bit 8 (ucast b1)) AND 63) = 0"
      unfolding and_63 by (rule bit_word_eqI; auto simp: bit_simps)
    show ?thesis using join_split_sextets [of b0 b1 0]
      by (simp add: 2 base64_chunk_def base64_group_def Let_def n split: option.split)
  next
    case (3 b0 b1 b2)
    show ?thesis using join_split_sextets [of b0 b1 b2]
      by (simp add: 3 base64_chunk_def base64_group_def Let_def split: option.split)
  qed
qed

lemma length_base64_chunk [simp]: "length (base64_chunk chunk) = 4"
  by (simp add: base64_chunk_def Let_def)

lemma groups_of_three: "0 < n \<Longrightarrow> (n - 3 + 2) div 3 + 1 = (n + 2) div (3 :: nat)"
proof (cases "3 \<le> n")
  case True
  then obtain m where "n = m + 3" using le_Suc_ex by (metis add.commute)
  then show ?thesis by simp
next
  case False
  moreover assume "0 < n"
  ultimately have "n = 1 \<or> n = 2" by auto
  then show ?thesis by auto
qed

text \<open>
  The base64 of the log reads back: the reference decoder returns the encoded bytes, and the text
  has four characters for every three bytes begun.
\<close>

theorem base64_round_trip:
  "base64_decode (base64 data) = Some data \<and> length (base64 data) = 4 * ((length data + 2) div 3)"
proof (induction "3 :: nat" data rule: chunks.induct)
  case (1 data)
  show ?case
  proof (cases "data = []")
    case True
    then show ?thesis by (simp add: base64_def chunks.simps)
  next
    case False
    then have "base64 data = base64_chunk (take 3 data) @ base64 (drop 3 data)"
      by (simp add: base64_def chunks.simps [of 3 data])
    moreover have "(length data - 3 + 2) div 3 + 1 = (length data + 2) div 3"
      using False by (intro groups_of_three) simp
    ultimately show ?thesis using False 1 base64_decode_chunk [of "take 3 data"] by simp
  qed
qed

section \<open>Quoted strings\<close>

lemma byte_cmp:
  "byte_of_char a < 0x80 \<longleftrightarrow> (of_char a :: nat) < 0x80"
  "(numeral k \<le> byte_of_char a) \<longleftrightarrow> unat (numeral k :: u8) \<le> (of_char a :: nat)"
  "(byte_of_char a \<le> numeral k) \<longleftrightarrow> (of_char a :: nat) \<le> unat (numeral k :: u8)"
  "byte_of_char a = numeral k \<longleftrightarrow> (of_char a :: nat) = unat (numeral k :: u8)"
  by (simp_all add: word_less_nat_alt word_le_nat_alt word_unat_eq_iff)

lemma utf8_head_step:
  assumes wf: "wf_str s" and ne: "s \<noteq> []"
  obtains c u r where "s = u @ r" "wf_str r" "\<And>r'. utf8_head (u @ r') = Some (c, u, r')"
    "(\<exists>a. u = [a] \<and> c = of_char a \<and> c < 128) \<or> 128 \<le> c \<and> (\<forall>x \<in> set u. 128 \<le> (of_char x :: nat)) \<and> u \<noteq> []"
proof -
  obtain a t where s: "s = a # t" using ne by (cases s) auto
  let ?x = "of_char a :: nat"
  have u8: "utf8 (byte_of_char a # as_bytes t)" using wf by (simp add: wf_str_def s as_bytes_def)
  consider (one) "?x < 0x80" | (two) "0xC2 \<le> ?x" "?x \<le> 0xDF" | (three) "0xE0 \<le> ?x" "?x \<le> 0xEF" | (four) "0xF0 \<le> ?x" "?x \<le> 0xF4"
    using u8 by (auto simp: byte_cmp split: if_splits)
  then show thesis
  proof cases
    case one
    with u8 have "wf_str t" by (simp add: byte_cmp wf_str_def)
    with one show ?thesis by (intro that [of "[a]" t ?x]) (auto simp: s utf8_head_def)
  next
    case two
    with u8 obtain b r where t: "t = b # r" "wf_str r" "0x80 \<le> (of_char b :: nat)"
      by (cases t) (auto simp: byte_cmp utf8_cont_def wf_str_def as_bytes_def)
    have "2 \<le> ?x mod 32" using two by presburger
    with two t show ?thesis by (intro that [of "[a, b]" r "?x mod 32 * 64 + of_char b mod 64"]) (auto simp: s utf8_head_def)
  next
    case three
    with u8 obtain b d r where t: "t = b # d # r" "wf_str r" "0x80 \<le> (of_char b :: nat)" "0x80 \<le> (of_char d :: nat)"
        "?x = 0xE0 \<longrightarrow> 0xA0 \<le> (of_char b :: nat) \<and> (of_char b :: nat) \<le> 0xBF"
      by (cases t; cases "tl t") (auto simp: byte_cmp utf8_cont_def wf_str_def as_bytes_def split: if_splits)
    have "?x = 0xE0 \<or> 1 \<le> ?x mod 16" using three by presburger
    moreover have "32 \<le> (of_char b :: nat) mod 64" if "?x = 0xE0" using that t(5) by presburger
    ultimately have "32 \<le> ?x mod 16 * 64 + of_char b mod 64" by linarith
    with three t show ?thesis
      by (intro that [of "[a, b, d]" r "(?x mod 16 * 64 + of_char b mod 64) * 64 + of_char d mod 64"]) (auto simp: s utf8_head_def)
  next
    case four
    with u8 obtain b d f r where t: "t = b # d # f # r" "wf_str r" "0x80 \<le> (of_char b :: nat)" "0x80 \<le> (of_char d :: nat)"
        "0x80 \<le> (of_char f :: nat)" "?x = 0xF0 \<longrightarrow> 0x90 \<le> (of_char b :: nat) \<and> (of_char b :: nat) \<le> 0xBF"
      by (cases t; cases "tl t"; cases "tl (tl t)") (auto simp: byte_cmp utf8_cont_def wf_str_def as_bytes_def split: if_splits)
    have "?x = 0xF0 \<or> 1 \<le> ?x mod 8" using four by presburger
    moreover have "16 \<le> (of_char b :: nat) mod 64" if "?x = 0xF0" using that t(6) by presburger
    ultimately have "16 \<le> ?x mod 8 * 64 + of_char b mod 64" by linarith
    with four t show ?thesis
      by (intro that [of "[a, b, d, f]" r "((?x mod 8 * 64 + of_char b mod 64) * 64 + of_char d mod 64) * 64 + of_char f mod 64"])
        (auto simp: s utf8_head_def)
  qed
qed

lemma utf8_chars_Nil [simp]: "utf8_chars [] = []"
  by (simp add: utf8_chars.simps utf8_head_def)

text \<open>Induction over the characters of a well-formed string.\<close>

lemma wf_str_induct [consumes 1, case_names Nil Char]:
  assumes "wf_str s" and nil: "P []"
    and char: "\<And>c u r. wf_str r \<Longrightarrow> P r \<Longrightarrow> utf8_chars (u @ r) = (c, u) # utf8_chars r
      \<Longrightarrow> (\<And>r'. utf8_head (u @ r') = Some (c, u, r'))
      \<Longrightarrow> (\<exists>a. u = [a] \<and> c = of_char a \<and> c < 128) \<or> 128 \<le> c \<and> (\<forall>x \<in> set u. 128 \<le> (of_char x :: nat)) \<and> u \<noteq> [] \<Longrightarrow> P (u @ r)"
  shows "P s"
  using assms(1)
proof (induction "length s" arbitrary: s rule: less_induct)
  case less
  show ?case
  proof (cases "s = []")
    case False
    with less.prems obtain c u r where s: "s = u @ r" "wf_str r" and head: "\<And>r'. utf8_head (u @ r') = Some (c, u, r')"
      and u: "(\<exists>a. u = [a] \<and> c = of_char a \<and> c < 128) \<or> 128 \<le> c \<and> (\<forall>x \<in> set u. 128 \<le> (of_char x :: nat)) \<and> u \<noteq> []"
      by (rule utf8_head_step) auto
    have "u \<noteq> []" using u by auto
    then have "P r" using less.hyps [of r] s by simp
    moreover have "utf8_chars (u @ r) = (c, u) # utf8_chars r" by (subst utf8_chars.simps) (simp add: head)
    ultimately show ?thesis using s u head by (auto intro: char)
  qed (simp add: nil)
qed

text \<open>The reference reader of a quoted string: its code points.\<close>

definition hex_val :: "string \<Rightarrow> nat" where
  "hex_val ds = foldl (\<lambda>n d. n * 16 + the (index_of d HEX_DIGITS)) 0 ds"

definition read_escape :: "string \<Rightarrow> (nat \<times> string) option" where
  "read_escape s = (case s of
     [] \<Rightarrow> None
   | e # t \<Rightarrow>
     (if e = CHR ''0'' then Some (0, t)
      else if e = CHR ''t'' then Some (9, t)
      else if e = CHR ''r'' then Some (13, t)
      else if e = CHR ''n'' then Some (10, t)
      else if e = CHR 0x5C then Some (92, t)
      else if e = CHR 0x22 then Some (34, t)
      else if e = CHR ''u'' then
        Some (hex_val (takeWhile (\<lambda>d. d \<noteq> CHR ''}'') (tl t)), tl (dropWhile (\<lambda>d. d \<noteq> CHR ''}'') (tl t)))
      else None))"

definition read_char :: "string \<Rightarrow> (nat \<times> string) option" where
  "read_char s = (case s of
     [] \<Rightarrow> None
   | a # t \<Rightarrow> if a = CHR 0x5C then read_escape t else map_option (\<lambda>(c, _, r). (c, r)) (utf8_head s))"

fun read_chars :: "nat \<Rightarrow> string \<Rightarrow> nat list option" where
  "read_chars 0 s = None"
| "read_chars (Suc fuel) s =
     (if s = [CHR 0x22] then Some []
      else case read_char s of
        Some (c, r) \<Rightarrow> map_option (\<lambda>cs. c # cs) (read_chars fuel r)
      | None \<Rightarrow> None)"

definition unquote :: "string \<Rightarrow> nat list option" where
  "unquote s = (case s of CHR 0x22 # t \<Rightarrow> read_chars (length t) t | _ \<Rightarrow> None)"

lemma hex_digit_index_all: "list_all (\<lambda>i. index_of (HEX_DIGITS ! i) HEX_DIGITS = Some i \<and> HEX_DIGITS ! i \<noteq> CHR ''}''
    \<and> 32 \<le> (of_char (HEX_DIGITS ! i) :: nat) \<and> (of_char (HEX_DIGITS ! i) :: nat) < 127) [0..<16]"
  by code_simp

lemma hex_digit_index: "i < 16 \<Longrightarrow> index_of (HEX_DIGITS ! i) HEX_DIGITS = Some i \<and> HEX_DIGITS ! i \<noteq> CHR ''}''
    \<and> 32 \<le> (of_char (HEX_DIGITS ! i) :: nat) \<and> (of_char (HEX_DIGITS ! i) :: nat) < 127"
  using hex_digit_index_all unfolding list_all_iff set_upt by simp

lemma show_hex_chars: "d \<in> set (show_hex n) \<Longrightarrow> d \<noteq> CHR ''}'' \<and> 32 \<le> (of_char d :: nat) \<and> (of_char d :: nat) < 127"
proof (induction n rule: show_hex.induct)
  case (1 n)
  have "d = HEX_DIGITS ! (n mod 16) \<or> 16 \<le> n \<and> d \<in> set (show_hex (n div 16))"
    using "1.prems" by (subst (asm) show_hex.simps) (auto split: if_splits)
  then show ?case using "1.IH" hex_digit_index [of "n mod 16"] by auto
qed

lemma hex_val_show_hex [simp]: "hex_val (show_hex n) = n"
proof (induction n rule: show_hex.induct)
  case (1 n)
  show ?case
  proof (cases "n < 16")
    case True
    then show ?thesis using hex_digit_index [of n] by (subst show_hex.simps) (simp add: hex_val_def)
  next
    case False
    then show ?thesis using "1.IH" hex_digit_index [of "n mod 16"]
      by (subst show_hex.simps) (simp add: hex_val_def)
  qed
qed

lemma of_char_inj: "of_char a = (of_char b :: nat) \<Longrightarrow> a = b"
  by (simp add: inj_eq)

lemma read_escape_debug:
  assumes u: "(\<exists>a. u = [a] \<and> c = of_char a \<and> c < 128) \<or> 128 \<le> c \<and> (\<forall>x \<in> set u. 128 \<le> (of_char x :: nat)) \<and> u \<noteq> []"
    and head: "\<And>r. utf8_head (u @ r) = Some (c, u, r)"
  shows "read_char (escape_debug shown (c, u) @ t) = Some (c, t)"
proof -
  have esc: "takeWhile (\<lambda>d. d \<noteq> CHR ''}'') (show_hex c @ CHR ''}'' # t) = show_hex c"
    "dropWhile (\<lambda>d. d \<noteq> CHR ''}'') (show_hex c @ CHR ''}'' # t) = CHR ''}'' # t"
    using show_hex_chars [of _ c] by (simp_all add: takeWhile_append2 dropWhile_append2)
  have plain: "read_char (u @ t) = Some (c, t)" if "c \<noteq> 92"
  proof -
    obtain a r where a: "u = a # r" using u by (cases u) auto
    have "of_char a \<noteq> (92 :: nat)" using u that by (auto simp: a)
    then have "a \<noteq> CHR 0x5C" by auto
    with head show ?thesis by (simp add: read_char_def a)
  qed
  have bs: "u = [CHR 0x5C]" if "c = 92" using u that by (auto intro: of_char_inj)
  have dq: "u = [CHR 0x22]" if "c = 34" using u that by (auto intro: of_char_inj)
  show ?thesis
    using esc plain bs dq by (auto simp: escape_debug_def read_char_def read_escape_def)
qed

lemma escape_debug_chars:
  assumes "(\<exists>a. u = [a] \<and> c = of_char a \<and> c < 128) \<or> 128 \<le> c \<and> (\<forall>x \<in> set u. 128 \<le> (of_char x :: nat)) \<and> u \<noteq> []"
  shows "escape_debug shown (c, u) \<noteq> []"
    "x \<in> set (escape_debug shown (c, u)) \<Longrightarrow> 32 \<le> (of_char x :: nat) \<and> (of_char x :: nat) \<noteq> 127"
  using assms show_hex_chars [of x c] by (auto simp: escape_debug_def split: if_splits)

lemma read_chars_quote:
  assumes "wf_str s" "length (concat (map (escape_debug shown) (utf8_chars s))) < fuel"
  shows "read_chars fuel (concat (map (escape_debug shown) (utf8_chars s)) @ [CHR 0x22]) = Some (map fst (utf8_chars s))"
  using assms
proof (induction s arbitrary: fuel rule: wf_str_induct)
  case Nil
  then show ?case by (cases fuel) simp_all
next
  case (Char c u r)
  obtain n where n: "fuel = Suc n" using Char.prems by (cases fuel) auto
  have ne: "escape_debug shown (c, u) \<noteq> []" using Char.hyps(4) by (rule escape_debug_chars)
  have "read_chars n (concat (map (escape_debug shown) (utf8_chars r)) @ [CHR 0x22]) = Some (map fst (utf8_chars r))"
    using Char.prems ne [folded length_greater_0_conv] n Char.hyps(2) by (intro Char.IH) (simp del: length_greater_0_conv)
  then show ?case
    using ne Char.hyps(2) by (simp add: n read_escape_debug [OF Char.hyps(4,3)] append_eq_Cons_conv)
qed

text \<open>Text without ASCII control characters, in particular without line breaks.\<close>

definition printable :: "string \<Rightarrow> bool" where
  "printable s \<longleftrightarrow> list_all (\<lambda>x. 32 \<le> (of_char x :: nat) \<and> (of_char x :: nat) \<noteq> 127) s"

lemma printable_append [simp]: "printable (s @ t) \<longleftrightarrow> printable s \<and> printable t"
  by (simp add: printable_def)

lemma printable_Cons [simp]: "printable (x # s) \<longleftrightarrow> 32 \<le> (of_char x :: nat) \<and> (of_char x :: nat) \<noteq> 127 \<and> printable s"
  by (auto simp: printable_def)

lemma printable_Nil [simp]: "printable []"
  by (simp add: printable_def)

lemma printable_concat [simp]: "printable (concat ss) \<longleftrightarrow> list_all printable ss"
  by (induction ss) simp_all

lemma printable_quote [simp]: "wf_str s \<Longrightarrow> printable (quote shown s)"
proof (induction s rule: wf_str_induct)
  case Nil
  then show ?case by (simp add: quote_def)
next
  case (Char c u r)
  then show ?case using escape_debug_chars(2) [OF Char.hyps(4), of _ shown]
    by (auto simp: quote_def printable_def list_all_iff)
qed



section \<open>Doubles\<close>

lemma dec_num_times: "dec_num c p q = c * dec_num 1 p q"
  by (simp add: dec_num_def)

lemma dec_num_pos: "0 < dec_num 1 p q"
  by (simp add: dec_num_def)

text \<open>At a unit that divides the double, the search stops with the double itself.\<close>

lemma rounds_to_exact:
  assumes "0 < m" "dec_num c p (e - 2) = bin_num (4 * m) p (e - 2)"
  shows "rounds_to (m, e) c p"
proof -
  have "0 < 10 ^ nat (- p) * (2 :: nat) ^ nat (e - 2)" by simp
  then show ?thesis using assms
    by (auto simp: rounds_to_def Let_def bin_num_def mult.assoc simp del: nat_0_less_mult_iff)
qed

lemma exact_unit:
  assumes "p \<le> 0" "p \<le> e - 2"
  shows "dec_num (bin_num (4 * m) p (e - 2) div dec_num 1 p (e - 2)) p (e - 2) = bin_num (4 * m) p (e - 2)"
proof -
  have "(2 :: nat) ^ nat (- (e - 2)) dvd 2 ^ nat (- p)" using assms by (intro le_imp_power_dvd) simp
  also have "(2 :: nat) ^ nat (- p) dvd 10 ^ nat (- p)" by (intro dvd_power_same) simp
  finally have "dec_num 1 p (e - 2) dvd bin_num (4 * m) p (e - 2)"
    using assms(1) by (auto simp: dec_num_def bin_num_def)
  then show ?thesis unfolding dec_num_times [of "_ div _"] by simp
qed

lemma rounds_to_below:
  assumes "0 < m" "rounds_to (m, e) c' p" "c' \<le> c" "dec_num c p (e - 2) \<le> bin_num (4 * m) p (e - 2)"
  shows "rounds_to (m, e) c p"
proof -
  have "dec_num c' p (e - 2) \<le> dec_num c p (e - 2)" using assms(3) by (simp add: dec_num_def)
  moreover have "bin_num (4 * m) p (e - 2) < bin_num (4 * m + 2) p (e - 2)" by (simp add: bin_num_def)
  ultimately show ?thesis using assms(2,4) by (auto simp: rounds_to_def Let_def split: if_splits)
qed

lemma rounds_to_above:
  assumes "0 < m" "rounds_to (m, e) c' p" "c \<le> c'" "bin_num (4 * m) p (e - 2) \<le> dec_num c p (e - 2)"
  shows "rounds_to (m, e) c p"
proof -
  have "dec_num c p (e - 2) \<le> dec_num c' p (e - 2)" using assms(3) by (simp add: dec_num_def)
  moreover have "bin_num (4 * m - k) p (e - 2) < bin_num (4 * m) p (e - 2)" if "0 < k" for k
    using that assms(1) by (simp add: bin_num_def)
  note this [of 1] this [of 2]
  ultimately show ?thesis using assms(2,4) by (auto simp: rounds_to_def Let_def split: if_splits)
qed

lemma no_multiple_rounds:
  assumes "0 < m" and lo: "lo = bin_num (4 * m) p (e - 2) div dec_num 1 p (e - 2)"
    and "\<not> rounds_to (m, e) lo p" "\<not> rounds_to (m, e) (lo + 1) p"
  shows "\<not> rounds_to (m, e) c p"
proof
  assume r: "rounds_to (m, e) c p"
  let ?v = "bin_num (4 * m) p (e - 2)" and ?u = "dec_num 1 p (e - 2)"
  have "lo * ?u \<le> ?v" "?v \<le> (lo + 1) * ?u"
    using dividend_less_times_div [OF dec_num_pos, of ?v p "e - 2"] by (simp_all add: lo mult.commute)
  then have "dec_num lo p (e - 2) \<le> ?v" "?v \<le> dec_num (lo + 1) p (e - 2)" by (simp_all only: dec_num_times [symmetric])
  then have "rounds_to (m, e) lo p \<or> rounds_to (m, e) (lo + 1) p"
    using rounds_to_below [OF assms(1) r] rounds_to_above [OF assms(1) r] by (cases "c \<le> lo") auto
  with assms(3,4) show False by simp
qed

lemma shortest_from_correct:
  assumes "0 < m" "0 < fuel" "p - int fuel < 0" "p - int fuel < e - 2"
  shows "\<exists>c q. shortest_from (m, e) fuel p = (c, q) \<and>
    rounds_to (m, e) c q \<and> q \<le> p \<and> (\<forall>c' p'. q < p' \<and> p' \<le> p \<longrightarrow> \<not> rounds_to (m, e) c' p')"
  using assms(2-)
proof (induction fuel arbitrary: p)
  case 0
  then show ?case by simp
next
  case (Suc fuel)
  let ?v = "bin_num (4 * m) p (e - 2)" and ?u = "dec_num 1 p (e - 2)"
  let ?lo = "?v div ?u"
  show ?case
  proof (cases "rounds_to (m, e) ?lo p \<or> rounds_to (m, e) (?lo + 1) p")
    case True
    then show ?thesis by (auto simp: Let_def split: bool.splits)
  next
    case False
    then have none: "\<not> rounds_to (m, e) c p" for c using no_multiple_rounds [OF assms(1) refl] by blast
    then have "\<not> (p \<le> 0 \<and> p \<le> e - 2)" using rounds_to_exact [OF assms(1) exact_unit] by blast
    then obtain c q where "shortest_from (m, e) fuel (p - 1) = (c, q)" "rounds_to (m, e) c q" "q \<le> p - 1"
        and "\<forall>c' p'. q < p' \<and> p' \<le> p - 1 \<longrightarrow> \<not> rounds_to (m, e) c' p'"
      using Suc.IH [of "p - 1"] Suc.prems by (cases "fuel = 0") auto
    then show ?thesis using False none by (auto simp: Let_def) (metis zle_diff1_eq order_le_less)
  qed
qed

lemma show_nat_no_dot: "CHR ''.'' \<notin> set (show_nat c)"
  using show_nat_digits [of "CHR ''.''" c] by auto

lemma show_decimal_dot: "CHR ''.'' \<in> set (show_decimal c p) \<longleftrightarrow> p < 0"
  using show_nat_no_dot [of c] by (auto simp: show_decimal_def Let_def)

lemma f64_decode_exponent: "snd (f64_decode w) \<ge> - 1074"
  by (simp add: f64_decode_def Let_def)



section \<open>Every text is printable\<close>

lemma printable_show_nat [simp]: "printable (show_nat n)"
  unfolding printable_def list_all_iff using show_nat_digits by fastforce

lemma printable_replicate [simp]: "printable [x] \<Longrightarrow> printable (replicate n x)"
  by (simp add: printable_def list_all_iff)

lemma printable_sub [simp]: "printable s \<Longrightarrow> printable (take n s)" "printable s \<Longrightarrow> printable (drop n s)"
  by (auto simp: printable_def list_all_iff dest: in_set_takeD in_set_dropD)

lemma printable_show_int [simp]: "printable (show_int n)" "printable (show_padded k n)"
  by (simp_all add: show_int_def show_padded_def pad_zeros_def)

lemma printable_format_f64 [simp]: "printable (format_f64 w)"
proof -
  have "printable (show_decimal c p)" for c p by (simp add: show_decimal_def Let_def)
  then show ?thesis by (auto simp: format_f64_def f64_display_def Let_def split: prod.split)
qed

lemma printable_hex [simp]: "printable (hex bs)"
proof -
  have "printable [HEX_DIGITS ! i]" if "i < 16" for i using hex_digit_index [OF that] by simp
  moreover have "unat b div 16 < 16" for b :: u8 using unat_byte_less [of b] by simp
  ultimately show ?thesis by (simp add: hex_def list_all_iff)
qed

lemma ALPHABET_printable_all: "list_all (\<lambda>c. 32 \<le> (of_char c :: nat) \<and> (of_char c :: nat) \<noteq> 127) ALPHABET"
  by simp

lemma printable_base64 [simp]: "printable (base64 data)"
proof -
  have "printable [ALPHABET ! unat (w AND 63)]" for w :: u32
    using ALPHABET_printable_all and_63_less [of w] unfolding list_all_length by simp
  then have "printable (base64_chunk chunk)" for chunk
    unfolding base64_chunk_def Let_def by simp
  then show ?thesis by (simp add: base64_def list_all_iff)
qed

lemma format_datetime_printable: "\<exists>t. format_datetime ms = Ok t \<and> printable t"
proof -
  obtain y m d where "civil_from_days (sint ms div 1000 div 86400) = Ok (y, m, d)"
    using civil_from_days_total [OF days_of_ms_range] by (metis prod.collapse)
  then show ?thesis by (simp add: format_datetime_def Let_def)
qed

end
