(* ===== verification/Bson_Log.thy ===== *)
theory Bson_Log
  imports Log_Text
begin

text \<open>
  Log rendering of documents and arrays (\<open>log_document\<close> and its writers in \<open>wirebson/src/encode.rs\<close>)
  and the \<open>Display\<close> implementations that use it (\<open>document.rs\<close>, \<open>array.rs\<close>, \<open>raw.rs\<close>, with the texts
  of \<open>error.rs\<close>).  Rendering is total, compact text stays on one line, and the depth guard cuts
  exactly below the levels the decoder admits.
\<close>

section \<open>Model\<close>

fun comma_join :: "string list \<Rightarrow> string" where
  "comma_join [] = []"
| "comma_join [p] = p"
| "comma_join (p # ps) = p @ '', '' @ comma_join ps"

definition push_indent :: "int \<Rightarrow> string" where
  "push_indent level = concat (replicate (nat level) ''  '')"

definition subtype_name :: "binary_subtype \<Rightarrow> string" where
  "subtype_name s = (case s of
     Generic \<Rightarrow> ''generic''
   | Function \<Rightarrow> ''function''
   | BinaryOld \<Rightarrow> ''binary-old''
   | UuidOld \<Rightarrow> ''uuid-old''
   | Uuid \<Rightarrow> ''uuid''
   | Md5 \<Rightarrow> ''md5''
   | Encrypted \<Rightarrow> ''encrypted''
   | UserDefined _ \<Rightarrow> ''user'')"

text \<open>
  The writers append to a \<open>String\<close>; here they return what they append.  The indentation level is \<open>-1\<close>
  for compact output, and \<open>shown\<close> is the parameter of \<open>quote\<close>.
\<close>

lemma bson_size_field: "(n, v) \<in> set fs \<Longrightarrow> bson_size v < bson_size (B_Document fs)"
  using member_le_sum_list [of "bson_size v + 1" "map (\<lambda>f. bson_size (snd f) + 1) fs"] by force

lemma bson_size_elem: "v \<in> set vs \<Longrightarrow> bson_size v < bson_size (B_Array vs)"
  using member_le_sum_list [of "bson_size v + 1" "map (\<lambda>v. bson_size v + 1) vs"] by force

function write_document :: "(nat \<Rightarrow> bool) \<Rightarrow> document \<Rightarrow> int \<Rightarrow> nat \<Rightarrow> (bson_error, string) result"
  and write_array :: "(nat \<Rightarrow> bool) \<Rightarrow> array \<Rightarrow> int \<Rightarrow> nat \<Rightarrow> (bson_error, string) result"
  and write_value :: "(nat \<Rightarrow> bool) \<Rightarrow> bson \<Rightarrow> int \<Rightarrow> nat \<Rightarrow> (bson_error, string) result" where
  "write_document shown fs indent depth =
     (if fs = [] then Ok ''{}''
      else if MAX_NESTING_DEPTH < depth then Ok ''{...}''
      else if indent < 0 then
        map_ok (\<lambda>ps. ''{'' @ comma_join ps @ ''}'')
          (traverse (\<lambda>f. map_ok (\<lambda>t. quote shown (fst f) @ '': '' @ t) (write_value shown (snd f) indent (depth + 1))) fs)
      else
        map_ok (\<lambda>ps. ''{'' @ [CHR 0x0A] @ concat ps @ push_indent indent @ ''}'')
          (traverse (\<lambda>f. map_ok (\<lambda>t. push_indent (indent + 1) @ quote shown (fst f) @ '': '' @ t @ '','' @ [CHR 0x0A])
            (write_value shown (snd f) (indent + 1) (depth + 1))) fs))"
| "write_array shown vs indent depth =
     (if vs = [] then Ok ''[]''
      else if MAX_NESTING_DEPTH < depth then Ok ''[...]''
      else if indent < 0 then
        map_ok (\<lambda>ps. ''['' @ comma_join ps @ '']'') (traverse (\<lambda>v. write_value shown v indent (depth + 1)) vs)
      else
        map_ok (\<lambda>ps. ''['' @ [CHR 0x0A] @ concat ps @ push_indent indent @ '']'')
          (traverse (\<lambda>v. map_ok (\<lambda>t. push_indent (indent + 1) @ t @ '','' @ [CHR 0x0A])
            (write_value shown v (indent + 1) (depth + 1))) vs))"
| "write_value shown v indent depth = (case v of
     B_Double d \<Rightarrow> Ok (if f64_is_nan d then ''NaN''
       else if f64_is_infinite d then if bit d 63 then ''-Inf'' else ''+Inf''
       else format_f64 d)
   | B_String s \<Rightarrow> Ok (quote shown s)
   | B_Document fs \<Rightarrow> write_document shown fs indent depth
   | B_Array vs \<Rightarrow> write_array shown vs indent depth
   | B_Binary b \<Rightarrow> Ok (''Binary('' @ subtype_name (bin_subtype b) @ '':'' @ base64 (bin_bytes b) @ '')'')
   | B_Undefined \<Rightarrow> Ok ''undefined''
   | B_ObjectId oid \<Rightarrow> Ok (''ObjectId('' @ [CHR 0x27] @ hex oid @ [CHR 0x27] @ '')'')
   | B_Bool b \<Rightarrow> Ok (if b then ''true'' else ''false'')
   | B_DateTime ms \<Rightarrow> format_datetime ms
   | B_Null \<Rightarrow> Ok ''null''
   | B_Regex r \<Rightarrow> Ok (''/'' @ re_pattern r @ ''/'' @ re_options r)
   | B_DbPointer p \<Rightarrow> Ok (''DbPointer('' @ quote shown (dbp_namespace p) @ '', ObjectId('' @ [CHR 0x27] @ hex (dbp_id p) @ [CHR 0x27] @ ''))'')
   | B_JavaScript code \<Rightarrow> Ok (''JavaScript('' @ quote shown code @ '')'')
   | B_Symbol s \<Rightarrow> Ok (''Symbol('' @ quote shown s @ '')'')
   | B_JavaScriptScope code scope \<Rightarrow>
       Ok (''JavaScriptScope({code: '' @ quote shown code @ '', scope: RawDocument<'' @ show_nat (length scope) @ ''>})'')
   | B_Int32 n \<Rightarrow> Ok (show_int (sint n))
   | B_Timestamp t \<Rightarrow>
       Ok (''Timestamp({s: '' @ show_nat (unat (ts_seconds t)) @ '', i: '' @ show_nat (unat (ts_increment t)) @ ''})'')
   | B_Int64 n \<Rightarrow> Ok (''int64('' @ show_int (sint n) @ '')'')
   | B_Decimal128 d \<Rightarrow>
       (let l = from_le64 (take 8 d); h = from_le64 (drop 8 d) in
        Ok (''Decimal128(H:'' @ show_nat (unat h) @ '',L:'' @ show_nat (unat l) @ '')''))
   | B_MinKey \<Rightarrow> Ok ''MinKey''
   | B_MaxKey \<Rightarrow> Ok ''MaxKey'')"
  by pat_completeness auto
termination
  by (relation "measure (\<lambda>x. case x of
        Inl (_, fs, _) \<Rightarrow> 2 * bson_size (B_Document fs)
      | Inr (Inl (_, vs, _)) \<Rightarrow> 2 * bson_size (B_Array vs)
      | Inr (Inr (_, v, _)) \<Rightarrow> 2 * bson_size v + 1)")
    (auto dest: bson_size_field bson_size_elem simp del: bson_size.simps)

declare write_document.simps [simp del] write_array.simps [simp del] write_value.simps [simp del]

definition log_document :: "(nat \<Rightarrow> bool) \<Rightarrow> document \<Rightarrow> bool \<Rightarrow> (bson_error, string) result" where
  "log_document shown doc indent = write_document shown doc (if indent then 0 else - 1) 1"

definition log_array :: "(nat \<Rightarrow> bool) \<Rightarrow> array \<Rightarrow> bool \<Rightarrow> (bson_error, string) result" where
  "log_array shown arr indent = write_array shown arr (if indent then 0 else - 1) 1"

subsection \<open>Display\<close>

text \<open>The \<open>thiserror\<close> texts of \<open>ScalarError\<close> and of the crate's \<open>Error\<close>; \<open>{tag:#04x}\<close>.\<close>

definition scalar_error_text :: "scalar_error \<Rightarrow> string" where
  "scalar_error_text e = (case e of
     SE_ShortInput needed got \<Rightarrow> ''unexpected end of input: needed '' @ show_nat needed @ '' byte(s), got '' @ show_nat got
   | SE_Invalid tag reason \<Rightarrow> ''invalid input for tag 0x'' @ hex [tag] @ '': '' @ reason
   | SE_Utf8 \<Rightarrow> ''invalid utf-8''
   | SE_OutOfRange \<Rightarrow> ''value out of range for the requested type''
   | SE_NotConvertible \<Rightarrow> ''cannot convert this scalar kind to the requested type'')"

definition bson_error_text :: "bson_error \<Rightarrow> string" where
  "bson_error_text e = (case e of
     BE_ShortInput needed got \<Rightarrow> ''unexpected end of input: needed '' @ show_nat needed @ '' byte(s), got '' @ show_nat got
   | BE_InvalidInput offset reason \<Rightarrow> ''invalid input at offset '' @ show_nat offset @ '': '' @ reason
   | BE_LengthMismatch declared actual \<Rightarrow> ''length mismatch: declared '' @ show_nat declared @ '', actual '' @ show_nat actual
   | BE_Utf8 \<Rightarrow> ''invalid utf-8''
   | BE_NestedTooDeep max_depth \<Rightarrow> ''nesting too deep (max '' @ show_nat max_depth @ '')''
   | BE_Scalar e \<Rightarrow> scalar_error_text e)"

text \<open>\<open>Display\<close> of \<open>Document\<close>, \<open>Array\<close> and \<open>RawDocument\<close> (\<open>alternate\<close> is the \<open>#\<close> flag of the formatter).\<close>

definition document_display :: "(nat \<Rightarrow> bool) \<Rightarrow> document \<Rightarrow> (bson_error, string) result" where
  "document_display shown doc = log_document shown doc False"

definition array_display :: "(nat \<Rightarrow> bool) \<Rightarrow> array \<Rightarrow> (bson_error, string) result" where
  "array_display shown arr = log_array shown arr False"

definition raw_document_display :: "(nat \<Rightarrow> bool) \<Rightarrow> raw_document \<Rightarrow> bool \<Rightarrow> (bson_error, string) result" where
  "raw_document_display shown raw alternate = (case shallow raw of
     Ok doc \<Rightarrow> log_document shown doc alternate
   | Err e \<Rightarrow> Ok (''<invalid document: '' @ bson_error_text e @ ''>'')
   | Panic \<Rightarrow> Panic)"

section \<open>The text stays on its line\<close>

fun log_ok :: "bson \<Rightarrow> bool" where
  "log_ok (B_String s) \<longleftrightarrow> wf_str s"
| "log_ok (B_Document fs) \<longleftrightarrow> list_all (\<lambda>f. wf_str (fst f) \<and> log_ok (snd f)) fs"
| "log_ok (B_Array vs) \<longleftrightarrow> list_all log_ok vs"
| "log_ok (B_Regex r) \<longleftrightarrow> printable (re_pattern r) \<and> printable (re_options r)"
| "log_ok (B_DbPointer p) \<longleftrightarrow> wf_str (dbp_namespace p)"
| "log_ok (B_JavaScript s) \<longleftrightarrow> wf_str s"
| "log_ok (B_Symbol s) \<longleftrightarrow> wf_str s"
| "log_ok (B_JavaScriptScope c s) \<longleftrightarrow> wf_str c"
| "log_ok _ \<longleftrightarrow> True"

lemma printable_comma_join [simp]: "printable (comma_join ps) \<longleftrightarrow> list_all printable ps"
  by (induction ps rule: comma_join.induct) simp_all

lemma printable_subtype_name [simp]: "printable (subtype_name s)"
  by (simp add: subtype_name_def split: binary_subtype.split)

lemma traverse_printable:
  assumes "\<And>x. x \<in> set xs \<Longrightarrow> \<exists>t. f x = Ok t \<and> P t"
  shows "\<exists>ts. traverse f xs = Ok ts \<and> list_all P ts"
  using assms by (induction xs) fastforce+

lemma write_compact_printable:
  "list_all (\<lambda>f. wf_str (fst f) \<and> log_ok (snd f)) fs \<Longrightarrow> i = - 1 \<Longrightarrow> \<exists>t. write_document shown fs i depth = Ok t \<and> printable t"
  "list_all log_ok vs \<Longrightarrow> i = - 1 \<Longrightarrow> \<exists>t. write_array shown vs i depth = Ok t \<and> printable t"
  "log_ok v \<Longrightarrow> i = - 1 \<Longrightarrow> \<exists>t. write_value shown v i depth = Ok t \<and> printable t"
proof (induction shown fs i depth and shown vs i depth and shown v i depth rule: write_document_write_array_write_value.induct)
  case (1 shown fs indent depth)
  let ?f = "\<lambda>f. map_ok (\<lambda>t. quote shown (fst f) @ '': '' @ t) (write_value shown (snd f) indent (depth + 1))"
  have "\<exists>t. ?f x = Ok t \<and> printable t" if "fs \<noteq> []" "\<not> MAX_NESTING_DEPTH < depth" "x \<in> set fs" for x
    using that 1 by (fastforce simp: list_all_iff)
  then have "fs \<noteq> [] \<and> \<not> MAX_NESTING_DEPTH < depth \<longrightarrow> (\<exists>ts. traverse ?f fs = Ok ts \<and> list_all printable ts)"
    by (intro impI traverse_printable) auto
  with 1 show ?case by (auto simp: write_document.simps [of shown fs])
next
  case (2 shown vs indent depth)
  let ?f = "\<lambda>v. write_value shown v indent (depth + 1)"
  have "\<exists>t. ?f x = Ok t \<and> printable t" if "vs \<noteq> []" "\<not> MAX_NESTING_DEPTH < depth" "x \<in> set vs" for x
    using that 2 by (fastforce simp: list_all_iff)
  then have "vs \<noteq> [] \<and> \<not> MAX_NESTING_DEPTH < depth \<longrightarrow> (\<exists>ts. traverse ?f vs = Ok ts \<and> list_all printable ts)"
    by (intro impI traverse_printable) auto
  with 2 show ?case by (auto simp: write_array.simps [of shown vs])
next
  case (3 shown v indent depth)
  then show ?case
    using format_datetime_printable
    by (cases v) (simp_all add: write_value.simps Let_def)
qed

lemma traverse_total: "(\<And>x. x \<in> set xs \<Longrightarrow> \<exists>t. f x = Ok t) \<Longrightarrow> \<exists>ts. traverse f xs = Ok ts"
  using traverse_printable [of xs f "\<lambda>_. True"] by auto

lemma map_ok_total: "(\<exists>t. map_ok g m = Ok t) \<longleftrightarrow> (\<exists>t. m = Ok t)"
  by (cases m) auto

lemma write_total:
  "\<exists>t. write_document shown fs i depth = Ok t"
  "\<exists>t. write_array shown vs i depth = Ok t"
  "\<exists>t. write_value shown v i depth = Ok t"
proof (induction shown fs i depth and shown vs i depth and shown v i depth rule: write_document_write_array_write_value.induct)
  case (1 shown fs indent depth)
  then show ?case
    by (cases "indent < 0") (auto simp: write_document.simps [of shown fs] map_ok_total intro!: traverse_total)
next
  case (2 shown vs indent depth)
  then show ?case
    by (cases "indent < 0") (auto simp: write_array.simps [of shown vs] map_ok_total intro!: traverse_total)
next
  case (3 shown v indent depth)
  then show ?case
    using format_datetime_printable by (cases v) (auto simp: write_value.simps Let_def intro: exI)
qed

text \<open>
  (C27) Rendering is total and compact output is one line: for every document and either mode the log
  text exists (no step panics), and the compact text of a document whose regular expressions
  hold no control characters has no control character itself, whatever its strings and names hold.
\<close>

theorem log_document_one_line:
  "(\<exists>t. log_document shown doc indent = Ok t)
   \<and> (log_ok (B_Document doc) \<longrightarrow> (\<exists>t. log_document shown doc False = Ok t \<and> printable t))"
  using write_total(1) write_compact_printable(1) by (simp add: log_document_def)

theorem log_document_one_line_witness:
  "\<exists>t. log_document (\<lambda>_. True) [([CHR ''a'', CHR 0x0A], B_Array [B_String [CHR 0x0A], B_DateTime 5])] False = Ok t \<and> printable t"
proof -
  have "log_ok (B_Document [([CHR ''a'', CHR 0x0A], B_Array [B_String [CHR 0x0A], B_DateTime 5])])"
    by (simp add: eval_simps)
  with log_document_one_line show ?thesis by blast
qed

lemma regex_breaks_line:
  "\<exists>t. log_document shown [(''r'', B_Regex \<lparr>re_pattern = [CHR ''a'', CHR 0x0A], re_options = []\<rparr>)] False = Ok t
     \<and> CHR 0x0A \<in> set t"
  by (simp add: log_document_def write_document.simps write_value.simps)

section \<open>Depth\<close>

text \<open>A value cut below the last level that is printed.\<close>

fun prune :: "nat \<Rightarrow> bson \<Rightarrow> bson" where
  "prune depth (B_Document fs) =
     B_Document (if MAX_NESTING_DEPTH < depth then take 1 (map (\<lambda>f. ([], B_Null)) fs)
       else map (\<lambda>f. (fst f, prune (depth + 1) (snd f))) fs)"
| "prune depth (B_Array vs) =
     B_Array (if MAX_NESTING_DEPTH < depth then take 1 (map (\<lambda>_. B_Null) vs) else map (prune (depth + 1)) vs)"
| "prune depth v = v"

lemma write_prune:
  "case prune depth (B_Document fs) of B_Document gs \<Rightarrow> write_document shown gs i depth = write_document shown fs i depth"
  "case prune depth (B_Array vs) of B_Array ws \<Rightarrow> write_array shown ws i depth = write_array shown vs i depth"
  "write_value shown (prune depth v) i depth = write_value shown v i depth"
proof (induction shown fs i depth and shown vs i depth and shown v i depth rule: write_document_write_array_write_value.induct)
  case (1 shown fs indent depth)
  then show ?case
    by (auto simp: write_document.simps traverse_map intro!: arg_cong [of _ _ "map_ok _"] traverse_cong)
next
  case (2 shown vs indent depth)
  then show ?case
    by (auto simp: write_array.simps traverse_map intro!: arg_cong [of _ _ "map_ok _"] traverse_cong)
next
  case (3 shown v indent depth)
  then show ?case
    by (cases v) (auto simp: write_value.simps)
qed

lemma prune_shallow: "depth + nesting v \<le> Suc MAX_NESTING_DEPTH \<Longrightarrow> prune depth v = v"
proof (induction v arbitrary: depth rule: bson_induct)
  case (Document fs)
  have "depth + 1 + nesting (snd f) \<le> Suc MAX_NESTING_DEPTH" if "f \<in> set fs" for f
    using Document.prems that foldr_max_le [of "\<lambda>f. nesting (snd f)" fs "20 - depth"] by fastforce
  then show ?case using Document by (auto intro!: map_idI)
next
  case (Array vs)
  have "depth + 1 + nesting v \<le> Suc MAX_NESTING_DEPTH" if "v \<in> set vs" for v
    using Array.prems that foldr_max_le [of nesting vs "20 - depth"] by fastforce
  then show ?case using Array by (auto intro!: map_idI)
next
  case (Scalar s)
  then show ?case by (cases s) simp_all
qed simp

text \<open>
  Nesting in the log: the text depends only on the first 20 levels of a document, so deeper input
  cannot make it deeper; a document that was decoded from the wire has no deeper level and is
  printed in full.
\<close>

theorem log_document_depth:
  "(prune 1 (B_Document a) = prune 1 (B_Document b) \<longrightarrow> log_document shown a indent = log_document shown b indent)
   \<and> (deep raw = Ok doc \<longrightarrow> prune 1 (B_Document doc) = B_Document doc)"
proof (intro conjI impI)
  assume "prune 1 (B_Document a) = prune 1 (B_Document b)"
  then show "log_document shown a indent = log_document shown b indent"
    using write_prune(1) [where depth = 1 and fs = a and shown = shown and i = "if indent then 0 else - 1"]
      write_prune(1) [where depth = 1 and fs = b and shown = shown and i = "if indent then 0 else - 1"]
    by (simp add: log_document_def)
next
  assume "deep raw = Ok doc"
  then have "1 + nesting (B_Document doc) \<le> Suc MAX_NESTING_DEPTH" using decoded_wf(1) [of raw Deep 1 doc] by (simp add: deep_def)
  then show "prune 1 (B_Document doc) = B_Document doc" by (rule prune_shallow)
qed

theorem log_document_depth_witness:
  "log_document (\<lambda>_. True) [(''a'', ((\<lambda>v. B_Array [v]) ^^ 25) B_Null)] False
     = log_document (\<lambda>_. True) [(''a'', ((\<lambda>v. B_Array [v]) ^^ 30) B_MaxKey)] False
   \<and> prune 1 (B_Document [(''a'', B_Null)]) = B_Document [(''a'', B_Null)]"
proof -
  have "prune 1 (B_Document [(''a'', ((\<lambda>v. B_Array [v]) ^^ 25) B_Null)])
      = prune 1 (B_Document [(''a'', ((\<lambda>v. B_Array [v]) ^^ 30) B_MaxKey)])"
    by code_simp
  moreover have "deep (doc_bytes [(''a'', B_Null)]) = Ok [(''a'', B_Null)]"
    using deep_doc_bytes [of "[(''a'', B_Null)]"] by (simp add: frame_def eval_simps as_scalar_def)
  ultimately show ?thesis using log_document_depth by blast
qed

text \<open>
  Printing a raw document always succeeds, on any bytes: a valid one prints as the document it
  decodes to, an invalid one as the text of its error.
\<close>

theorem raw_document_display_outcome:
  "raw_document_display shown raw alternate =
     (case deep raw of
        Ok doc \<Rightarrow> log_document shown doc alternate
      | Err e \<Rightarrow> Ok (''<invalid document: '' @ bson_error_text e @ ''>''))
   \<and> (\<exists>t. raw_document_display shown raw alternate = Ok t)"
proof -
  have "shallow raw = deep raw" unfolding shallow_def deep_def by (metis decode_mode(1))
  moreover have "deep raw \<noteq> Panic" unfolding deep_def by (simp only: decode_panic not_False_eq_True)
  ultimately show ?thesis using write_total(1)
    by (cases "deep raw") (simp_all add: raw_document_display_def log_document_def)
qed

end
