(* ===== verification/Bson_From.thy ===== *)
theory Bson_From
  imports Bson_Log Bson_Convert
begin

text \<open>
  The other typed conversions of \<open>mongo_common/src/bson/convert.rs\<close> and \<open>wirebson/src/convert.rs\<close>: the
  lossless \<open>From\<close> implementations, doubles, UUIDs, decimals and JSON.  The crates \<open>uuid\<close>, \<open>dec\<close> and
  \<open>serde_json\<close> are parameters; what they document is stated as \<open>uuid_ok\<close>, \<open>decimal_ok\<close> and
  \<open>map_laws\<close>, each with an instance.
\<close>

unbundle bit_operations_syntax

section \<open>Lossless conversions\<close>

text \<open>The native types with a \<open>From\<close> implementation; \<open>&str\<close> and \<open>String\<close> give the same value.\<close>

datatype native =
    N_i8 "8 word"
  | N_i16 "16 word"
  | N_u8 "8 word"
  | N_u16 "16 word"
  | N_i32 i32
  | N_i64 i64
  | N_f64 f64
  | N_bool bool
  | N_string string
  | N_object_id object_id
  | N_binary binary
  | N_regex regex
  | N_timestamp timestamp

text \<open>\<open>i32::from\<close> extends the sign of \<open>i8\<close> and \<open>i16\<close>; \<open>u8\<close> and \<open>u16\<close> are extended with zeros.\<close>

fun scalar_from :: "native \<Rightarrow> scalar option" where
  "scalar_from (N_i8 v) = Some (S_Int32 (scast v))"
| "scalar_from (N_i16 v) = Some (S_Int32 (scast v))"
| "scalar_from (N_u8 v) = Some (S_Int32 (ucast v))"
| "scalar_from (N_u16 v) = Some (S_Int32 (ucast v))"
| "scalar_from (N_i32 v) = Some (S_Int32 v)"
| "scalar_from (N_i64 v) = Some (S_Int64 v)"
| "scalar_from (N_f64 v) = Some (S_Double v)"
| "scalar_from (N_bool v) = Some (S_Bool v)"
| "scalar_from (N_string v) = Some (S_String v)"
| "scalar_from (N_object_id v) = Some (S_ObjectId v)"
| "scalar_from (N_binary v) = Some (S_Binary v)"
| "scalar_from _ = None"

fun bson_from :: "native \<Rightarrow> bson" where
  "bson_from (N_i8 v) = B_Int32 (scast v)"
| "bson_from (N_i16 v) = B_Int32 (scast v)"
| "bson_from (N_u8 v) = B_Int32 (ucast v)"
| "bson_from (N_u16 v) = B_Int32 (ucast v)"
| "bson_from (N_i32 v) = B_Int32 v"
| "bson_from (N_i64 v) = B_Int64 v"
| "bson_from (N_f64 v) = B_Double v"
| "bson_from (N_bool v) = B_Bool v"
| "bson_from (N_string v) = B_String v"
| "bson_from (N_object_id v) = B_ObjectId v"
| "bson_from (N_binary v) = B_Binary v"
| "bson_from (N_regex v) = B_Regex v"
| "bson_from (N_timestamp v) = B_Timestamp v"

section \<open>Doubles\<close>

text \<open>
  \<open>i as f64\<close>: the nearest double, ties to even.  The magnitude has \<open>l\<close> bits; 53 of them are kept, and a
  carry out of the fraction raises the exponent field by one.
\<close>

fun bit_length :: "nat \<Rightarrow> nat" where
  "bit_length n = (if n = 0 then 0 else Suc (bit_length (n div 2)))"

declare bit_length.simps [simp del]

definition round_half_even :: "nat \<Rightarrow> nat \<Rightarrow> nat" where
  "round_half_even a s = (let q = a div 2 ^ s; r = a mod 2 ^ s in
     if 2 * r < 2 ^ s \<or> 2 * r = 2 ^ s \<and> even q then q else q + 1)"

definition f64_from_int :: "int \<Rightarrow> f64" where
  "f64_from_int n = (if n = 0 then 0 else
     let a = nat \<bar>n\<bar>; l = bit_length a;
         m = (if l \<le> 53 then a * 2 ^ (53 - l) else round_half_even a (l - 53));
         sign = (if n < 0 then 1 else 0) in
     word_of_nat (sign * 2 ^ 63 + (l + 1022) * 2 ^ 52 + (m - 2 ^ 52)))"

definition f64_try_from :: "scalar \<Rightarrow> (scalar_error, f64) result" where
  "f64_try_from v = (case v of
     S_Double f \<Rightarrow> Ok f
   | S_Int32 i \<Rightarrow> Ok (f64_from_int (sint i))
   | S_Int64 i \<Rightarrow> Ok (f64_from_int (sint i))
   | _ \<Rightarrow> Err SE_NotConvertible)"

text \<open>\<open>f as f32\<close> is the parameter \<open>as_f32\<close>: the payload of a converted NaN is not specified.\<close>

definition f32_try_from :: "(f64 \<Rightarrow> 32 word) \<Rightarrow> scalar \<Rightarrow> (scalar_error, 32 word) result" where
  "f32_try_from as_f32 v = map_ok as_f32 (f64_try_from v)"

text \<open>\<open>bson_try_numeric!\<close> for the types other than integers: through \<open>as_scalar\<close>.\<close>

definition bson_try_from :: "(scalar \<Rightarrow> (scalar_error, 'a) result) \<Rightarrow> bson \<Rightarrow> (bson_error, 'a) result" where
  "bson_try_from conv v = (case as_scalar v of
     Some s \<Rightarrow> map_err BE_Scalar (conv s)
   | None \<Rightarrow> Err (BE_Scalar SE_NotConvertible))"

section \<open>UUIDs and decimals\<close>

text \<open>\<open>uuid::Uuid::from_slice\<close>, \<open>Uuid::as_bytes\<close> and the byte forms of \<open>dec::Decimal128\<close> are parameters.\<close>

definition uuid_try_from :: "(bytes \<Rightarrow> 'u option) \<Rightarrow> scalar \<Rightarrow> (scalar_error, 'u) result" where
  "uuid_try_from from_slice v = (case v of
     S_Binary b \<Rightarrow>
       if bin_subtype b = Uuid \<and> length (bin_bytes b) = 16 then ok_or SE_OutOfRange (from_slice (bin_bytes b))
       else Err SE_NotConvertible
   | _ \<Rightarrow> Err SE_NotConvertible)"

definition scalar_of_uuid :: "('u \<Rightarrow> bytes) \<Rightarrow> 'u \<Rightarrow> scalar" where
  "scalar_of_uuid uuid_bytes v = S_Binary \<lparr>bin_subtype = Uuid, bin_bytes = uuid_bytes v\<rparr>"

definition decimal_try_from :: "(bytes \<Rightarrow> 'd) \<Rightarrow> scalar \<Rightarrow> (scalar_error, 'd) result" where
  "decimal_try_from from_le v = (case v of S_Decimal128 d \<Rightarrow> Ok (from_le d) | _ \<Rightarrow> Err SE_NotConvertible)"

definition scalar_of_decimal :: "('d \<Rightarrow> bytes) \<Rightarrow> 'd \<Rightarrow> scalar" where
  "scalar_of_decimal to_le v = S_Decimal128 (to_le v)"

section \<open>JSON\<close>

text \<open>The interface of \<open>serde_json\<close> the code uses: \<open>Value::from\<close> for each type, its variants, and \<open>Map\<close>.\<close>

record ('j, 'm) json_api =
  j_null :: 'j
  j_f64 :: "f64 \<Rightarrow> 'j"
  j_str :: "string \<Rightarrow> 'j"
  j_bool :: "bool \<Rightarrow> 'j"
  j_i32 :: "i32 \<Rightarrow> 'j"
  j_i64 :: "i64 \<Rightarrow> 'j"
  j_array :: "'j list \<Rightarrow> 'j"
  j_object :: "'m \<Rightarrow> 'j"
  j_map_new :: 'm
  j_map_insert :: "'m \<Rightarrow> string \<Rightarrow> 'j \<Rightarrow> 'm"

text \<open>\<open>format!("{d:?}")\<close> of the derived \<open>Debug\<close>.\<close>

definition decimal_debug :: "decimal128 \<Rightarrow> string" where
  "decimal_debug d = ''Decimal128(['' @ comma_join (map (\<lambda>b. show_nat (unat b)) d) @ ''])''"

definition json_binary :: "('j, 'm) json_api \<Rightarrow> binary \<Rightarrow> 'j" where
  "json_binary j b = j_object j (j_map_insert j (j_map_new j) ''$binary'' (j_str j (hex (bin_bytes b))))"

fun json_fields :: "('j, 'm) json_api \<Rightarrow> (string \<times> 'j) list \<Rightarrow> 'm \<Rightarrow> 'm" where
  "json_fields j [] m = m"
| "json_fields j ((k, v) # kvs) m = json_fields j kvs (j_map_insert j m k v)"

fun json_try_from :: "('j, 'm) json_api \<Rightarrow> bson \<Rightarrow> (bson_error, 'j) result" where
  "json_try_from j (B_Double f) = Ok (j_f64 j f)"
| "json_try_from j (B_String s) = Ok (j_str j s)"
| "json_try_from j (B_JavaScript s) = Ok (j_str j s)"
| "json_try_from j (B_Symbol s) = Ok (j_str j s)"
| "json_try_from j (B_Bool b) = Ok (j_bool j b)"
| "json_try_from j B_Null = Ok (j_null j)"
| "json_try_from j B_Undefined = Ok (j_null j)"
| "json_try_from j (B_Int32 i) = Ok (j_i32 j i)"
| "json_try_from j (B_Int64 i) = Ok (j_i64 j i)"
| "json_try_from j (B_DateTime ms) = Ok (j_i64 j ms)"
| "json_try_from j (B_ObjectId oid) = Ok (j_str j (to_hex oid))"
| "json_try_from j (B_Decimal128 d) = Ok (j_str j (decimal_debug d))"
| "json_try_from j (B_Document fs) =
     map_ok (\<lambda>kvs. j_object j (json_fields j kvs (j_map_new j)))
       (traverse (\<lambda>f. map_ok (Pair (fst f)) (json_try_from j (snd f))) fs)"
| "json_try_from j (B_Array vs) = map_ok (j_array j) (traverse (json_try_from j) vs)"
| "json_try_from j (B_Binary b) = Ok (json_binary j b)"
| "json_try_from j _ = Err (BE_InvalidInput 0 ''extended-json rendering not implemented for this type'')"

text \<open>\<open>From<&Document>\<close> and \<open>From<&Array>\<close> for \<open>Value\<close>: \<open>unwrap_or(Value::Null)\<close>.\<close>

definition unwrap_or :: "'a \<Rightarrow> ('e, 'a) result \<Rightarrow> ('f, 'a) result" where
  "unwrap_or d r = (case r of Ok x \<Rightarrow> Ok x | Err _ \<Rightarrow> Ok d | Panic \<Rightarrow> Panic)"

definition json_from_document :: "('j, 'm) json_api \<Rightarrow> document \<Rightarrow> (bson_error, 'j) result" where
  "json_from_document j doc = unwrap_or (j_null j) (json_try_from j (B_Document doc))"

definition json_from_array :: "('j, 'm) json_api \<Rightarrow> array \<Rightarrow> (bson_error, 'j) result" where
  "json_from_array j arr = unwrap_or (j_null j) (json_try_from j (B_Array arr))"

section \<open>Properties\<close>

fun native_int :: "native \<Rightarrow> (int_type \<times> int) option" where
  "native_int (N_i8 v) = Some (I8, sint v)"
| "native_int (N_i16 v) = Some (I16, sint v)"
| "native_int (N_u8 v) = Some (U8, uint v)"
| "native_int (N_u16 v) = Some (U16, uint v)"
| "native_int (N_i32 v) = Some (I32, sint v)"
| "native_int (N_i64 v) = Some (I64, sint v)"
| "native_int _ = None"

lemma sint_widen:
  "sint (scast (v :: 8 word) :: i32) = sint v" "sint (scast (w :: 16 word) :: i32) = sint w"
  "sint (ucast (v :: 8 word) :: i32) = uint v" "sint (ucast (w :: 16 word) :: i32) = uint w"
proof -
  show "sint (scast v :: i32) = sint v" "sint (scast w :: i32) = sint w"
    by (simp_all add: sint_up_scast is_up)
  have small: "signed_take_bit 31 k = k" if "0 \<le> k" "k < 65536" for k :: int
    using that by (intro signed_take_bit_int_eq_self) simp_all
  have "uint v < 65536" "uint w < 65536" using unsigned_less [of v, where ?'a = int] unsigned_less [of w, where ?'a = int] by simp_all
  then show "sint (ucast v :: i32) = uint v" "sint (ucast w :: i32) = uint w"
    using small [of "uint v"] small [of "uint w"] by (simp_all add: signed_ucast_eq)
qed

lemma int_try_from_Int32: "int_min t \<le> sint i \<Longrightarrow> sint i \<le> int_max t \<Longrightarrow> int_try_from t (S_Int32 i) = Ok (sint i)"
  by (simp add: int_try_from_def)

text \<open>
  Conversions into BSON are lossless: whatever native value a scalar was made from, converting the
  scalar back to that type gives the value again, and the eager value made from it holds the same scalar.
\<close>

theorem native_round_trip:
  assumes "scalar_from n = Some s"
  shows "as_scalar (bson_from n) = Some s
    \<and> (\<forall>t i. native_int n = Some (t, i) \<longrightarrow> int_try_from t s = Ok i)
    \<and> (\<forall>b. n = N_bool b \<longrightarrow> bool_try_from s = Ok b) \<and> (\<forall>x. n = N_string x \<longrightarrow> string_try_from s = Ok x)
    \<and> (\<forall>f. n = N_f64 f \<longrightarrow> f64_try_from s = Ok f)"
proof -
  have b: "- 128 \<le> sint v" "sint v \<le> 127" "uint v \<le> 255" for v :: "8 word"
    using sint_ge [of v] sint_lt [of v] unsigned_less [of v, where ?'a = int] by simp_all
  have w: "- 32768 \<le> sint w" "sint w \<le> 32767" "uint w \<le> 65535" for w :: "16 word"
    using sint_ge [of w] sint_lt [of w] unsigned_less [of w, where ?'a = int] by simp_all
  have i: "- 2147483648 \<le> sint i" "sint i \<le> 2147483647" for i :: i32 using sint32_bounds [of i] by simp_all
  have l: "- 9223372036854775808 \<le> sint l" "sint l \<le> 9223372036854775807" for l :: i64 using sint64_bounds [of l] by simp_all
  show ?thesis
    using assms b w i l
    by (cases n) (auto simp: as_scalar_def int_try_from_def bool_try_from_def string_try_from_def f64_try_from_def sint_widen)
qed

theorem native_round_trip_witness: "int_try_from I8 (S_Int32 (scast (- 5 :: 8 word))) = Ok (- 5)"
  using native_round_trip [of "N_i8 (- 5)" "S_Int32 (scast (- 5 :: 8 word))"] by simp

lemma bit_length_bounds: "0 < n \<Longrightarrow> 2 ^ (bit_length n - 1) \<le> n \<and> n < 2 ^ bit_length n \<and> 0 < bit_length n"
proof (induction n rule: bit_length.induct)
  case (1 n)
  show ?case
  proof (cases "n div 2 = 0")
    case True
    with "1.prems" have "n = 1" by auto
    then show ?thesis by (simp add: bit_length.simps)
  next
    case False
    with "1.IH" "1.prems" have ih: "2 ^ (bit_length (n div 2) - 1) \<le> n div 2" "n div 2 < 2 ^ bit_length (n div 2)" "0 < bit_length (n div 2)" by auto
    have "2 * 2 ^ (bit_length (n div 2) - 1) = (2 :: nat) ^ bit_length (n div 2)"
      using ih(3) by (cases "bit_length (n div 2)") simp_all
    moreover have "bit_length n = Suc (bit_length (n div 2))" using "1.prems" by (simp add: bit_length.simps [of n])
    moreover have "2 * (n div 2) \<le> n" "n \<le> 2 * (n div 2) + 1" by simp_all
    ultimately have "2 ^ bit_length (n div 2) \<le> n" "n < 2 * 2 ^ bit_length (n div 2)" using ih by linarith+
    with \<open>bit_length n = _\<close> show ?thesis by simp
  qed
qed

lemma div_mod_field: "f < k \<Longrightarrow> (x * k + f) div k = x \<and> (x * k + f) mod k = (f :: nat)"
  by simp

lemma f64_integral_fields:
  assumes "unat w = s * 2 ^ 63 + e * 2 ^ 52 + f" "s < 2" "e < 2047" "f < 2 ^ 52" "0 < e"
  shows "f64_integral w = (let signed = (\<lambda>n :: nat. if s = 1 then - int n else int n) in
      if 1075 \<le> e then Some (signed ((2 ^ 52 + f) * 2 ^ (e - 1075)))
      else if 1075 - e \<le> 52 \<and> (2 ^ 52 + f) mod 2 ^ (1075 - e) = 0
      then Some (signed ((2 ^ 52 + f) div 2 ^ (1075 - e))) else None)"
proof -
  have w: "unat w = (s * 2 ^ 11 + e) * 2 ^ 52 + f" using assms(1) by simp
  have d: "unat w div 2 ^ 52 = s * 2 ^ 11 + e" "unat w mod 2 ^ 52 = f"
    unfolding w using div_mod_field [OF assms(4)] by blast+
  then have e: "unat (drop_bit 52 w) mod 2048 = e" using assms(3) by (simp add: drop_bit_eq_div unat_div)
  have "unat w = s * 2 ^ 63 + (e * 2 ^ 52 + f)" using assms(1) by simp
  moreover have "e * 2 ^ 52 + f < 2 ^ 63" using assms(3,4) by simp
  ultimately have "unat w div 2 ^ 63 = s" using div_mod_field by metis
  then have "bit (unat w) 63 \<longleftrightarrow> s = 1" using assms(2) by (auto simp: bit_iff_odd less_2_cases_iff)
  then have b: "bit w 63 \<longleftrightarrow> s = 1" by (simp add: bit_unsigned_iff)
  show ?thesis using assms unfolding f64_integral_def Let_def e d(2) b by simp
qed

text \<open>
  Small integers survive doubles: an integer below \<open>2^53\<close> in magnitude becomes a double with exactly
  that value, so an \<open>Int32\<close>, or an \<open>Int64\<close> in that range, converted to \<open>f64\<close> and read back as an
  integer is unchanged.
\<close>

theorem f64_from_int_exact:
  assumes "\<bar>n\<bar> < 2 ^ 53"
  shows "f64_integral (f64_from_int n) = Some n
    \<and> (\<forall>i. sint i = n \<longrightarrow> (\<exists>f. f64_try_from (S_Int64 i) = Ok f \<and> int_try_from I64 (S_Double f) = Ok n))"
proof -
  have exact: "f64_integral (f64_from_int n) = Some n"
  proof (cases "n = 0")
    case False
    define a l where "a = nat \<bar>n\<bar>" and "l = bit_length a"
    have a: "0 < a" "a < 2 ^ 53" using False assms by (simp_all add: a_def nat_less_iff)
    have b: "2 ^ (l - 1) \<le> a" "a < 2 ^ l" "0 < l" using bit_length_bounds [OF a(1)] by (simp_all add: l_def)
    have l: "l \<le> 53"
    proof (rule ccontr)
      assume "\<not> l \<le> 53"
      then have "(2 :: nat) ^ 53 \<le> 2 ^ (l - 1)" by (intro power_increasing) simp_all
      with b(1) a(2) show False by simp
    qed
    define m where "m = a * 2 ^ (53 - l)"
    have "2 ^ (l - 1) * 2 ^ (53 - l) \<le> m" "m < 2 ^ l * 2 ^ (53 - l)" using b by (simp_all add: m_def)
    then have m: "2 ^ 52 \<le> m" "m < 2 ^ 53" using l b(3) by (simp_all flip: power_add)
    let ?s = "if n < 0 then 1 else 0 :: nat"
    have w: "f64_from_int n = word_of_nat (?s * 2 ^ 63 + (l + 1022) * 2 ^ 52 + (m - 2 ^ 52))"
      using False l by (simp add: f64_from_int_def Let_def a_def l_def m_def)
    have "?s * 2 ^ 63 + (l + 1022) * 2 ^ 52 + (m - 2 ^ 52) < 2 ^ 64" using l m by simp
    then have u: "unat (f64_from_int n) = ?s * 2 ^ 63 + (l + 1022) * 2 ^ 52 + (m - 2 ^ 52)"
      unfolding w by (simp only: unat_of_nat) simp
    have n: "n < 0 \<Longrightarrow> - int a = n" "\<not> n < 0 \<Longrightarrow> int a = n" by (simp_all add: a_def)
    have l52: "53 - l \<le> 52" "1075 - (l + 1022) = 53 - l" using b(3) by simp_all
    have "f64_integral (f64_from_int n) = (let signed = (\<lambda>k :: nat. if ?s = 1 then - int k else int k) in
        if 1075 \<le> l + 1022 then Some (signed ((2 ^ 52 + (m - 2 ^ 52)) * 2 ^ (l + 1022 - 1075)))
        else if 1075 - (l + 1022) \<le> 52 \<and> (2 ^ 52 + (m - 2 ^ 52)) mod 2 ^ (1075 - (l + 1022)) = 0
        then Some (signed ((2 ^ 52 + (m - 2 ^ 52)) div 2 ^ (1075 - (l + 1022)))) else None)"
      using l m by (intro f64_integral_fields [OF u]) simp_all
    moreover have "2 ^ 52 + (m - 2 ^ 52) = m" using m by simp
    moreover have "m = a" if "l = 53" using that by (simp add: m_def)
    moreover have "m mod 2 ^ (53 - l) = 0" "m div 2 ^ (53 - l) = a" by (simp_all add: m_def)
    ultimately show ?thesis using l n l52 by (cases "l = 53"; cases "n < 0") (simp_all add: Let_def)
  qed (simp add: f64_from_int_def f64_integral_def)
  moreover have "int_try_from I64 (S_Double (f64_from_int n)) = Ok n"
    using exact assms by (auto simp: int_try_from_def int_as_i64_def abs_less_iff)
  ultimately show ?thesis by (simp add: f64_try_from_def)
qed

theorem f64_from_int_exact_witness: "f64_integral (f64_from_int (- 123456789)) = Some (- 123456789)"
  using f64_from_int_exact [of "- 123456789"] by simp

text \<open>What the crates document: a UUID is sixteen bytes, a decimal its sixteen interchange bytes.\<close>

definition uuid_ok :: "(bytes \<Rightarrow> 'u option) \<Rightarrow> ('u \<Rightarrow> bytes) \<Rightarrow> bool" where
  "uuid_ok from_slice uuid_bytes \<longleftrightarrow>
     (\<forall>b. length b = 16 \<longrightarrow> (\<exists>u. from_slice b = Some u \<and> uuid_bytes u = b))
     \<and> (\<forall>u. length (uuid_bytes u) = 16) \<and> inj uuid_bytes"

definition decimal_ok :: "(bytes \<Rightarrow> 'd) \<Rightarrow> ('d \<Rightarrow> bytes) \<Rightarrow> bool" where
  "decimal_ok from_le to_le \<longleftrightarrow> (\<forall>b. length b = 16 \<longrightarrow> to_le (from_le b) = b) \<and> (\<forall>d. from_le (to_le d) = d \<and> length (to_le d) = 16)"

text \<open>
  UUIDs and decimals convert both ways without loss: every UUID and every decimal becomes a scalar
  that can be encoded and converts back to it, and a scalar that converts to one is, bit for bit, the scalar it
  converts back to; a binary of another subtype or length is refused.
\<close>

theorem uuid_decimal_round_trip:
  assumes "uuid_ok from_slice uuid_bytes" and "decimal_ok from_le to_le"
  shows "uuid_try_from from_slice (scalar_of_uuid uuid_bytes u) = Ok u \<and> scalar_ok (scalar_of_uuid uuid_bytes u)
    \<and> (uuid_try_from from_slice v = Ok u \<longrightarrow> v = scalar_of_uuid uuid_bytes u)
    \<and> decimal_try_from from_le (scalar_of_decimal to_le d) = Ok d \<and> scalar_ok (scalar_of_decimal to_le d)
    \<and> (decimal_try_from from_le v = Ok d \<and> scalar_ok v \<longrightarrow> v = scalar_of_decimal to_le d)"
proof -
  have u: "length (uuid_bytes u) = 16" "from_slice (uuid_bytes u) = Some u" for u
    using assms(1) unfolding uuid_ok_def inj_def by metis+
  have b: "uuid_bytes u = b" if "from_slice b = Some u" "length b = 16" for b u
    using assms(1) that unfolding uuid_ok_def by fastforce
  have d: "from_le (to_le d) = d" "length (to_le d) = 16" "length b = 16 \<Longrightarrow> to_le (from_le b) = b" for d b
    using assms(2) by (simp_all add: decimal_ok_def)
  show ?thesis
    using u b d by (cases v) (auto simp: uuid_try_from_def scalar_of_uuid_def decimal_try_from_def scalar_of_decimal_def scalar_ok_def split: if_splits)
qed

text \<open>An instance: a 128-bit word and its little-endian bytes.\<close>

definition word_bytes :: "128 word \<Rightarrow> bytes" where
  "word_bytes w = le_bytes 16 (unat w)"

definition bytes_word :: "bytes \<Rightarrow> 128 word" where
  "bytes_word b = word_of_nat (of_le b)"

lemma bytes_word_bytes: "bytes_word (word_bytes w) = w" "length b = 16 \<Longrightarrow> word_bytes (bytes_word b) = b"
proof -
  have "unat w < 256 ^ 16" using unsigned_less [of w, where ?'a = nat] by simp
  then show "bytes_word (word_bytes w) = w" by (simp add: bytes_word_def word_bytes_def of_le_le_bytes)
  show "word_bytes (bytes_word b) = b" if "length b = 16"
    using of_le_bound [of b] that by (simp add: bytes_word_def word_bytes_def unat_of_nat le_bytes_of_le)
qed

theorem uuid_decimal_round_trip_witness:
  "uuid_try_from (\<lambda>b. if length b = 16 then Some (bytes_word b) else None) (scalar_of_uuid word_bytes 5) = Ok 5
   \<and> decimal_try_from bytes_word (scalar_of_decimal word_bytes 7) = Ok 7"
proof -
  have "inj word_bytes" by (metis bytes_word_bytes(1) injI)
  then have "uuid_ok (\<lambda>b. if length b = 16 then Some (bytes_word b) else None) word_bytes" "decimal_ok bytes_word word_bytes"
    by (simp_all add: uuid_ok_def decimal_ok_def bytes_word_bytes) (simp_all add: word_bytes_def)
  from uuid_decimal_round_trip [OF this] show ?thesis by blast
qed

section \<open>JSON\<close>

fun json_ok :: "bson \<Rightarrow> bool" where
  "json_ok (B_Document fs) \<longleftrightarrow> list_all (\<lambda>f. json_ok (snd f)) fs"
| "json_ok (B_Array vs) \<longleftrightarrow> list_all json_ok vs"
| "json_ok v \<longleftrightarrow> (case v of B_Timestamp _ \<Rightarrow> False | B_Regex _ \<Rightarrow> False | B_DbPointer _ \<Rightarrow> False
     | B_JavaScriptScope _ _ \<Rightarrow> False | B_MinKey \<Rightarrow> False | B_MaxKey \<Rightarrow> False | _ \<Rightarrow> True)"

lemma traverse_Ok_ex: "(\<exists>ys. traverse f xs = Ok ys) \<longleftrightarrow> (\<forall>x \<in> set xs. \<exists>y. f x = Ok y)"
  by (induction xs) (auto simp: andthen_eq_Ok)

lemma json_outcome:
  "json_try_from j v \<noteq> Panic \<and> ((\<exists>x. json_try_from j v = Ok x) \<longleftrightarrow> json_ok v)"
proof (induction v rule: bson_induct)
  case (Document fs)
  have "traverse (\<lambda>f. map_ok (Pair (fst f)) (json_try_from j (snd f))) fs \<noteq> Panic"
    using Document by (intro traverse_not_Panic) auto
  with Document show ?case by (simp add: map_ok_total traverse_Ok_ex list_all_iff map_ok_eq_Ok)
next
  case (Array vs)
  have "traverse (json_try_from j) vs \<noteq> Panic" using Array by (intro traverse_not_Panic) auto
  with Array show ?case by (simp add: map_ok_total traverse_Ok_ex list_all_iff)
next
  case (Scalar s)
  then show ?case by (cases s) simp_all
qed simp

text \<open>Insertion into a \<open>Map\<close> replaces: the laws of its \<open>get\<close>.\<close>

definition map_laws :: "('j, 'm) json_api \<Rightarrow> ('m \<Rightarrow> string \<Rightarrow> 'j option) \<Rightarrow> bool" where
  "map_laws j get \<longleftrightarrow> (\<forall>k. get (j_map_new j) k = None)
     \<and> (\<forall>m k v k'. get (j_map_insert j m k v) k' = (if k' = k then Some v else get m k'))"

lemma json_fields_get:
  assumes "map_laws j get"
  shows "get (json_fields j kvs m) k = (case map_of (rev kvs) k of Some v \<Rightarrow> Some v | None \<Rightarrow> get m k)"
  using assms by (induction kvs arbitrary: m) (auto simp: map_laws_def map_add_def split: option.splits)

lemma document_get_map_of: "document_get fs k = map_of fs k"
  by (induction fs) auto

lemma map_of_traverse:
  assumes "traverse (\<lambda>f. map_ok (Pair (fst f)) (g (snd f))) fs = Ok kvs"
  shows "map_of (rev kvs) k = map_option (\<lambda>v. ok_of (g v)) (map_of (rev fs) k)"
proof -
  have "kvs = map (\<lambda>f. (fst f, ok_of (g (snd f)))) fs"
    using assms by (induction fs arbitrary: kvs) (auto simp: andthen_eq_Ok map_ok_eq_Ok)
  then have "rev kvs = map (\<lambda>(k, v). (k, ok_of (g v))) (rev fs)" by (simp add: rev_map case_prod_beta)
  then show ?thesis by (simp add: map_of_map)
qed

text \<open>
  (C38) Conversion to JSON: it never panics and succeeds exactly on values without timestamps, regular
  expressions, pointers, scoped code and min/max keys at any depth; a document becomes an object whose
  entry for a name is the conversion of its last field of that name, which with distinct names is the
  field \<open>get\<close> returns; and \<open>Value::from(&doc)\<close> is \<open>null\<close> for a document that does not convert.
\<close>

theorem json_document_conversion:
  assumes "map_laws j get"
  shows "json_try_from j v \<noteq> Panic \<and> ((\<exists>x. json_try_from j v = Ok x) \<longleftrightarrow> json_ok v)
    \<and> json_from_document j fs = Ok (if json_ok (B_Document fs) then ok_of (json_try_from j (B_Document fs)) else j_null j)
    \<and> (json_ok (B_Document fs) \<longrightarrow> (\<exists>m. json_try_from j (B_Document fs) = Ok (j_object j m)
        \<and> (\<forall>k. get m k = map_option (\<lambda>v. ok_of (json_try_from j v)) (map_of (rev fs) k))
        \<and> (distinct (map fst fs) \<longrightarrow> (\<forall>k. get m k = map_option (\<lambda>v. ok_of (json_try_from j v)) (document_get fs k)))))"
proof -
  have from_doc: "json_from_document j fs = Ok (if json_ok (B_Document fs) then ok_of (json_try_from j (B_Document fs)) else j_null j)"
    using json_outcome [of j "B_Document fs"]
    by (cases "json_try_from j (B_Document fs)") (auto simp: json_from_document_def unwrap_or_def simp del: json_try_from.simps json_ok.simps)
  have get: "map_of (rev fs) k = document_get fs k" if "distinct (map fst fs)" for k
    using that map_of_inject_set [of "rev fs" fs] by (simp add: document_get_map_of rev_map [symmetric])
  have obj: "\<exists>m. json_try_from j (B_Document fs) = Ok (j_object j m)
      \<and> (\<forall>k. get m k = map_option (\<lambda>v. ok_of (json_try_from j v)) (map_of (rev fs) k))
      \<and> (distinct (map fst fs) \<longrightarrow> (\<forall>k. get m k = map_option (\<lambda>v. ok_of (json_try_from j v)) (document_get fs k)))"
    if ok: "json_ok (B_Document fs)"
  proof -
    obtain kvs where t: "traverse (\<lambda>f. map_ok (Pair (fst f)) (json_try_from j (snd f))) fs = Ok kvs"
      using json_outcome [of j "B_Document fs"] ok by (auto simp: map_ok_eq_Ok)
    have "get (json_fields j kvs (j_map_new j)) k = map_option (\<lambda>v. ok_of (json_try_from j v)) (map_of (rev fs) k)" for k
      using map_of_traverse [OF t] json_fields_get [OF assms] assms by (simp add: map_laws_def split: option.split)
    with t get show ?thesis by (intro exI [of _ "json_fields j kvs (j_map_new j)"]) simp
  qed
  show ?thesis using json_outcome [of j v] from_doc obj by blast
qed

datatype sample_json = J_Null | J_F64 f64 | J_Str string | J_Bool bool | J_I64 int | J_Array "sample_json list" | J_Object "(string \<times> sample_json) list"

definition sample_api :: "(sample_json, (string \<times> sample_json) list) json_api" where
  "sample_api = \<lparr>j_null = J_Null, j_f64 = J_F64, j_str = J_Str, j_bool = J_Bool, j_i32 = (\<lambda>i. J_I64 (sint i)), j_i64 = (\<lambda>i. J_I64 (sint i)),
     j_array = J_Array, j_object = J_Object, j_map_new = [], j_map_insert = (\<lambda>m k v. (k, v) # filter (\<lambda>x. fst x \<noteq> k) m)\<rparr>"

theorem json_document_conversion_witness:
  "\<exists>m. json_try_from sample_api (B_Document [(''a'', B_Null), (''a'', B_Bool True)]) = Ok (J_Object m) \<and> map_of m ''a'' = Some (J_Bool True)"
proof -
  have "map_of (filter (\<lambda>x. fst x \<noteq> k) m) k' = (if k' = k then None else map_of m k')" for k k' and m :: "(string \<times> sample_json) list"
    by (induction m) auto
  then have "map_laws sample_api map_of" by (simp add: map_laws_def sample_api_def)
  moreover have "json_ok (B_Document [(''a'', B_Null), (''a'', B_Bool True)])" by simp
  ultimately have "\<exists>m. json_try_from sample_api (B_Document [(''a'', B_Null), (''a'', B_Bool True)]) = Ok (j_object sample_api m)
      \<and> (\<forall>k. map_of m k = map_option (\<lambda>v. ok_of (json_try_from sample_api v)) (map_of (rev [(''a'', B_Null), (''a'', B_Bool True)]) k))"
    using json_document_conversion by blast
  then show ?thesis by (auto simp: sample_api_def)
qed

end
