(* ===== verification/Bson_Macros.thy ===== *)
theory Bson_Macros
  imports Bson_Encode
begin

text \<open>
  The literal macros \<open>doc!\<close>, \<open>arr!\<close>, \<open>oid!\<close> and \<open>dt!\<close> of \<open>wirebson/src/macros.rs\<close>: the token munchers as
  functions on token lists, with no result where no arm of the macro matches.
\<close>

section \<open>Model\<close>

text \<open>
  The tokens the macro rules tell apart: a literal (the rules take a key of this kind), the separators, the
  three reserved identifiers and any other expression, given by the \<open>Bson\<close> it converts into.  A
  literal in the place of a value is an expression too.
\<close>

datatype token =
    T_literal string
  | T_colon
  | T_comma
  | T_null
  | T_MIN_KEY
  | T_MAX_KEY
  | T_expr bson

text \<open>
  What the arms for a value add: the dedicated arms for the reserved identifiers come before the arm for
  expressions.
\<close>

fun arm_value :: "token \<Rightarrow> bson option" where
  "arm_value T_null = Some B_Null"
| "arm_value T_MIN_KEY = Some B_MinKey"
| "arm_value T_MAX_KEY = Some B_MaxKey"
| "arm_value (T_expr v) = Some v"
| "arm_value (T_literal s) = Some (B_String s)"
| "arm_value _ = None"

text \<open>
  \<open>__doc_build!\<close> and \<open>__arr_build!\<close>: each arm has its form before a comma, which goes on with the rest, and its
  form at the end; \<open>None\<close> where no arm matches, which is a compile error.
\<close>

fun doc_build :: "document \<Rightarrow> token list \<Rightarrow> document option" where
  "doc_build d [] = Some d"
| "doc_build d (T_literal k # T_colon # t # T_comma # rest) =
     (case arm_value t of Some v \<Rightarrow> doc_build (document_add k v d) rest | None \<Rightarrow> None)"
| "doc_build d [T_literal k, T_colon, t] = (case arm_value t of Some v \<Rightarrow> Some (document_add k v d) | None \<Rightarrow> None)"
| "doc_build d _ = None"

fun arr_build :: "array \<Rightarrow> token list \<Rightarrow> array option" where
  "arr_build a [] = Some a"
| "arr_build a (t # T_comma # rest) =
     (case arm_value t of Some v \<Rightarrow> arr_build (array_push v a) rest | None \<Rightarrow> None)"
| "arr_build a [t] = (case arm_value t of Some v \<Rightarrow> Some (array_push v a) | None \<Rightarrow> None)"
| "arr_build a _ = None"

definition doc_macro :: "token list \<Rightarrow> document option" where
  "doc_macro ts = (if ts = [] then Some document_new else doc_build document_new ts)"

definition arr_macro :: "token list \<Rightarrow> array option" where
  "arr_macro ts = (if ts = [] then Some [] else arr_build [] ts)"

text \<open>\<open>oid!\<close> panics on a string that is not an object id; \<open>dt!\<close> wraps its argument.\<close>

definition oid_from_hex :: "string \<Rightarrow> (scalar_error, object_id) result" where
  "oid_from_hex s = from_hex s"

definition oid_macro :: "string \<Rightarrow> ('e, bson) result" where
  "oid_macro s = (case oid_from_hex s of Ok oid \<Rightarrow> Ok (B_ObjectId oid) | _ \<Rightarrow> Panic)"

definition dt_macro :: "i64 \<Rightarrow> bson" where
  "dt_macro ms = B_DateTime ms"

section \<open>Properties\<close>

text \<open>The tokens of a literal: \<open>key: value\<close> pairs between commas, the last comma optional.\<close>

fun comma_tokens :: "bool \<Rightarrow> token list list \<Rightarrow> token list" where
  "comma_tokens trailing [] = []"
| "comma_tokens trailing [ts] = ts @ (if trailing then [T_comma] else [])"
| "comma_tokens trailing (ts # tss) = ts @ T_comma # comma_tokens trailing tss"

definition doc_tokens :: "bool \<Rightarrow> (string \<times> token) list \<Rightarrow> token list" where
  "doc_tokens trailing kvs = comma_tokens trailing (map (\<lambda>(k, t). [T_literal k, T_colon, t]) kvs)"

definition arr_tokens :: "bool \<Rightarrow> token list \<Rightarrow> token list" where
  "arr_tokens trailing ts = comma_tokens trailing (map (\<lambda>t. [t]) ts)"

lemma doc_build_tokens:
  "list_all (\<lambda>(k, t). arm_value t \<noteq> None) kvs \<Longrightarrow>
     doc_build d (doc_tokens trailing kvs) = Some (d @ map (\<lambda>(k, t). (k, the (arm_value t))) kvs)"
proof (induction kvs arbitrary: d)
  case (Cons kt kvs)
  obtain k t where kt: "kt = (k, t)" by (cases kt)
  with Cons.prems obtain v where v: "arm_value t = Some v" by auto
  show ?case using Cons v kt
    by (cases kvs) (auto simp: doc_tokens_def document_add_def)
qed (simp add: doc_tokens_def)

lemma arr_build_tokens:
  "list_all (\<lambda>t. arm_value t \<noteq> None) ts \<Longrightarrow> arr_build a (arr_tokens trailing ts) = Some (a @ map (\<lambda>t. the (arm_value t)) ts)"
proof (induction ts arbitrary: a)
  case (Cons t ts)
  then obtain v where v: "arm_value t = Some v" by auto
  show ?case using Cons v by (cases ts) (auto simp: arr_tokens_def array_push_def)
qed (simp add: arr_tokens_def)

text \<open>
  The literal macros build what they spell: \<open>doc!\<close> with any pairs, with or without a final comma,
  is the document of those fields in order, duplicates kept; \<open>arr!\<close> is the array of its items in
  order; \<open>null\<close>, \<open>MIN_KEY\<close> and \<open>MAX_KEY\<close> are the values they name and never shadowed by the rule for
  expressions.
\<close>

theorem literal_macros_build:
  assumes "list_all (\<lambda>(k, t). arm_value t \<noteq> None) kvs" and "list_all (\<lambda>t. arm_value t \<noteq> None) ts"
  shows "doc_macro (doc_tokens trailing kvs) = Some (map (\<lambda>(k, t). (k, the (arm_value t))) kvs)
    \<and> arr_macro (arr_tokens trailing ts) = Some (map (\<lambda>t. the (arm_value t)) ts)"
proof -
  have "kvs = [] \<or> doc_tokens trailing kvs \<noteq> []" "ts = [] \<or> arr_tokens trailing ts \<noteq> []"
    by (cases kvs; cases "tl kvs"; simp add: doc_tokens_def case_prod_beta) (cases ts; cases "tl ts"; simp add: arr_tokens_def)
  then show ?thesis
    using doc_build_tokens [OF assms(1), of document_new] arr_build_tokens [OF assms(2), of "[]"]
    by (auto simp: doc_macro_def arr_macro_def document_new_def doc_tokens_def arr_tokens_def)
qed

theorem literal_macros_build_witness:
  "doc_macro [T_literal ''a'', T_colon, T_null, T_comma, T_literal ''a'', T_colon, T_expr (B_Int32 1), T_comma]
     = Some [(''a'', B_Null), (''a'', B_Int32 1)]
   \<and> arr_macro [T_literal ''x'', T_comma, T_MAX_KEY, T_comma] = Some [B_String ''x'', B_MaxKey]"
  using literal_macros_build [of "[(''a'', T_null), (''a'', T_expr (B_Int32 1))]" "[T_literal ''x'', T_MAX_KEY]" True]
  by (simp add: doc_tokens_def arr_tokens_def)

end
