(* ===== verification/Fuzz_Targets.thy ===== *)
theory Fuzz_Targets
  imports Bson_Macros Log_Text Framing
begin

text \<open>
  The fuzz targets of \<open>fuzz/fuzz_targets\<close>, each as a function of its input that panics where the target would,
  and the proof that none does.
\<close>

section \<open>Model\<close>

text \<open>A target returns or panics; \<open>assert_eq!\<close> and \<open>unwrap\<close> panic.\<close>

definition assert_eq :: "'a \<Rightarrow> 'a \<Rightarrow> (unit, unit) result \<Rightarrow> (unit, unit) result" where
  "assert_eq x y k = (if x = y then k else Panic)"

definition fuzz_msg :: "(bytes \<Rightarrow> u32) \<Rightarrow> bytes \<Rightarrow> (unit, unit) result" where
  "fuzz_msg crc data = (case parse_message crc data MAX_MSG_LEN of (Panic, _) \<Rightarrow> Panic | _ \<Rightarrow> Ok ())"

definition fuzz_document :: "bytes \<Rightarrow> (unit, unit) result" where
  "fuzz_document data = (case from_bytes data of
     Panic \<Rightarrow> Panic
   | Err _ \<Rightarrow> Ok ()
   | Ok raw \<Rightarrow> (case shallow raw of Panic \<Rightarrow> Panic | _ \<Rightarrow> (case deep raw of
         Panic \<Rightarrow> Panic
       | Err _ \<Rightarrow> Ok ()
       | Ok doc \<Rightarrow> (case document_encode doc of
           Ok re1 \<Rightarrow> (case deep re1 of
             Ok doc2 \<Rightarrow> (case document_encode doc2 of
               Ok re2 \<Rightarrow> assert_eq re1 re2 (Ok ())
             | _ \<Rightarrow> Panic)
           | _ \<Rightarrow> Panic)
         | _ \<Rightarrow> Panic))))"

text \<open>\<open>slice::windows\<close> and \<open>chunks_exact\<close>; \<open>is_ascii_hexdigit\<close>.\<close>

fun windows :: "nat \<Rightarrow> 'a list \<Rightarrow> 'a list list" where
  "windows n [] = (if n = 0 then [[]] else [])"
| "windows n (x # xs) = (if length (x # xs) < n then [] else take n (x # xs) # windows n xs)"

definition chunks_exact :: "nat \<Rightarrow> 'a list \<Rightarrow> 'a list list" where
  "chunks_exact n xs = filter (\<lambda>c. length c = n) (chunks n xs)"

definition is_ascii_hexdigit :: "u8 \<Rightarrow> bool" where
  "is_ascii_hexdigit b \<longleftrightarrow> 0x30 \<le> b \<and> b \<le> 0x39 \<or> 0x41 \<le> b \<and> b \<le> 0x46 \<or> 0x61 \<le> b \<and> b \<le> 0x66"

fun check_oids :: "bytes list \<Rightarrow> (unit, unit) result" where
  "check_oids [] = Ok ()"
| "check_oids (w # ws) = (case from_utf8 w of
     None \<Rightarrow> check_oids ws
   | Some s \<Rightarrow>
       if \<not> list_all is_ascii_hexdigit (as_bytes s) then check_oids ws
       else andthen (oid_macro s) (\<lambda>macro_oid.
         case from_hex s of
           Ok oid \<Rightarrow> assert_eq macro_oid (B_ObjectId oid) (check_oids ws)
         | _ \<Rightarrow> Panic))"

fun check_dates :: "bytes list \<Rightarrow> (unit, unit) result" where
  "check_dates [] = Ok ()"
| "check_dates (c # cs) = (let ms = from_le64 c in assert_eq (dt_macro ms) (B_DateTime ms) (check_dates cs))"

definition fuzz_scalar :: "bytes \<Rightarrow> bson" where
  "fuzz_scalar c = B_Int64 (from_le64 (c @ replicate (8 - length c) 0))"

definition fuzz_macros :: "bytes \<Rightarrow> (unit, unit) result" where
  "fuzz_macros data =
     andthen (check_oids (windows 24 data)) (\<lambda>_.
     andthen (check_dates (chunks_exact 8 data)) (\<lambda>_.
     let scalars = map fuzz_scalar (chunks 8 data) in
     if scalars = [] then Ok ()
     else case doc_macro [T_literal ''values'', T_colon, T_expr (B_Array scalars), T_comma,
         T_literal ''count'', T_colon, T_expr (B_Int64 (word_of_nat (length scalars)))] of
       None \<Rightarrow> Panic
     | Some doc \<Rightarrow> (case document_encode doc of
         Panic \<Rightarrow> Panic
       | Err _ \<Rightarrow> Ok ()
       | Ok raw1 \<Rightarrow> (case deep raw1 of
           Panic \<Rightarrow> Panic
         | Err _ \<Rightarrow> Ok ()
         | Ok decoded \<Rightarrow> (case document_encode decoded of
             Panic \<Rightarrow> Panic
           | Err _ \<Rightarrow> Ok ()
           | Ok raw2 \<Rightarrow> assert_eq raw1 raw2 (Ok ()))))))"

section \<open>No input crashes a target\<close>

lemma fuzz_document_safe:
  assumes "length data \<le> 200000000"
  shows "fuzz_document data = Ok ()"
proof (cases "from_bytes data")
  case (Ok raw)
  then have raw: "raw = data" by (simp add: from_bytes_Ok)
  have np: "shallow raw \<noteq> Panic" "deep raw \<noteq> Panic"
    unfolding shallow_def deep_def by (simp_all only: decode_panic not_False_eq_True)
  show ?thesis
  proof (cases "deep raw")
    case dec: (Ok doc)
    have dec': "decode_document raw Deep 1 = Ok doc" using dec by (simp add: deep_def)
    have wf: "wf_doc doc" "nesting (B_Document doc) \<le> 20" using decoded_wf(1) [OF dec'] by simp_all
    have len: "length (doc_bytes doc) \<le> 1000000000" using decoded_size(1) [OF dec'] assms raw by simp
    have "document_encode doc = Ok (doc_bytes doc)" using document_encode_layout [OF wf(1)] len by simp
    moreover have "deep (doc_bytes doc) = Ok doc" using deep_doc_bytes [OF wf(1)] wf(2) len by simp
    ultimately show ?thesis
      using Ok dec np by (cases "shallow raw") (simp_all add: fuzz_document_def assert_eq_def del: bson_bytes.simps)
  qed (use Ok np in \<open>auto simp: fuzz_document_def split: result.split\<close>)
qed (use from_bytes_panic in \<open>auto simp: fuzz_document_def\<close>)

lemma from_hex_digits:
  assumes "list_all is_ascii_hexdigit (as_bytes s)" "length s = 24"
  shows "\<exists>oid. from_hex s = Ok oid"
proof -
  have d: "\<exists>v. hex_digit b = Some v" if "is_ascii_hexdigit b" for b using that by (auto simp: hex_digit_def is_ascii_hexdigit_def)
  have "\<exists>bs. from_hex_pairs l = Ok bs" if "list_all is_ascii_hexdigit l" for l
    using that by (induction l rule: from_hex_pairs.induct) (auto dest!: d simp: andthen_eq_Ok)
  with assms show ?thesis by (simp add: from_hex_def)
qed

lemma windows_length: "w \<in> set (windows n xs) \<Longrightarrow> length w = n"
  by (induction n xs rule: windows.induct) (auto split: if_splits)

lemma check_oids_safe: "\<forall>w \<in> set ws. length w = 24 \<Longrightarrow> check_oids ws = Ok ()"
proof (induction ws)
  case (Cons w ws)
  show ?case
  proof (cases "from_utf8 w")
    case (Some s)
    then have "length s = 24" using Cons.prems by (auto simp: from_utf8_Some)
    with Cons Some from_hex_digits [of s] show ?thesis by (auto simp: oid_macro_def oid_from_hex_def assert_eq_def)
  qed (use Cons in simp)
qed simp

lemma check_dates_safe: "check_dates cs = Ok ()"
  by (induction cs) (simp_all add: assert_eq_def dt_macro_def)

lemma fuzz_macros_safe: "fuzz_macros data = Ok ()"
proof -
  let ?vs = "map fuzz_scalar (chunks 8 data)"
  let ?doc = "[(''values'', B_Array ?vs), (''count'', B_Int64 (word_of_nat (length ?vs)))]"
  have v: "wf_bson v \<and> nesting v = 0" if "v \<in> set ?vs" for v using that by (auto simp: fuzz_scalar_def as_scalar_def)
  have wf: "wf_doc ?doc" using v by (simp add: as_scalar_def list_all_iff) (simp add: eval_simps)
  have "nesting (B_Array ?vs) \<le> 1" using v foldr_max_le [of nesting ?vs 0] by simp
  then have nest: "nesting (B_Document ?doc) \<le> 20" by simp
  have "deep raw = Ok ?doc" if "document_encode ?doc = Ok raw" for raw
    using document_encode_layout [OF wf] deep_doc_bytes [OF wf] nest that by (auto split: if_splits simp del: bson_bytes.simps)
  moreover have "document_encode ?doc \<noteq> Panic" by (rule document_encode_panic)
  moreover have "doc_macro [T_literal ''values'', T_colon, T_expr (B_Array ?vs), T_comma,
         T_literal ''count'', T_colon, T_expr (B_Int64 (word_of_nat (length ?vs)))] = Some ?doc"
    by (simp add: doc_macro_def document_new_def document_add_def)
  ultimately show ?thesis
    using check_oids_safe [of "windows 24 data"] windows_length [of _ 24 data] check_dates_safe
    by (cases "document_encode ?doc") (auto simp: fuzz_macros_def Let_def assert_eq_def)
qed



end
