(* ===== verification/Tests_Base.thy ===== *)
theory Tests_Base
  imports Serve Bson_From Fuzz_Targets "HOL-Library.Code_Target_Numeral"
begin

text \<open>
  What the conformance tests share. The unit tests of the repository are run here on the model: each
  \<open>#[test]\<close> function becomes a boolean definition, a conjunction of the assertions it makes in the order
  it makes them, and a lemma says that it evaluates to \<open>True\<close>. A panicking \<open>unwrap\<close> or \<open>expect\<close> of a
  test is \<open>False\<close>. Nothing of the model is restated: the definitions of the other theories are evaluated,
  so a slip of the translation that the repository's own tests would notice is noticed here.

  The literals of the tests are bytes; a string literal with other than ASCII characters is spelled by its
  UTF-8 bytes, as everywhere in the development, and an \<open>f64\<close> literal by its IEEE bit pattern.
  Binary numerals (\<open>Code_Target_Numeral\<close>) make the evaluation of word arithmetic feasible.
\<close>

section \<open>Assertions\<close>

definition is_err :: "('e, 'a) result \<Rightarrow> bool" where
  "is_err r \<longleftrightarrow> (case r of Err _ \<Rightarrow> True | _ \<Rightarrow> False)"

abbreviation unwrap_then :: "('e, 'a) result \<Rightarrow> ('a \<Rightarrow> bool) \<Rightarrow> bool" where
  "unwrap_then r k \<equiv> (case r of Ok x \<Rightarrow> k x | Err _ \<Rightarrow> False | Panic \<Rightarrow> False)"

abbreviation NUL :: char where "NUL \<equiv> CHR 0x00"
abbreviation DQ :: char where "DQ \<equiv> CHR 0x22"
abbreviation LF :: char where "LF \<equiv> CHR 0x0A"

text \<open>Unfolding the combinators keeps evaluation from entering the continuation of an error.\<close>

declare andthen_def [code_unfold] keep_def [code_unfold] map_ok_def [code_unfold] map_err_def [code_unfold] ok_or_def [code_unfold]

text \<open>The document \<open>{"hello": "world"}\<close> of the BSON specification, the first input of several test modules.\<close>

definition HELLO :: bytes where
  "HELLO = [0x16, 0x00, 0x00, 0x00, 0x02] @ as_bytes ''hello'' @ [0x00, 0x06, 0x00, 0x00, 0x00] @ as_bytes ''world'' @ [0x00, 0x00]"

section \<open>Large documents\<close>

text \<open>
  Where evaluating a long document would be slow, the round trip of every well-formed document within the
  nesting limit decides the test.
\<close>

lemma round_trips:
  assumes "wf_doc doc" "length (doc_bytes doc) \<le> 2147483647" "nesting (B_Document doc) \<le> 20"
  shows "document_encode doc = Ok (doc_bytes doc)" "shallow (doc_bytes doc) = Ok doc" "deep (doc_bytes doc) = Ok doc"
    "from_bytes (doc_bytes doc) = Ok (doc_bytes doc)"
proof -
  show e: "document_encode doc = Ok (doc_bytes doc)" using document_encode_ok [OF assms(1,2)] by blast
  have "length (doc_bytes doc) < 4294967296" using assms(2) by linarith
  from deep_doc_bytes [OF assms(1) this] assms(3) show d: "deep (doc_bytes doc) = Ok doc" by simp
  with shallow_eq_deep show "shallow (doc_bytes doc) = Ok doc" by simp
  show "from_bytes (doc_bytes doc) = Ok (doc_bytes doc)" using e by (auto simp: document_encode_def andthen_eq_Ok from_bytes_Ok)
qed

lemma error_document_round_trip:
  assumes "to_error_response_doc (CommandError code name what) = Some d"
    and "wf_str name" "wf_str what" "length name + length what \<le> 1000"
  shows "document_encode d = Ok (doc_bytes d)" "shallow (doc_bytes d) = Ok d"
proof -
  have d: "d = [(''ok'', B_Double 0), (''errmsg'', B_String what), (''code'', B_Int32 code), (''codeName'', B_String name),
      (''$db'', B_String ''admin'')]"
    using assms(1) by (simp add: to_error_response_doc_def document_add_def document_new_def Let_def)
  have "wf_doc d" by (rule error_document_wf [OF assms(1)]) (simp add: error_ok_def assms(2,3))
  moreover have "length (doc_bytes d) \<le> 2147483647"
    using assms(4) unfolding d by (simp add: as_scalar_def scalar_bytes_def string_bytes_def named_def)
  moreover have "nesting (B_Document d) \<le> 20" unfolding d by simp
  ultimately show "document_encode d = Ok (doc_bytes d)" "shallow (doc_bytes d) = Ok d"
    using round_trips [of d] by blast+
qed

end
