(* ===== verification/Tests_Common.thy ===== *)
theory Tests_Common
  imports Tests_Base
begin

text \<open>
  The tests of \<open>mongo_common\<close>: \<open>io.rs\<close>, \<open>bson/scalar.rs\<close>, \<open>bson/convert.rs\<close> and \<open>auth/plain.rs\<close>.
\<close>

section \<open>Readers and writers\<close>

definition io_read_scalars :: bool where
  "io_read_scalars \<longleftrightarrow>
     unwrap_then (read_i32_le [0x01, 0x00, 0x00, 0x00, 0xff, 0x00]) (\<lambda>(i, r). i = 1
     \<and> unwrap_then (read_u8 r) (\<lambda>(b, r). b = 0xff \<and> remaining r = 1 \<and> read_i32_le r = Err (ShortInput 4 1)))"

definition io_read_cstring_ok_and_error :: bool where
  "io_read_cstring_ok_and_error \<longleftrightarrow>
     unwrap_then (read_cstring (as_bytes (''hello'' @ [NUL] @ ''world'' @ [NUL] @ ''rest''))) (\<lambda>(s, r). s = as_bytes ''hello''
     \<and> unwrap_then (read_cstring r) (\<lambda>(s, r). s = as_bytes ''world'' \<and> r = as_bytes ''rest'' \<and> is_err (read_cstring r)))"

definition io_peek_does_not_advance :: bool where
  "io_peek_does_not_advance \<longleftrightarrow> (let r = [7, 0, 0, 0, 9] in
     peek_i32_le r = Ok 7 \<and> remaining r = 5 \<and> unwrap_then (read_i32_le r) (\<lambda>(i, _). i = 7))"

definition io_write_scalars_and_patch :: bool where
  "io_write_scalars_and_patch \<longleftrightarrow> (case placeholder_i32 [] of (pos, w) \<Rightarrow>
     unwrap_then (put_cstring ''ab'' w) (\<lambda>w.
     put_i32_le_at pos 3 w = (Ok [3, 0, 0, 0, 97, 98, 0] :: (write_error, bytes) result)))"

definition io_write_cstring_rejects_nul :: bool where
  "io_write_cstring_rejects_nul \<longleftrightarrow> is_err (put_cstring (''a'' @ [NUL] @ ''b'') [])"

lemma io_tests: "io_read_scalars" "io_read_cstring_ok_and_error" "io_peek_does_not_advance"
  "io_write_scalars_and_patch" "io_write_cstring_rejects_nul"
  by code_simp+

section \<open>Scalars\<close>

definition scalar_cases :: "scalar list" where
  "scalar_cases =
     [S_Double 0x3FF8000000000000,
      S_String (str_of_bytes [0xD0, 0xBF, 0xD1, 0x80, 0xD0, 0xB8, 0xD0, 0xB2, 0xD0, 0xB5, 0xD1, 0x82]),
      S_Binary \<lparr>bin_subtype = Uuid, bin_bytes = [1, 2, 3]\<rparr>,
      S_Undefined,
      S_ObjectId (replicate 12 7),
      S_Bool True,
      S_DateTime (- 42),
      S_Null,
      S_Regex \<lparr>re_pattern = ''^a'', re_options = ''im''\<rparr>,
      S_DbPointer \<lparr>dbp_namespace = ''a.b'', dbp_id = replicate 12 9\<rparr>,
      S_JavaScript ''1 + 1'',
      S_Symbol ''sym'',
      S_Int32 (- 5),
      S_Timestamp \<lparr>ts_seconds = 123, ts_increment = 456\<rparr>,
      S_Int64 0x8000000000000000,
      S_Decimal128 (replicate 16 1),
      S_MinKey,
      S_MaxKey]"

definition scalar_roundtrip_scalars :: bool where
  "scalar_roundtrip_scalars \<longleftrightarrow> list_all (\<lambda>c.
     unwrap_then (encode_scalar c []) (\<lambda>(buf, n).
     unwrap_then (parse_scalar (tag_of c) buf) (\<lambda>(decoded, used). used = n \<and> decoded = c))) scalar_cases"

definition scalar_truncated_input_errors :: bool where
  "scalar_truncated_input_errors \<longleftrightarrow> unwrap_then (encode_scalar (S_String ''hello'') []) (\<lambda>(buf, _).
     list_all (\<lambda>n. is_err (parse_scalar TAG_STRING (take n buf))) [0..<length buf])"

definition scalar_composite_tags_rejected :: bool where
  "scalar_composite_tags_rejected \<longleftrightarrow>
     list_all (\<lambda>tag. is_err (parse_scalar tag (replicate 16 0))) [TAG_DOCUMENT, TAG_ARRAY, TAG_JAVASCRIPT_SCOPE]"

definition scalar_binary_old_subtype :: bool where
  "scalar_binary_old_subtype \<longleftrightarrow> (let input = to_le32 7 @ [0x02] @ to_le32 3 @ [1, 2, 3] in
     parse_scalar TAG_BINARY input = Ok (S_Binary \<lparr>bin_subtype = BinaryOld, bin_bytes = [1, 2, 3]\<rparr>, length input))"

definition scalar_wire_order_timestamp :: bool where
  "scalar_wire_order_timestamp \<longleftrightarrow>
     parse_scalar TAG_TIMESTAMP (to_le32 0xAA @ to_le32 0xBB) = Ok (S_Timestamp \<lparr>ts_seconds = 0xBB, ts_increment = 0xAA\<rparr>, 8)"

text \<open>
  The ids the test generates come from the clock and a random generator: \<open>generated\<close> are any two of them.
\<close>

definition object_id_hex_roundtrip_test :: "object_id list \<Rightarrow> bool" where
  "object_id_hex_roundtrip_test generated \<longleftrightarrow> (let hex = ''507f1f77bcf86cd799439011'';
       bytes = [0x50, 0x7f, 0x1f, 0x77, 0xbc, 0xf8, 0x6c, 0xd7, 0x99, 0x43, 0x90, 0x11] in
     to_hex bytes = hex \<and> from_hex hex = Ok bytes
     \<and> from_hex ''507F1F77BCF86CD799439011'' = Ok bytes
     \<and> list_all (\<lambda>oid. let hex = to_hex oid in length hex = 24
         \<and> list_all (\<lambda>c. c \<in> set ''0123456789abcdef'') hex
         \<and> from_hex hex = Ok oid
         \<and> unwrap_then (encode_scalar (S_ObjectId oid) []) (\<lambda>(buf, _). parse_scalar TAG_OBJECT_ID buf = Ok (S_ObjectId oid, 12)))
       generated)"

definition object_id_hex_errors :: bool where
  "object_id_hex_errors \<longleftrightarrow>
     from_hex ''507f1f77bcf86cd79943901'' = Err (SE_Invalid TAG_OBJECT_ID ''object id hex string must be 24 characters'')
     \<and> is_err (from_hex '''') \<and> is_err (from_hex ''507F1F77BCF86CD7994390110'')
     \<and> list_all (\<lambda>bad. from_hex bad = Err (SE_Invalid TAG_OBJECT_ID ''object id hex string contains a non-hex character''))
         [''507f1f77bcf86cd79943901g'', ''507f1f77bcf86cd79943901 '', ''z07f1f77bcf86cd799439011'', ''507f1f77bcf86cd79943901'' @ [CHR 0x01]]
     \<and> is_err (from_hex (str_of_bytes [0xD1, 0x80, 0xD0, 0xB0, 0xD0, 0xB7, 0xD1, 0x80, 0xD0, 0xB0, 0xD0, 0xB1, 0xD0, 0xBE, 0xD1, 0x82, 0xD0, 0xBA, 0xD0, 0xB0]))
     \<and> is_err (from_hex (''507f1f77bcf86cd79943901'' @ str_of_bytes [0xF0, 0x9F, 0x98, 0x80]))"

lemma scalar_tests: "scalar_roundtrip_scalars" "scalar_truncated_input_errors" "scalar_composite_tags_rejected"
  "scalar_binary_old_subtype" "scalar_wire_order_timestamp" "object_id_hex_errors"
  "object_id_hex_roundtrip_test [fst (object_id_new (Some 1700000000) [1, 2, 3, 4, 5] 7), fst (object_id_new None [250, 251, 252, 253, 254] 0xFFFFFFFF)]"
  by code_simp+

section \<open>Conversions\<close>

definition convert_narrowing_is_range_checked :: bool where
  "convert_narrowing_is_range_checked \<longleftrightarrow>
     int_try_from I8 (S_Int32 127) = Ok 127
     \<and> int_try_from I8 (S_Int32 128) = Err SE_OutOfRange
     \<and> int_try_from U8 (S_Int32 (- 1)) = Err SE_OutOfRange
     \<and> int_try_from I128 (S_Int64 (- 5)) = Ok (- 5)
     \<and> int_try_from U64 (S_Int64 (- 5)) = Err SE_OutOfRange"

definition convert_kind_mismatch :: bool where
  "convert_kind_mismatch \<longleftrightarrow> int_try_from I64 (S_String ''x'') = Err SE_NotConvertible
     \<and> bool_try_from (S_Int32 1) = Err SE_NotConvertible"

definition convert_int_from_double :: bool where
  "convert_int_from_double \<longleftrightarrow> int_try_from I64 (S_Double 0x4000000000000000) = Ok 2
     \<and> int_try_from I64 (S_Double 0x4004000000000000) = Err SE_NotConvertible"

definition convert_string_forms :: bool where
  "convert_string_forms \<longleftrightarrow> string_try_from (S_Symbol ''s'') = Ok ''s''"

definition convert_system_time_roundtrip :: bool where
  "convert_system_time_roundtrip \<longleftrightarrow> (let t = 123456 * 1000000 in
     unwrap_then (scalar_of_system_time t :: (scalar_error, scalar) result) (\<lambda>s. system_time_try_from s = Ok t))"

text \<open>
  A \<open>Uuid\<close> and a \<open>Decimal128\<close> of the third-party crates are taken to be their bytes; that the bit patterns are
  those the crate's own parser gives for their textual form is not part of the model.
\<close>

definition convert_uuid_roundtrip :: bool where
  "convert_uuid_roundtrip \<longleftrightarrow> (let u = replicate 16 0 in
     uuid_try_from (\<lambda>b. if length b = 16 then Some b else None) (scalar_of_uuid (\<lambda>u. u) u) = Ok u)"

definition decimal_cases :: "128 word list" where
  "decimal_cases = [0x22080000000000000000000000000001, 0x2207c000000000000000000000000015, 0xa207c000000000000000000000000015,
     0xa2080000000000000000000000000000, 0x22068000000000000000000000000001, 0xa2074000000000000000000000028e56,
     0x00000000000000000000000000000001, 0x43ffc000000000000000000000000001, 0x2608134b9c1e28e56f3c127177823534,
     0x78000000000000000000000000000000, 0xf8000000000000000000000000000000, 0x7c000000000000000000000000000000]"

definition scalar_from_bits :: "128 word \<Rightarrow> scalar" where
  "scalar_from_bits bits = S_Decimal128 (word_bytes bits)"

definition decimal_known_bit_patterns_roundtrip :: bool where
  "decimal_known_bit_patterns_roundtrip \<longleftrightarrow> list_all (\<lambda>bits.
     unwrap_then (decimal_try_from (\<lambda>b. b) (scalar_from_bits bits)) (\<lambda>d. d = word_bytes bits
     \<and> scalar_of_decimal (\<lambda>d. d) d = scalar_from_bits bits)) decimal_cases"

definition decimal_kind_mismatch :: bool where
  "decimal_kind_mismatch \<longleftrightarrow> list_all (\<lambda>s. decimal_try_from (\<lambda>b. b) s = Err SE_NotConvertible) [S_Int32 1, S_String ''1.5'', S_Null]"

lemma convert_tests: "convert_narrowing_is_range_checked" "convert_kind_mismatch" "convert_int_from_double" "convert_string_forms"
  "convert_system_time_roundtrip" "convert_uuid_roundtrip" "decimal_known_bit_patterns_roundtrip" "decimal_kind_mismatch"
  by code_simp+

section \<open>PLAIN\<close>

definition plain_roundtrip :: bool where
  "plain_roundtrip \<longleftrightarrow> (let bytes = build_client_payload [] ''user'' ''pwd'' in
     bytes = as_bytes ([NUL] @ ''user'' @ [NUL] @ ''pwd'')
     \<and> parse_client_payload bytes = Ok \<lparr>authz_id = [], authc_id = ''user'', plain_password = ''pwd''\<rparr>)"

definition plain_too_many_nuls_rejected :: bool where
  "plain_too_many_nuls_rejected \<longleftrightarrow>
     parse_client_payload (as_bytes (''a'' @ [NUL] @ ''b'' @ [NUL] @ ''c'' @ [NUL] @ ''d'')) = Err (AE_InvalidMessage ''expected two NUL separators'')"

definition plain_too_few_nuls_rejected :: bool where
  "plain_too_few_nuls_rejected \<longleftrightarrow>
     list_all (\<lambda>s. parse_client_payload (as_bytes s) = Err (AE_InvalidMessage ''expected two NUL separators'')) [''abc'', ''a'' @ [NUL] @ ''b'', []]"

definition plain_roundtrip_with_all_fields :: bool where
  "plain_roundtrip_with_all_fields \<longleftrightarrow> (let bytes = build_client_payload ''authz'' ''authc'' ''p@ss word'' in
     bytes = as_bytes (''authz'' @ [NUL] @ ''authc'' @ [NUL] @ ''p@ss word'')
     \<and> parse_client_payload bytes = Ok \<lparr>authz_id = ''authz'', authc_id = ''authc'', plain_password = ''p@ss word''\<rparr>)"

definition plain_empty_fields_are_allowed :: bool where
  "plain_empty_fields_are_allowed \<longleftrightarrow> parse_client_payload [0, 0] = Ok \<lparr>authz_id = [], authc_id = [], plain_password = []\<rparr>"

definition plain_invalid_utf8_rejected :: bool where
  "plain_invalid_utf8_rejected \<longleftrightarrow> parse_client_payload [97, 0, 98, 0, 0xff] = Err (AE_InvalidMessage ''payload is not valid UTF-8'')"

lemma plain_tests: "plain_roundtrip" "plain_too_many_nuls_rejected" "plain_too_few_nuls_rejected"
  "plain_roundtrip_with_all_fields" "plain_empty_fields_are_allowed" "plain_invalid_utf8_rejected"
  by code_simp+

end
