(* ===== verification/Tests_Document.thy ===== *)
theory Tests_Document
  imports Tests_Base
begin

text \<open>
  The tests of the value types of \<open>wirebson\<close>: \<open>document.rs\<close>, \<open>array.rs\<close> and the literal macros of \<open>macros.rs\<close>.
\<close>

section \<open>Documents and arrays\<close>

definition document_get_get_mut :: bool where
  "document_get_get_mut \<longleftrightarrow>
     (let doc = document_add ''a'' (B_Int32 2) (document_add ''b'' (B_String ''x'') (document_add ''a'' (B_Int32 1) document_new)) in
      document_get doc ''a'' = Some (B_Int32 1) \<and> document_get doc ''b'' = Some (B_String ''x'') \<and> document_get doc ''c'' = None
      \<and> (case document_get_mut doc ''b'' of
           Some (_, assign) \<Rightarrow> (let doc = assign (B_Int64 9) in document_get doc ''b'' = Some (B_Int64 9)
             \<and> (case document_get_mut doc ''c'' of None \<Rightarrow> True | _ \<Rightarrow> False))
         | None \<Rightarrow> False))"

definition document_remove_all_duplicates :: bool where
  "document_remove_all_duplicates \<longleftrightarrow>
     (let doc = document_add ''a'' (B_Int32 4) (document_add ''a'' (B_Int32 3) (document_add ''b'' (B_Int32 2) (document_add ''a'' (B_Int32 1) document_new)));
          (doc, first) = document_remove ''a'' doc in
      first = Some (B_Int32 1) \<and> document_len doc = 1 \<and> document_get doc ''a'' = None
      \<and> (let (doc, again) = document_remove ''a'' doc in again = None \<and> document_get doc ''b'' = Some (B_Int32 2)))"

definition document_replace_existing_or_append :: bool where
  "document_replace_existing_or_append \<longleftrightarrow>
     (let doc = document_replace ''a'' (B_String ''replaced'') (document_add ''a'' (B_Int32 1) document_new) in
      document_len doc = 1 \<and> document_get doc ''a'' = Some (B_String ''replaced'')
      \<and> (let doc = document_replace ''b'' (B_Int32 2) doc in
         document_len doc = 2 \<and> document_get doc ''b'' = Some (B_Int32 2) \<and> document_field_names doc = [''a'', ''b'']))"

definition document_command_and_iter :: bool where
  "document_command_and_iter \<longleftrightarrow> document_command document_new = None \<and> document_is_empty document_new
     \<and> (let doc = document_add ''other'' (B_Int32 2) (document_add ''insert'' (B_Int32 1) document_new) in
        document_command doc = Some ''insert'' \<and> doc = [(''insert'', B_Int32 1), (''other'', B_Int32 2)])"

definition document_encode_decode_roundtrip :: bool where
  "document_encode_decode_roundtrip \<longleftrightarrow>
     (let doc = document_add ''dup'' (B_Int32 2) (document_add ''dup'' (B_Int32 1)
            (document_add ''arr'' (B_Array [B_Bool True, B_Null]) (document_add ''hello'' (B_String ''world'') document_new))) in
      unwrap_then (document_encode doc) (\<lambda>raw. deep raw = Ok doc \<and> unwrap_then (deep raw) (\<lambda>d. document_encode d = Ok raw)))"

definition document_from_iterator_pairs :: bool where
  "document_from_iterator_pairs \<longleftrightarrow> (let doc = [(''a'', B_Int32 1), (''b'', B_String ''two'')] in
     document_len doc = 2 \<and> document_get doc ''a'' = Some (B_Int32 1) \<and> document_get doc ''b'' = Some (B_String ''two''))"

definition document_display_test :: "(nat \<Rightarrow> bool) \<Rightarrow> bool" where
  "document_display_test shown \<longleftrightarrow>
     document_display shown (document_add ''a'' (B_Int32 1) document_new) = Ok (''{'' @ [DQ] @ ''a'' @ [DQ] @ '': 1}'')"

lemma document_tests: "document_get_get_mut" "document_remove_all_duplicates" "document_replace_existing_or_append"
  "document_command_and_iter" "document_encode_decode_roundtrip" "document_from_iterator_pairs"
  by code_simp+

lemma document_display_passes: "document_display_test shown"
  by code_simp

definition array_push_iter_len :: bool where
  "array_push_iter_len \<longleftrightarrow> array_len array_new = 0
     \<and> (let arr = array_push B_Null (array_push (B_String ''two'') (array_push (B_Int32 1) array_new)) in
        array_len arr = 3 \<and> arr = [B_Int32 1, B_String ''two'', B_Null])"

definition array_encode_decode_roundtrip :: bool where
  "array_encode_decode_roundtrip \<longleftrightarrow>
     (let arr = array_push (B_Array [B_String ''inner'']) (array_push (B_Int32 (- 1)) array_new) in
      unwrap_then (array_encode arr) (\<lambda>raw. array_deep raw = Ok arr \<and> array_shallow raw = Ok arr
      \<and> unwrap_then (array_deep raw) (\<lambda>a. array_encode a = Ok raw)))"

definition array_display_test :: "(nat \<Rightarrow> bool) \<Rightarrow> bool" where
  "array_display_test shown \<longleftrightarrow> array_display shown [B_Int32 1, B_Null] = Ok ''[1, null]''"

lemma array_tests: "array_push_iter_len" "array_encode_decode_roundtrip" "array_display_test shown"
  by code_simp+

section \<open>Literal macros\<close>

text \<open>The tests of \<open>macros.rs\<close> as the tokens their macros receive; \<open>None\<close> would be a test that does not compile.\<close>

definition doc_then :: "token list \<Rightarrow> (document \<Rightarrow> bool) \<Rightarrow> bool" where
  "doc_then ts k \<longleftrightarrow> (case doc_macro ts of Some d \<Rightarrow> k d | None \<Rightarrow> False)"

definition arr_then :: "token list \<Rightarrow> (array \<Rightarrow> bool) \<Rightarrow> bool" where
  "arr_then ts k \<longleftrightarrow> (case arr_macro ts of Some a \<Rightarrow> k a | None \<Rightarrow> False)"

definition macro_doc_empty :: bool where
  "macro_doc_empty \<longleftrightarrow> doc_then [] (\<lambda>d. document_is_empty d \<and> d = document_new)"

definition macro_doc_int32_default :: bool where
  "macro_doc_int32_default \<longleftrightarrow> doc_then [T_literal ''n'', T_colon, T_expr (bson_from (N_i32 30))] (\<lambda>d. document_get d ''n'' = Some (B_Int32 30))"

definition macro_doc_int64_explicit :: bool where
  "macro_doc_int64_explicit \<longleftrightarrow> doc_then [T_literal ''n'', T_colon, T_expr (bson_from (N_i64 30))] (\<lambda>d. document_get d ''n'' = Some (B_Int64 30))"

definition macro_doc_double :: bool where
  "macro_doc_double \<longleftrightarrow> doc_then [T_literal ''r'', T_colon, T_expr (bson_from (N_f64 0x3FF4000000000000))]
     (\<lambda>d. document_get d ''r'' = Some (B_Double 0x3FF4000000000000))"

definition macro_doc_string :: bool where
  "macro_doc_string \<longleftrightarrow> doc_then [T_literal ''s'', T_colon, T_literal ''hi''] (\<lambda>d. document_get d ''s'' = Some (B_String ''hi''))"

definition macro_doc_bool :: bool where
  "macro_doc_bool \<longleftrightarrow> doc_then [T_literal ''on'', T_colon, T_expr (bson_from (N_bool True)), T_comma, T_literal ''off'', T_colon, T_expr (bson_from (N_bool False))]
     (\<lambda>d. document_get d ''on'' = Some (B_Bool True) \<and> document_get d ''off'' = Some (B_Bool False))"

definition macro_doc_null :: bool where
  "macro_doc_null \<longleftrightarrow> doc_then [T_literal ''x'', T_colon, T_null] (\<lambda>d. document_get d ''x'' = Some B_Null)"

definition macro_doc_min_max_keys :: bool where
  "macro_doc_min_max_keys \<longleftrightarrow> doc_then [T_literal ''lo'', T_colon, T_MIN_KEY, T_comma, T_literal ''hi'', T_colon, T_MAX_KEY]
     (\<lambda>d. document_get d ''lo'' = Some B_MinKey \<and> document_get d ''hi'' = Some B_MaxKey)"

definition macro_doc_nested :: bool where
  "macro_doc_nested \<longleftrightarrow>
     doc_then [T_literal ''name'', T_colon, T_literal ''x'', T_comma, T_literal ''v'', T_colon, T_expr (bson_from (N_i64 1))] (\<lambda>user.
     arr_then [T_literal ''a'', T_comma, T_literal ''b''] (\<lambda>tags.
     doc_then [T_literal ''user'', T_colon, T_expr (B_Document user), T_comma, T_literal ''tags'', T_colon, T_expr (B_Array tags), T_comma] (\<lambda>d.
       document_len d = 2
       \<and> (case document_get d ''user'' of Some (B_Document inner) \<Rightarrow>
             document_get inner ''name'' = Some (B_String ''x'') \<and> document_get inner ''v'' = Some (B_Int64 1) | _ \<Rightarrow> False)
       \<and> (case document_get d ''tags'' of Some (B_Array arr) \<Rightarrow> array_len arr = 2 \<and> arr ! 0 = B_String ''a'' | _ \<Rightarrow> False))))"

definition macro_doc_preserves_order :: bool where
  "macro_doc_preserves_order \<longleftrightarrow> doc_then [T_literal ''a'', T_colon, T_expr (B_Int32 1), T_comma, T_literal ''b'', T_colon, T_expr (B_Int32 2), T_comma,
       T_literal ''a'', T_colon, T_expr (B_Int32 3)]
     (\<lambda>d. document_field_names d = [''a'', ''b'', ''a''] \<and> document_get d ''a'' = Some (B_Int32 1))"

definition macro_doc_trailing_comma_ok :: bool where
  "macro_doc_trailing_comma_ok \<longleftrightarrow> doc_then [T_literal ''a'', T_colon, T_expr (B_Int32 1), T_comma, T_literal ''b'', T_colon, T_expr (B_Int32 2), T_comma]
     (\<lambda>d. document_len d = 2)"

definition macro_doc_expression_value :: bool where
  "macro_doc_expression_value \<longleftrightarrow> doc_then [T_literal ''v'', T_colon, T_expr (bson_from (N_i64 42)), T_comma, T_literal ''s'', T_colon, T_expr (bson_from (N_string ''dyn''))]
     (\<lambda>d. document_get d ''v'' = Some (B_Int64 42) \<and> document_get d ''s'' = Some (B_String ''dyn''))"

definition macro_doc_encode_decode_roundtrip :: bool where
  "macro_doc_encode_decode_roundtrip \<longleftrightarrow>
     arr_then [T_expr (B_Int32 1), T_comma, T_expr (B_Double 0x3FF4000000000000), T_comma, T_null, T_comma, T_MAX_KEY] (\<lambda>arr.
     doc_then [T_literal ''k'', T_colon, T_expr (B_Bool True)] (\<lambda>inner.
     doc_then [T_literal ''s'', T_colon, T_literal ''x'', T_comma, T_literal ''n'', T_colon, T_expr (B_Int32 7), T_comma,
       T_literal ''arr'', T_colon, T_expr (B_Array arr), T_comma, T_literal ''inner'', T_colon, T_expr (B_Document inner), T_comma] (\<lambda>d.
     unwrap_then (document_encode d) (\<lambda>raw. deep raw = Ok d))))"

definition macro_arr_empty :: bool where
  "macro_arr_empty \<longleftrightarrow> arr_then [] (\<lambda>a. array_len a = 0 \<and> a = array_new)"

definition macro_arr_scalars :: bool where
  "macro_arr_scalars \<longleftrightarrow> arr_then [T_expr (B_Int32 1), T_comma, T_expr (B_Double 0x3FF4000000000000), T_comma, T_literal ''three'', T_comma,
       T_expr (B_Bool True), T_comma, T_null, T_comma, T_MIN_KEY]
     (\<lambda>a. a = [B_Int32 1, B_Double 0x3FF4000000000000, B_String ''three'', B_Bool True, B_Null, B_MinKey])"

definition macro_arr_trailing_comma_ok :: bool where
  "macro_arr_trailing_comma_ok \<longleftrightarrow> arr_then [T_expr (B_Int32 1), T_comma, T_expr (B_Int32 2), T_comma, T_expr (B_Int32 3), T_comma] (\<lambda>a. array_len a = 3)"

definition macro_arr_nested :: bool where
  "macro_arr_nested \<longleftrightarrow> doc_then [T_literal ''k'', T_colon, T_expr (B_Int32 1)] (\<lambda>d. arr_then [T_expr (B_Int32 2), T_comma, T_expr (B_Int32 3)] (\<lambda>a.
     arr_then [T_expr (B_Int32 1), T_comma, T_expr (B_Document d), T_comma, T_expr (B_Array a)] (\<lambda>a. array_len a = 3)))"

definition macro_oid_string_literal :: bool where
  "macro_oid_string_literal \<longleftrightarrow> (let hex = ''507f1f77bcf86cd799439011'' in
     unwrap_then (oid_macro hex :: (scalar_error, bson) result) (\<lambda>v. unwrap_then (from_hex hex) (\<lambda>bytes.
       v = B_ObjectId bytes \<and> bytes ! 0 = 0x50 \<and> bytes ! 11 = 0x11)))"

definition macro_dt :: bool where
  "macro_dt \<longleftrightarrow> dt_macro 1234567890 = B_DateTime 1234567890 \<and> dt_macro 999 = B_DateTime 999"

lemma macro_tests: "macro_doc_empty" "macro_doc_int32_default" "macro_doc_int64_explicit" "macro_doc_double" "macro_doc_string" "macro_doc_bool"
  "macro_doc_null" "macro_doc_min_max_keys" "macro_doc_nested" "macro_doc_preserves_order" "macro_doc_trailing_comma_ok" "macro_doc_expression_value"
  "macro_doc_encode_decode_roundtrip" "macro_arr_empty" "macro_arr_scalars" "macro_arr_trailing_comma_ok" "macro_arr_nested"
  "macro_oid_string_literal" "macro_dt"
  by code_simp+

end
