(* ===== verification/Tests_Decode.thy ===== *)
theory Tests_Decode
  imports Tests_Base
begin

text \<open>
  The tests of the reading half of \<open>wirebson\<close>: \<open>decode.rs\<close> and \<open>raw.rs\<close>. The test of the nesting limit
  follows from the decoder's lemmas, the others by evaluation.
\<close>

section \<open>Decoding\<close>

definition decode_hello_world :: bool where
  "decode_hello_world \<longleftrightarrow> unwrap_then (decode_document HELLO Deep 1) (\<lambda>doc.
     document_len doc = 1 \<and> document_get doc ''hello'' = Some (B_String ''world'') \<and> decode_document HELLO Shallow 1 = Ok doc)"

definition decode_empty_document :: bool where
  "decode_empty_document \<longleftrightarrow> unwrap_then (decode_document [0x05, 0x00, 0x00, 0x00, 0x00] Deep 1) document_is_empty"

definition decode_array_names_ignored :: bool where
  "decode_array_names_ignored \<longleftrightarrow>
     decode_array (to_le32 14 @ [TAG_INT32, 48, 0x00] @ to_le32 1 @ [TAG_INT32, 55, 0x00] @ to_le32 2 @ [0x00]) Deep 1 = Ok [B_Int32 1, B_Int32 2]"

definition decode_duplicates_preserved :: bool where
  "decode_duplicates_preserved \<longleftrightarrow>
     unwrap_then (decode_document (to_le32 17 @ [TAG_INT32, 97, 0x00] @ to_le32 1 @ [TAG_INT32, 97, 0x00] @ to_le32 2 @ [0x00]) Deep 1) (\<lambda>doc.
     document_len doc = 2 \<and> document_get doc ''a'' = Some (B_Int32 1))"

definition decode_nested_composites :: bool where
  "decode_nested_composites \<longleftrightarrow> unwrap_then (document_encode [(''y'', B_Null)]) (\<lambda>scope. unwrap_then (from_bytes scope) (\<lambda>scope.
     let doc = [(''d'', B_Document [(''x'', B_Int32 1)]), (''a'', B_Array [B_String ''s'']), (''js'', B_JavaScriptScope ''1 + 1'' scope)] in
     unwrap_then (document_encode doc) (\<lambda>bytes. decode_document bytes Shallow 1 = Ok doc \<and> decode_document bytes Deep 1 = Ok doc)))"

definition decode_js_scope_length_mismatch :: bool where
  "decode_js_scope_length_mismatch \<longleftrightarrow> unwrap_then (document_encode [(''y'', B_Null)]) (\<lambda>scope.
     case placeholder_i32 [] of (pos, value) \<Rightarrow>
     unwrap_then (encode_scalar (S_String ''code'') value) (\<lambda>(value, _).
     let value = put_bytes scope value in
     unwrap_then (put_i32_le_at pos (word_of_nat (length value - pos + 1)) value :: (write_error, bytes) result) (\<lambda>value.
     let doc_bytes = to_le32 (word_of_nat (length value) + 8) @ [TAG_JAVASCRIPT_SCOPE, 99, 0x00] @ value @ [0x00] in
     (case decode_document doc_bytes Deep 1 of Err (BE_LengthMismatch _ _) \<Rightarrow> True | _ \<Rightarrow> False))))"

definition decode_premature_terminator_rejected :: bool where
  "decode_premature_terminator_rejected \<longleftrightarrow>
     (case decode_document (to_le32 10 @ [0x00] @ [0x2a, 0x00, 0x00, 0x00]) Deep 1 of Err (BE_InvalidInput _ _) \<Rightarrow> True | _ \<Rightarrow> False)"

definition decode_unknown_tag_rejected :: bool where
  "decode_unknown_tag_rejected \<longleftrightarrow>
     (case decode_document (to_le32 8 @ [0x42, 97, 0x00] @ [0x00]) Deep 1 of Err (BE_InvalidInput _ _) \<Rightarrow> True | _ \<Rightarrow> False)"

definition decode_truncated_fields_error :: bool where
  "decode_truncated_fields_error \<longleftrightarrow> (let bytes = to_le32 16 @ [TAG_DOCUMENT, 100, 0x00] @ to_le32 64 @ to_le32 5 @ [0x00] in
     list_all (\<lambda>n. is_err (decode_document (take n bytes) Deep 1)) [0..<length bytes] \<and> is_err (decode_document bytes Deep 1))"

definition nest :: "nat \<Rightarrow> document" where
  "nest n = ((\<lambda>doc. [(''f'', B_Document doc)]) ^^ n) [(''v'', B_Int32 42)]"

definition decode_depth_guard_boundary :: bool where
  "decode_depth_guard_boundary \<longleftrightarrow>
     unwrap_then (document_encode (nest 19)) (\<lambda>ok. unwrap_then (decode_document ok Deep 1) (\<lambda>_. True))
     \<and> unwrap_then (document_encode (nest 20)) (\<lambda>too_deep.
         decode_document too_deep Deep 1 = Err (BE_NestedTooDeep MAX_NESTING_DEPTH)
         \<and> decode_document too_deep Shallow 1 = Err (BE_NestedTooDeep MAX_NESTING_DEPTH))"

definition decode_scalar_cases :: "scalar list" where
  "decode_scalar_cases =
     [S_Double 0x404510A3D70A3D71,
      S_String (str_of_bytes [0xD0, 0xBF, 0xD1, 0x80, 0xD0, 0xB8, 0xD0, 0xB2, 0xD0, 0xB5, 0xD1, 0x82]),
      S_Binary \<lparr>bin_subtype = Generic, bin_bytes = [1, 2, 3]\<rparr>,
      S_Binary \<lparr>bin_subtype = BinaryOld, bin_bytes = replicate 7 9\<rparr>,
      S_Binary \<lparr>bin_subtype = Uuid, bin_bytes = []\<rparr>,
      S_Binary \<lparr>bin_subtype = UserDefined 0x80, bin_bytes = [0x42]\<rparr>,
      S_Undefined, S_ObjectId (replicate 12 7), S_Bool True, S_DateTime (- 42), S_Null,
      S_Regex \<lparr>re_pattern = ''^a'', re_options = ''im''\<rparr>,
      S_DbPointer \<lparr>dbp_namespace = ''a.b'', dbp_id = replicate 12 9\<rparr>,
      S_JavaScript ''1 + 1'', S_Symbol ''sym'', S_Int32 (- 5),
      S_Timestamp \<lparr>ts_seconds = 123, ts_increment = 456\<rparr>,
      S_Int64 0x8000000000000000, S_Decimal128 (replicate 16 1), S_MinKey, S_MaxKey]"

definition decode_scalar_parsing_matches :: bool where
  "decode_scalar_parsing_matches \<longleftrightarrow> list_all (\<lambda>c.
     unwrap_then (encode_scalar c []) (\<lambda>(buf, _).
     unwrap_then (parse_scalar (tag_of c) buf) (\<lambda>(expected, expected_len).
     unwrap_then (parse_value (tag_of c) buf buf 0) (\<lambda>(actual, actual_len).
       actual_len = expected_len \<and> to_bson actual = Ok (bson_of_scalar expected))))) decode_scalar_cases"

definition decode_spec_convention_binary :: bool where
  "decode_spec_convention_binary \<longleftrightarrow> (let buf = [4, 0, 0, 0, 0x00, 1, 2, 3] in is_err (parse_value TAG_BINARY buf buf 0))"

lemma decode_tests: "decode_hello_world" "decode_empty_document" "decode_array_names_ignored" "decode_duplicates_preserved"
  "decode_nested_composites" "decode_js_scope_length_mismatch" "decode_premature_terminator_rejected" "decode_unknown_tag_rejected"
  "decode_truncated_fields_error" "decode_scalar_parsing_matches" "decode_spec_convention_binary"
  by code_simp+

lemma nest_facts: "wf_doc (nest n)" "nesting (B_Document (nest n)) = Suc n" "length (doc_bytes (nest n)) = 12 + 8 * n"
proof -
  have s: "nest (Suc n) = [(''f'', B_Document (nest n))]" for n by (simp add: nest_def)
  have z: "nest 0 = [(''v'', B_Int32 42)]" by (simp add: nest_def)
  show "wf_doc (nest n)" by (induction n) (simp_all add: s z as_scalar_def scalar_ok_def eval_simps)
  show "nesting (B_Document (nest n)) = Suc n" by (induction n) (simp_all add: s z)
  show "length (doc_bytes (nest n)) = 12 + 8 * n" by (induction n) (simp_all add: s z as_scalar_def scalar_bytes_def)
qed

lemma decode_depth_test: "decode_depth_guard_boundary"
proof -
  have e: "document_encode (nest n) = Ok (doc_bytes (nest n))" if "n \<le> 20" for n
  proof -
    have "length (doc_bytes (nest n)) \<le> 2147483647" using nest_facts(3) [of n] that by linarith
    from document_encode_layout [OF nest_facts(1), of n, unfolded if_P [OF this]] show ?thesis .
  qed
  have d: "deep (doc_bytes (nest n)) = (if n < 20 then Ok (nest n) else Err (BE_NestedTooDeep 20))" if "n \<le> 20" for n
  proof -
    have "length (doc_bytes (nest n)) < 4294967296" using nest_facts(3) [of n] that by linarith
    from deep_doc_bytes [OF nest_facts(1) this] show ?thesis unfolding nest_facts(2) by (simp add: Suc_le_eq)
  qed
  show ?thesis
    using d [of 19] d [of 20] shallow_eq_deep [of "doc_bytes (nest 20)"]
    by (simp add: decode_depth_guard_boundary_def e deep_def shallow_def del: bson_bytes.simps)
qed

section \<open>Raw documents\<close>

definition raw_accepts_canonical_document :: bool where
  "raw_accepts_canonical_document \<longleftrightarrow> unwrap_then (from_bytes HELLO) (\<lambda>raw. length raw = 0x16 \<and> raw = HELLO)"

definition raw_short_input :: bool where
  "raw_short_input \<longleftrightarrow> list_all (\<lambda>n. from_bytes (take n HELLO) = Err (BE_ShortInput MIN_DOC_LEN n)) [0..<MIN_DOC_LEN]"

definition raw_length_mismatch :: bool where
  "raw_length_mismatch \<longleftrightarrow> from_bytes (HELLO @ [0xaa]) = Err (BE_LengthMismatch 0x16 0x17)
     \<and> from_bytes (take 0x15 HELLO) = Err (BE_LengthMismatch 0x16 0x15)
     \<and> from_bytes (HELLO[0 := 0x15]) = Err (BE_LengthMismatch 0x15 0x16)"

definition raw_missing_nul_and_tiny_declared :: bool where
  "raw_missing_nul_and_tiny_declared \<longleftrightarrow>
     (let last = length HELLO - 1 in case from_bytes (HELLO[last := 0x01]) of Err (BE_InvalidInput offset _) \<Rightarrow> offset = last | _ \<Rightarrow> False)
     \<and> (case from_bytes ((replicate 8 0x00)[0 := 0x04]) of Err (BE_InvalidInput offset _) \<Rightarrow> offset = 0 | _ \<Rightarrow> False)"

definition raw_shallow_and_deep_agree :: bool where
  "raw_shallow_and_deep_agree \<longleftrightarrow> unwrap_then (from_bytes HELLO) (\<lambda>raw.
     unwrap_then (shallow raw) (\<lambda>d. deep raw = Ok d)
     \<and> unwrap_then (raw_get raw ''hello'') (\<lambda>v. case v of Some v \<Rightarrow> to_bson v = Ok (B_String ''world'') | None \<Rightarrow> False))"

definition raw_get_first_duplicate :: bool where
  "raw_get_first_duplicate \<longleftrightarrow> unwrap_then (document_encode [(''a'', B_Int32 1), (''a'', B_Int32 2), (''b'', B_Int32 3)]) (\<lambda>raw.
     unwrap_then (raw_get raw ''a'') (\<lambda>v. case v of Some v \<Rightarrow> to_bson v = Ok (B_Int32 1) | None \<Rightarrow> False)
     \<and> unwrap_then (raw_get raw ''b'') (\<lambda>v. case v of Some v \<Rightarrow> to_bson v = Ok (B_Int32 3) | None \<Rightarrow> False)
     \<and> raw_get raw ''c'' = Ok None)"

text \<open>\<open>n\<close> calls of \<open>next\<close> on the iterator over the fields.\<close>

fun fields_take :: "nat \<Rightarrow> fields_iter \<Rightarrow> (bson_error, (bson_error, string \<times> raw_bson) result option list) result" where
  "fields_take 0 it = Ok []"
| "fields_take (Suc n) it = andthen (fields_iter_next it) (\<lambda>(item, it). andthen (fields_take n it) (\<lambda>items. Ok (item # items)))"

definition raw_fields_iterates_in_order :: bool where
  "raw_fields_iterates_in_order \<longleftrightarrow> unwrap_then (document_encode [(''one'', B_Int32 1), (''two'', B_String ''two''), (''three'', B_Bool True)]) (\<lambda>raw.
     fields_take 5 (raw_fields raw) = Ok [Some (Ok (''one'', R_Int32 1)), Some (Ok (''two'', R_String ''two'')), Some (Ok (''three'', R_Bool True)), None, None])"

definition raw_fields_error_on_malformed :: bool where
  "raw_fields_error_on_malformed \<longleftrightarrow> unwrap_then (from_bytes (to_le32 16 @ [0x03, 100, 0x00] @ to_le32 64 @ to_le32 5 @ [0x00])) (\<lambda>raw.
     unwrap_then (fields_iter_next (raw_fields raw)) (\<lambda>(item, _). case item of Some r \<Rightarrow> is_err r | None \<Rightarrow> False))"

definition raw_command_names :: bool where
  "raw_command_names \<longleftrightarrow> unwrap_then (from_bytes HELLO) (\<lambda>raw. raw_command raw = Ok ''hello'')
     \<and> unwrap_then (from_bytes [5, 0, 0, 0, 0]) (\<lambda>raw. raw_command raw = Ok [])
     \<and> unwrap_then (from_bytes (to_le32 9 @ [0x0a, 0xff, 0xfe, 0x00] @ [0x00])) (\<lambda>raw. raw_command raw = Err BE_Utf8)"

definition raw_array_roundtrip :: bool where
  "raw_array_roundtrip \<longleftrightarrow> (let arr = [B_Int32 7, B_Null] in
     unwrap_then (array_encode arr) (\<lambda>raw. unwrap_then (array_from_bytes raw) (\<lambda>raw.
     array_shallow raw = Ok arr \<and> array_deep raw = Ok arr \<and> length raw = 4 + 7 + 3 + 1)))"

definition raw_display :: "(nat \<Rightarrow> bool) \<Rightarrow> bool" where
  "raw_display shown \<longleftrightarrow> unwrap_then (document_encode [(''hello'', B_String ''world''), (''n'', B_Int32 42)]) (\<lambda>raw.
     raw_document_display shown raw False
       = Ok (''{'' @ [DQ] @ ''hello'' @ [DQ] @ '': '' @ [DQ] @ ''world'' @ [DQ] @ '', '' @ [DQ] @ ''n'' @ [DQ] @ '': 42}'')
     \<and> raw_document_display shown raw True
       = Ok (''{'' @ [LF] @ ''  '' @ [DQ] @ ''hello'' @ [DQ] @ '': '' @ [DQ] @ ''world'' @ [DQ] @ '','' @ [LF]
             @ ''  '' @ [DQ] @ ''n'' @ [DQ] @ '': 42,'' @ [LF] @ ''}''))"

lemma raw_tests: "raw_accepts_canonical_document" "raw_short_input" "raw_length_mismatch" "raw_missing_nul_and_tiny_declared"
  "raw_shallow_and_deep_agree" "raw_get_first_duplicate" "raw_fields_iterates_in_order" "raw_fields_error_on_malformed"
  "raw_command_names" "raw_array_roundtrip" "raw_display shown"
  by code_simp+

end
