(* ===== verification/Tests_Encode.thy ===== *)
theory Tests_Encode
  imports Tests_Base
begin

text \<open>
  The tests of the writing half of \<open>wirebson\<close>: \<open>encode.rs\<close>, its property-based round trip, and the log
  format of \<open>logging.rs\<close>.
\<close>

section \<open>Encoding\<close>

definition encode_hello_world_byte_exact :: bool where
  "encode_hello_world_byte_exact \<longleftrightarrow> document_encode (document_add ''hello'' (B_String ''world'') document_new) = Ok HELLO"

definition encode_empty_document :: bool where
  "encode_empty_document \<longleftrightarrow> document_encode document_new = Ok [5, 0, 0, 0, 0]"

definition encode_array_keys :: bool where
  "encode_array_keys \<longleftrightarrow>
     encode_array [B_Int32 7, B_Null] [] = Ok (to_le32 15 @ [0x10, 48, 0x00] @ to_le32 7 @ [0x0a, 49, 0x00] @ [0x00])"

definition encode_rejects_interior_nul :: bool where
  "encode_rejects_interior_nul \<longleftrightarrow>
     (case document_encode [(''a'' @ [NUL] @ ''b'', B_Int32 1)] of Err (BE_InvalidInput _ reason) \<Rightarrow>
        list_ex (\<lambda>n. take 10 (drop n reason) = ''field name'') [0..<length reason] | _ \<Rightarrow> False)
     \<and> (let doc = document_add ''bad'' (B_String (''va'' @ [NUL] @ ''lue'')) document_new in
        unwrap_then (document_encode doc) (\<lambda>raw. deep raw = Ok doc \<and> unwrap_then (deep raw) (\<lambda>d. document_encode d = Ok raw)))"

definition every_variant :: "raw_document \<Rightarrow> document" where
  "every_variant scope =
     [(''double'', B_Double 0x404510A3D70A3D71),
      (''double_neg_zero'', B_Double 0x8000000000000000),
      (''string'', B_String (str_of_bytes [0xD0, 0xBF, 0xD1, 0x80, 0xD0, 0xB8, 0xD0, 0xB2, 0xD0, 0xB5, 0xD1, 0x82])),
      (''document'', B_Document [(''x'', B_MinKey)]),
      (''array'', B_Array [B_Null, B_Int32 1])]
     @ map (\<lambda>(name, subtype). (name, B_Binary \<lparr>bin_subtype = subtype, bin_bytes = [0x0a, 0x0b, 0x0c]\<rparr>))
         [(''binary_generic'', Generic), (''binary_function'', Function), (''binary_old'', BinaryOld), (''binary_uuid_old'', UuidOld),
          (''binary_uuid'', Uuid), (''binary_md5'', Md5), (''binary_encrypted'', Encrypted), (''binary_user'', UserDefined 0x80)]
     @ [(''undefined'', B_Undefined),
      (''object_id'', B_ObjectId (replicate 12 1)),
      (''bool'', B_Bool True),
      (''datetime'', B_DateTime (- 42)),
      (''null'', B_Null),
      (''regex'', B_Regex \<lparr>re_pattern = ''^a'', re_options = ''im''\<rparr>),
      (''db_pointer'', B_DbPointer \<lparr>dbp_namespace = ''a.b'', dbp_id = replicate 12 2\<rparr>),
      (''javascript'', B_JavaScript ''1 + 1''),
      (''symbol'', B_Symbol ''sym''),
      (''javascript_scope'', B_JavaScriptScope ''code()'' scope),
      (''int32'', B_Int32 0x80000000),
      (''timestamp'', B_Timestamp \<lparr>ts_seconds = 0x11223344, ts_increment = 0x55667788\<rparr>),
      (''int64'', B_Int64 0x7FFFFFFFFFFFFFFF),
      (''decimal128'', B_Decimal128 [1, 2, 3, 4, 5, 6, 7, 8, 9, 10, 11, 12, 13, 14, 15, 16]),
      (''min_key'', B_MinKey),
      (''max_key'', B_MaxKey)]"

definition encode_roundtrip_every_variant :: bool where
  "encode_roundtrip_every_variant \<longleftrightarrow> unwrap_then (document_encode [(''scope'', B_Bool True)]) (\<lambda>scope.
     let doc = every_variant scope in
     unwrap_then (document_encode doc) (\<lambda>raw. shallow raw = Ok doc \<and> deep raw = Ok doc
     \<and> unwrap_then (shallow raw) (\<lambda>d. document_encode d = Ok raw) \<and> unwrap_then (deep raw) (\<lambda>d. document_encode d = Ok raw)))"

definition encode_binary_old_layout :: bool where
  "encode_binary_old_layout \<longleftrightarrow> (let b = B_Binary \<lparr>bin_subtype = BinaryOld, bin_bytes = [1, 2, 3]\<rparr> in
     unwrap_then (document_encode (document_add ''b'' b document_new)) (\<lambda>bytes.
       bytes = to_le32 20 @ [0x05, 98, 0x00] @ to_le32 7 @ [0x02] @ to_le32 3 @ [1, 2, 3] @ [0x00]
       \<and> unwrap_then (deep bytes) (\<lambda>d. document_get d ''b'' = Some b)))"

definition encode_truncation_never_panics :: bool where
  "encode_truncation_never_panics \<longleftrightarrow>
     unwrap_then (document_encode [(''d'', B_Document [(''x'', B_Int32 1)]), (''a'', B_Array [B_Null])]) (\<lambda>bytes.
     list_all (\<lambda>n. is_err (from_bytes (take n bytes))) [0..<length bytes])"

lemma encode_tests: "encode_hello_world_byte_exact" "encode_empty_document" "encode_array_keys" "encode_rejects_interior_nul"
  "encode_binary_old_layout" "encode_truncation_never_panics"
  by code_simp+

text \<open>
  The property-based test asks for every document of its strategy what holds for every well-formed
  document within the nesting limit: encoding, decoding in either mode and encoding again gives the same bytes.
\<close>

definition encode_decode_byte_stable :: "document \<Rightarrow> bool" where
  "encode_decode_byte_stable doc \<longleftrightarrow> unwrap_then (document_encode doc) (\<lambda>bytes. unwrap_then (from_bytes bytes) (\<lambda>raw.
     unwrap_then (shallow raw) (\<lambda>d. document_encode d = Ok bytes) \<and> unwrap_then (deep raw) (\<lambda>d. document_encode d = Ok bytes)))"

theorem byte_stable:
  assumes "wf_doc doc" and "length (doc_bytes doc) \<le> 2147483647" and "nesting (B_Document doc) \<le> 20"
  shows "encode_decode_byte_stable doc"
  using round_trips [OF assms] by (simp add: encode_decode_byte_stable_def del: bson_bytes.simps nesting.simps)

lemma encode_every_variant_passes: "encode_roundtrip_every_variant"
proof -
  let ?scope = "[13, 0, 0, 0, 8, 115, 99, 111, 112, 101, 0, 1, 0]"
  have scope: "document_encode [(''scope'', B_Bool True)] = Ok ?scope" by code_simp
  have wf: "wf_doc (every_variant ?scope)" by code_simp
  have len: "length (doc_bytes (every_variant ?scope)) \<le> 2147483647"
    unfolding every_variant_def
    by (simp add: as_scalar_def scalar_bytes_def string_bytes_def named_def show_nat.simps [of 0] show_nat.simps [of "Suc 0"] eval_simps)
  have nest: "nesting (B_Document (every_variant ?scope)) \<le> 20" unfolding every_variant_def by simp
  from round_trips [OF wf len nest] show ?thesis
    by (simp add: encode_roundtrip_every_variant_def scope Let_def del: bson_bytes.simps)
qed

section \<open>Log formatting\<close>

definition log_compact :: "(nat \<Rightarrow> bool) \<Rightarrow> bool" where
  "log_compact shown \<longleftrightarrow>
     log_document shown [(''hello'', B_String ''world''), (''n'', B_Int32 42), (''arr'', B_Array [B_Int32 1, B_Null]),
       (''empty_doc'', B_Document []), (''empty_arr'', B_Array [])] False
     = Ok (''{'' @ [DQ] @ ''hello'' @ [DQ] @ '': '' @ [DQ] @ ''world'' @ [DQ] @ '', '' @ [DQ] @ ''n'' @ [DQ] @ '': 42, ''
         @ [DQ] @ ''arr'' @ [DQ] @ '': [1, null], '' @ [DQ] @ ''empty_doc'' @ [DQ] @ '': {}, '' @ [DQ] @ ''empty_arr'' @ [DQ] @ '': []}'')"

definition log_indent :: "(nat \<Rightarrow> bool) \<Rightarrow> bool" where
  "log_indent shown \<longleftrightarrow>
     log_document shown [(''a'', B_Int32 1), (''d'', B_Document [(''b'', B_Bool True)])] True
     = Ok (''{'' @ [LF] @ ''  '' @ [DQ] @ ''a'' @ [DQ] @ '': 1,'' @ [LF] @ ''  '' @ [DQ] @ ''d'' @ [DQ] @ '': {'' @ [LF]
         @ ''    '' @ [DQ] @ ''b'' @ [DQ] @ '': true,'' @ [LF] @ ''  },'' @ [LF] @ ''}'')"

definition log_js_scope_and_binary :: "(nat \<Rightarrow> bool) \<Rightarrow> bool" where
  "log_js_scope_and_binary shown \<longleftrightarrow> unwrap_then (document_encode document_new) (\<lambda>scope.
     log_document shown [(''js'', B_JavaScriptScope ''1'' scope),
       (''b'', B_Binary \<lparr>bin_subtype = UserDefined 0x80, bin_bytes = as_bytes ''hi''\<rparr>), (''sym'', B_Symbol ''s'')] False
     = Ok (''{'' @ [DQ] @ ''js'' @ [DQ] @ '': JavaScriptScope({code: '' @ [DQ] @ ''1'' @ [DQ] @ '', scope: RawDocument<5>}), ''
         @ [DQ] @ ''b'' @ [DQ] @ '': Binary(user:aGk=), '' @ [DQ] @ ''sym'' @ [DQ] @ '': Symbol('' @ [DQ] @ ''s'' @ [DQ] @ '')}''))"

lemma log_tests: "log_compact shown" "log_indent shown" "log_js_scope_and_binary shown"
  by code_simp+

end
