(* ===== verification/Tests_Wire.thy ===== *)
theory Tests_Wire
  imports Tests_Base
begin

text \<open>
  The tests of \<open>messages/header.rs\<close>, \<open>error.rs\<close> and \<open>messages/op_query.rs\<close>. The tests that try every
  prefix of a body are left to the theorems that parsing never panics.
\<close>

section \<open>Headers\<close>

definition header_test_bytes :: "i32 \<Rightarrow> i32 \<Rightarrow> i32 \<Rightarrow> i32 \<Rightarrow> bytes" where
  "header_test_bytes len rid rto op = to_le32 len @ to_le32 rid @ to_le32 rto @ to_le32 op"

definition is_invalid_header :: "(protocol_error, 'a) result \<Rightarrow> bool" where
  "is_invalid_header r \<longleftrightarrow> (case r of Err (PE_InvalidHeader _) \<Rightarrow> True | _ \<Rightarrow> False)"

definition header_parse_happy_path :: bool where
  "header_parse_happy_path \<longleftrightarrow>
     header_parse (header_test_bytes 372 1 0 2004) 0x100000
       = Ok \<lparr>message_length = 372, request_id = 1, response_to = 0, op_code = Query\<rparr>"

definition header_short_case :: "nat \<Rightarrow> bool" where
  "header_short_case n \<longleftrightarrow> is_invalid_header (header_parse (take n (header_test_bytes 372 1 0 2004)) MAX_MSG_LEN)"

definition header_parse_short_buffer :: bool where
  "header_parse_short_buffer \<longleftrightarrow> list_all header_short_case [0..<MSG_HEADER_LEN]"

definition header_below_case :: "i32 \<Rightarrow> bool" where
  "header_below_case len \<longleftrightarrow>
     header_parse (header_test_bytes len 1 0 2004) MAX_MSG_LEN = Err (PE_InvalidHeader ''length below header size'')"

definition header_parse_length_below_header_size :: bool where
  "header_parse_length_below_header_size \<longleftrightarrow> list_all header_below_case [0, 1, 15]
     \<and> is_invalid_header (header_parse (header_test_bytes (- 1) 1 0 2004) MAX_MSG_LEN)"

definition header_parse_length_above_max :: bool where
  "header_parse_length_above_max \<longleftrightarrow>
     header_parse (header_test_bytes 2000 1 0 2004) 1000 = Err (PE_MessageTooLarge 2000 1000)
     \<and> (case header_parse (header_test_bytes (MAX_MSG_LEN + 1) 1 0 2004) MAX_MSG_LEN of
          Err (PE_MessageTooLarge _ _) \<Rightarrow> True | _ \<Rightarrow> False)"

definition header_parse_unknown_opcode :: bool where
  "header_parse_unknown_opcode \<longleftrightarrow> header_parse (header_test_bytes 16 1 0 42) MAX_MSG_LEN = Err (PE_UnsupportedOpcode 42)"

definition all_opcodes :: "opcode list" where
  "all_opcodes = [Reply, Update, Insert, Reserved, Query, GetMore, Delete, KillCursors, Compressed, Msg]"

definition header_roundtrip_case :: "opcode \<Rightarrow> bool" where
  "header_roundtrip_case op \<longleftrightarrow>
     (let h = \<lparr>message_length = of_nat MSG_HEADER_LEN, request_id = 7, response_to = 9, op_code = op\<rparr>; out = header_encode h [] in
      length out = MSG_HEADER_LEN
      \<and> header_parse out MAX_MSG_LEN = Ok \<lparr>message_length = of_nat MSG_HEADER_LEN, request_id = 7, response_to = 9, op_code = op\<rparr>)"

definition header_encode_parse_roundtrip :: bool where
  "header_encode_parse_roundtrip \<longleftrightarrow> list_all header_roundtrip_case all_opcodes"

definition opcode_value_case :: "opcode \<Rightarrow> bool" where
  "opcode_value_case op \<longleftrightarrow> opcode_from_i32 (opcode_to_i32 op) = Some op"

definition header_opcode_wire_values :: bool where
  "header_opcode_wire_values \<longleftrightarrow> list_all opcode_value_case all_opcodes
     \<and> opcode_from_i32 42 = None \<and> opcode_from_i32 0 = None \<and> opcode_from_i32 2003 = Some Reserved"

lemma header_tests: "header_parse_happy_path" "header_parse_short_buffer" "header_parse_length_below_header_size"
  "header_parse_length_above_max" "header_parse_unknown_opcode" "header_encode_parse_roundtrip" "header_opcode_wire_values"
  by code_simp+

section \<open>Error replies\<close>

definition error_command_maps_to_response_doc :: bool where
  "error_command_maps_to_response_doc \<longleftrightarrow>
     (case to_error_response_doc (CommandError 18 ''AuthenticationFailed'' ''nope'') of
        Some doc \<Rightarrow> document_get doc ''ok'' = Some (B_Double 0) \<and> document_get doc ''errmsg'' = Some (B_String ''nope'')
          \<and> document_get doc ''code'' = Some (B_Int32 18) \<and> document_get doc ''codeName'' = Some (B_String ''AuthenticationFailed'')
          \<and> document_get doc ''$db'' = Some (B_String ''admin'')
      | None \<Rightarrow> False)"

definition error_protocol_has_no_response_doc :: bool where
  "error_protocol_has_no_response_doc \<longleftrightarrow> to_error_response_doc (Protocol (PE_UnsupportedOpcode 42)) = None"

definition error_response_doc_encodes_and_reparses :: bool where
  "error_response_doc_encodes_and_reparses \<longleftrightarrow>
     (case to_error_response_doc (CommandError 59 ''CommandNotFound'' ''unknown command'') of
        Some doc \<Rightarrow> unwrap_then (document_encode doc) (\<lambda>raw. raw_command raw = Ok ''ok''
          \<and> unwrap_then (shallow raw) (\<lambda>doc. document_get doc ''code'' = Some (B_Int32 59)))
      | None \<Rightarrow> False)"

lemma error_tests: "error_command_maps_to_response_doc" "error_protocol_has_no_response_doc"
  by code_simp+

lemma error_reparse: "error_response_doc_encodes_and_reparses"
proof -
  obtain d where d: "to_error_response_doc (CommandError 59 ''CommandNotFound'' ''unknown command'') = Some d"
    and get: "document_get d ''code'' = Some (B_Int32 59)" "document_command d = Some ''ok''"
    by (simp add: to_error_response_doc_def document_add_def document_new_def document_get_def document_command_def Let_def)
  from error_document_round_trip [OF d] have e: "document_encode d = Ok (doc_bytes d)" "shallow (doc_bytes d) = Ok d"
    by (simp_all add: eval_simps)
  then have "deep (doc_bytes d) = Ok d" using shallow_eq_deep by simp
  from raw_command_decoded [OF this] e d get show ?thesis
    by (simp add: error_response_doc_encodes_and_reparses_def del: bson_bytes.simps)
qed

section \<open>OP_QUERY\<close>

definition query_roundtrips :: "op_query \<Rightarrow> bool" where
  "query_roundtrips q \<longleftrightarrow> unwrap_then (op_query_encode_body q []) (\<lambda>body.
     op_query_body_len q = length body \<and> op_query_parse_body body = Ok q)"

definition query_roundtrip_query_only :: bool where
  "query_roundtrip_query_only \<longleftrightarrow>
     unwrap_then (document_encode [(''isMaster'', B_Bool True), (''$db'', B_String ''admin'')]) (\<lambda>raw.
     query_roundtrips \<lparr>query_flags = 4 OR 64, full_collection_name = ''admin.$cmd'', number_to_skip = 0, number_to_return = - 1,
       query_doc = raw, return_fields_selector = None\<rparr>)"

definition query_roundtrip_with_selector :: bool where
  "query_roundtrip_with_selector \<longleftrightarrow>
     unwrap_then (document_encode [(''find'', B_String ''coll''), (''limit'', B_Int32 10)]) (\<lambda>raw.
     unwrap_then (document_encode [(''_id'', B_Int32 1), (''name'', B_Int32 1)]) (\<lambda>selector.
     query_roundtrips \<lparr>query_flags = 0, full_collection_name = ''db.coll'', number_to_skip = 3, number_to_return = 10,
       query_doc = raw, return_fields_selector = Some selector\<rparr>))"

definition query_flags_roundtrip_and_truncation :: bool where
  "query_flags_roundtrip_and_truncation \<longleftrightarrow> unwrap_then (document_encode [(''isMaster'', B_Int32 1)]) (\<lambda>raw.
     unwrap_then (op_query_encode_body ((op_query_handshake raw)\<lparr>query_flags := QUERY_FLAGS_ALL\<rparr>) []) (\<lambda>body.
       unwrap_then (op_query_parse_body body) (\<lambda>q. query_flags q = QUERY_FLAGS_ALL))
     \<and> unwrap_then (put_cstring ''admin.$cmd'' (put_i32_le (4 OR 0x40000000) [])) (\<lambda>buf.
         unwrap_then (op_query_parse_body (put_bytes raw (put_i32_le (- 1) (put_i32_le 0 buf)))) (\<lambda>parsed. query_flags parsed = 4)))"

definition query_parse_rejects_empty_collection_name :: bool where
  "query_parse_rejects_empty_collection_name \<longleftrightarrow> unwrap_then (document_encode [(''isMaster'', B_Int32 1)]) (\<lambda>raw.
     op_query_parse_body (put_bytes raw (put_i32_le (- 1) (put_i32_le 0 (put_u8 0 (put_i32_le 0 [])))))
       = Err (PE_InvalidBody ''empty fullCollectionName''))"

definition query_parse_rejects_trailing_garbage :: bool where
  "query_parse_rejects_trailing_garbage \<longleftrightarrow> unwrap_then (document_encode [(''isMaster'', B_Int32 1)]) (\<lambda>raw.
     unwrap_then (op_query_encode_body (op_query_handshake raw) []) (\<lambda>body.
     case op_query_parse_body (body @ [0]) of Err (PE_InvalidBody _) \<Rightarrow> True | Err (PE_Bson _) \<Rightarrow> True | _ \<Rightarrow> False))"

definition query_trailing_bytes_after_selector_are_rejected :: bool where
  "query_trailing_bytes_after_selector_are_rejected \<longleftrightarrow> unwrap_then (document_encode [(''isMaster'', B_Int32 1)]) (\<lambda>raw.
     unwrap_then (document_encode [(''_id'', B_Int32 1)]) (\<lambda>selector.
     unwrap_then (op_query_encode_body ((op_query_handshake raw)\<lparr>return_fields_selector := Some selector\<rparr>) []) (\<lambda>body.
     op_query_parse_body (body @ [0x05, 0x00, 0x00, 0x00, 0x00])
       = Err (PE_InvalidBody ''trailing bytes after returnFieldsSelector''))))"

definition query_non_utf8_collection_name_is_rejected :: bool where
  "query_non_utf8_collection_name_is_rejected \<longleftrightarrow> unwrap_then (document_encode [(''x'', B_Int32 1)]) (\<lambda>raw.
     let body = put_i32_le 0 [] @ as_bytes ''db.'' @ [0xff] @ as_bytes ''coll'' @ [0] in
     op_query_parse_body (put_bytes raw (put_i32_le 0 (put_i32_le 0 body))) = Err (PE_InvalidBody ''invalid UTF-8 in fullCollectionName''))"

lemma query_tests: "query_roundtrip_query_only" "query_roundtrip_with_selector" "query_flags_roundtrip_and_truncation"
  "query_parse_rejects_empty_collection_name" "query_parse_rejects_trailing_garbage" "query_trailing_bytes_after_selector_are_rejected"
  "query_non_utf8_collection_name_is_rejected"
  by code_simp+

end
