(* ===== verification/Tests_Body.thy ===== *)
theory Tests_Body
  imports Tests_Base
begin

text \<open>
  The tests of \<open>messages/op_reply.rs\<close>, \<open>compression/mod.rs\<close>, \<open>messages/op_compressed.rs\<close> and
  \<open>api/response.rs\<close>. The compression libraries are a parameter: the tests run in the default build, which
  has only the \<open>noop\<close> compressor, hold for any \<open>codecs\<close>.
\<close>

section \<open>OP_REPLY\<close>

definition test_reply :: "raw_document list \<Rightarrow> op_reply" where
  "test_reply docs = \<lparr>response_flags = 8, cursor_id = 0, starting_from = 0, number_returned = of_nat (length docs), documents = docs\<rparr>"

definition reply_roundtrips :: "op_reply \<Rightarrow> bool" where
  "reply_roundtrips r \<longleftrightarrow> unwrap_then (op_reply_encode_body r []) (\<lambda>body. op_reply_parse_body body = Ok r)"

definition reply_roundtrip_no_documents :: bool where
  "reply_roundtrip_no_documents \<longleftrightarrow> (let r = test_reply [] in
     number_returned r = 0 \<and> op_reply_body_len r = 20 \<and> reply_roundtrips r)"

definition reply_roundtrip_multiple_documents :: bool where
  "reply_roundtrip_multiple_documents \<longleftrightarrow>
     unwrap_then (document_encode [(''ok'', B_Double F64_ONE)]) (\<lambda>a.
     unwrap_then (document_encode [(''ok'', B_Double F64_ZERO), (''errmsg'', B_String ''boom'')]) (\<lambda>b.
     unwrap_then (document_encode [(''value'', B_Int32 (- 42))]) (\<lambda>c.
     let r = test_reply [a, b, c] in
     number_returned r = 3 \<and> op_reply_body_len r = 20 + 17 + 34 + 16 \<and> reply_roundtrips r)))"

definition reply_roundtrip_extreme_scalars_and_flags :: bool where
  "reply_roundtrip_extreme_scalars_and_flags \<longleftrightarrow> unwrap_then (document_encode [(''d'', B_Double 0xBFE0000000000000)]) (\<lambda>d.
     reply_roundtrips \<lparr>response_flags = REPLY_FLAGS_ALL, cursor_id = 0x8000000000000000, starting_from = 0x7FFFFFFF,
       number_returned = 1, documents = [d]\<rparr>)"

definition reply_start :: "i32 \<Rightarrow> bytes" where
  "reply_start n = put_i32_le n (put_i32_le 0 (put_i64_le 0 (put_i32_le 0 [])))"

definition reply_parse_rejects_number_returned_mismatch :: bool where
  "reply_parse_rejects_number_returned_mismatch \<longleftrightarrow> unwrap_then (document_encode [(''ok'', B_Double F64_ONE)]) (\<lambda>raw.
     op_reply_parse_body (put_bytes raw (reply_start 2)) = Err (PE_InvalidBody ''truncated document'')
     \<and> op_reply_parse_body (reply_start 1) = Err (PE_InvalidBody ''numberReturned exceeds the body size'')
     \<and> op_reply_parse_body (put_bytes raw (put_bytes raw (reply_start 1))) = Err (PE_InvalidBody ''trailing bytes after the documents''))"

definition reply_parse_rejects_negative_number_returned :: bool where
  "reply_parse_rejects_negative_number_returned \<longleftrightarrow>
     op_reply_parse_body (reply_start (- 1)) = Err (PE_InvalidBody ''negative numberReturned'')"

definition reply_parse_rejects_oversized_number_returned :: bool where
  "reply_parse_rejects_oversized_number_returned \<longleftrightarrow>
     op_reply_parse_body (reply_start 0x7FFFFFFF) = Err (PE_InvalidBody ''numberReturned exceeds the body size'')"

definition reply_parse_rejects_trailing_bytes :: bool where
  "reply_parse_rejects_trailing_bytes \<longleftrightarrow> unwrap_then (document_encode [(''ok'', B_Double F64_ONE)]) (\<lambda>raw.
     unwrap_then (op_reply_encode_body (test_reply [raw]) []) (\<lambda>body.
     op_reply_parse_body (body @ [0]) = Err (PE_InvalidBody ''trailing bytes after the documents'')))"

definition reply_unknown_flag_bits_are_truncated :: bool where
  "reply_unknown_flag_bits_are_truncated \<longleftrightarrow>
     unwrap_then (op_reply_parse_body (put_i32_le 0 (put_i32_le 0 (put_i64_le 0 (put_i32_le (REPLY_FLAGS_ALL OR 0x80000000) []))))) (\<lambda>parsed.
     response_flags parsed = REPLY_FLAGS_ALL \<and> number_returned parsed = 0 \<and> documents parsed = [])"

lemma reply_tests: "reply_roundtrip_no_documents" "reply_roundtrip_multiple_documents" "reply_roundtrip_extreme_scalars_and_flags"
  "reply_parse_rejects_number_returned_mismatch" "reply_parse_rejects_negative_number_returned"
  "reply_parse_rejects_oversized_number_returned" "reply_parse_rejects_trailing_bytes" "reply_unknown_flag_bits_are_truncated"
  by code_simp+

section \<open>Compressors\<close>

definition compression_noop_roundtrip :: "codecs \<Rightarrow> bool" where
  "compression_noop_roundtrip c \<longleftrightarrow> (let data = as_bytes ''the quick brown fox'' in
     unwrap_then (compress c Noop data) (\<lambda>compressed. compressed = data \<and> decompress c Noop compressed (length data) = Ok data))"

definition compression_disabled_compressor_errors :: "codecs \<Rightarrow> bool" where
  "compression_disabled_compressor_errors c \<longleftrightarrow> is_enabled c Zstd \<or> compress c Zstd (as_bytes ''x'') = Err (PE_UnsupportedCompressor 3)"

definition compression_id_mapping :: bool where
  "compression_id_mapping \<longleftrightarrow> compressor_from_u8 2 = Some Zlib \<and> compressor_from_u8 4 = None
     \<and> compressor_from_name ''snappy'' = Some Snappy \<and> compressor_name Zstd = ''zstd''"

lemma compression_tests: "compression_noop_roundtrip c" "compression_disabled_compressor_errors c" "compression_id_mapping"
proof -
  show "compression_noop_roundtrip c" by code_simp
  show "compression_disabled_compressor_errors c" by (simp add: compression_disabled_compressor_errors_def compress_def)
  show "compression_id_mapping" by code_simp
qed

section \<open>OP_COMPRESSED\<close>

definition compressed_msg :: "document \<Rightarrow> (protocol_error, bytes \<times> op_msg) result" where
  "compressed_msg doc = andthen (map_err PE_Bson (document_encode doc)) (\<lambda>raw. andthen (op_msg_new 0 raw []) (\<lambda>msg.
     andthen (op_msg_encode_body msg []) (\<lambda>body. Ok (body, msg))))"

definition msg_body :: "(protocol_error, bytes) result" where
  "msg_body = map_ok fst (compressed_msg [(''insert'', B_String ''actor''), (''$db'', B_String ''monila'')])"

definition compressed_noop_roundtrip_through_wrap_parse_unwrap :: "codecs \<Rightarrow> bool" where
  "compressed_noop_roundtrip_through_wrap_parse_unwrap c \<longleftrightarrow> unwrap_then msg_body (\<lambda>body.
     unwrap_then (op_compressed_wrap c Msg body Noop) (\<lambda>compressed.
     compressed_message compressed = body \<and> uncompressed_size compressed = of_nat (length body)
     \<and> op_compressed_body_len compressed = 4 + 4 + 1 + length body
     \<and> unwrap_then (op_compressed_encode_body compressed []) (\<lambda>out. length out = op_compressed_body_len compressed
       \<and> unwrap_then (op_compressed_parse_body out) (\<lambda>parsed. parsed = compressed
       \<and> (case unwrap_body c parsed MAX_MSG_LEN of
            Ok (MB_Msg msg) \<Rightarrow> raw_command (sec_body (msg_sections msg)) = Ok ''insert'' | _ \<Rightarrow> False)))))"

definition compressed_full_frame_roundtrip_through_framing :: "codecs \<Rightarrow> (bytes \<Rightarrow> u32) \<Rightarrow> bool" where
  "compressed_full_frame_roundtrip_through_framing c crc \<longleftrightarrow> unwrap_then msg_body (\<lambda>body.
     unwrap_then (op_compressed_wrap c Msg body Noop) (\<lambda>compressed.
     case encode_message crc (header_new 9 0 Compressed) (MB_Compressed compressed) False [] of
       (Ok _, _, out) \<Rightarrow>
         (case parse_message crc out MAX_MSG_LEN of
            (Ok (Some (h, MB_Compressed m)), _) \<Rightarrow> op_code h = Compressed \<and> original_opcode m = Msg
              \<and> (case unwrap_body c m MAX_MSG_LEN of Ok (MB_Msg _) \<Rightarrow> True | _ \<Rightarrow> False)
          | _ \<Rightarrow> False)
     | _ \<Rightarrow> False))"

definition compressed_nested_is_rejected :: "codecs \<Rightarrow> bool" where
  "compressed_nested_is_rejected c \<longleftrightarrow> unwrap_then msg_body (\<lambda>body.
     unwrap_then (op_compressed_wrap c Msg body Noop) (\<lambda>inner.
     unwrap_then (op_compressed_encode_body inner []) (\<lambda>inner_bytes.
     unwrap_then (op_compressed_wrap c Compressed inner_bytes Noop) (\<lambda>outer.
     unwrap_body c outer MAX_MSG_LEN = Err (PE_InvalidOpMsg ''nested OP_COMPRESSED'')))))"

definition compressed_oversized_uncompressed_size_is_rejected :: "codecs \<Rightarrow> bool" where
  "compressed_oversized_uncompressed_size_is_rejected c \<longleftrightarrow> unwrap_then msg_body (\<lambda>body.
     case unwrap_body c \<lparr>original_opcode = Msg, uncompressed_size = 0x7FFFFFFF, compressor_id = Noop, compressed_message = body\<rparr> MAX_MSG_LEN of
       Err (PE_MessageTooLarge _ _) \<Rightarrow> True | _ \<Rightarrow> False)"

definition compressed_tampered_uncompressed_size_is_caught :: "codecs \<Rightarrow> bool" where
  "compressed_tampered_uncompressed_size_is_caught c \<longleftrightarrow> unwrap_then msg_body (\<lambda>body.
     unwrap_then (op_compressed_wrap c Msg body Noop) (\<lambda>compressed.
     (let wrong = compressed\<lparr>uncompressed_size := uncompressed_size compressed + 1\<rparr> in
      case unwrap_body c wrong MAX_MSG_LEN of
        Err (PE_DecompressedSizeMismatch expected actual) \<Rightarrow>
          expected = i32_as_usize (uncompressed_size wrong) \<and> actual = expected - 1
      | _ \<Rightarrow> False)
     \<and> unwrap_body c (compressed\<lparr>uncompressed_size := - 1\<rparr>) MAX_MSG_LEN = Err (PE_InvalidOpMsg ''negative uncompressedSize'')))"

definition compressed_parse_rejects_unknown_opcode_and_compressor :: bool where
  "compressed_parse_rejects_unknown_opcode_and_compressor \<longleftrightarrow>
     op_compressed_parse_body (put_u8 (compressor_to_u8 Noop) (put_i32_le 0 (put_i32_le 42 []))) = Err (PE_UnsupportedOpcode 42)
     \<and> op_compressed_parse_body (put_u8 200 (put_i32_le 0 (put_i32_le (opcode_to_i32 Msg) []))) = Err (PE_UnsupportedCompressor 200)"

definition compressed_disabled_compressor_is_rejected :: "codecs \<Rightarrow> bool" where
  "compressed_disabled_compressor_is_rejected c \<longleftrightarrow> is_enabled c Snappy
     \<or> unwrap_then msg_body (\<lambda>body. op_compressed_wrap c Msg body Snappy = Err (PE_UnsupportedCompressor 1))"

lemma msg_body_value [code]:
  "msg_body = Ok ([0, 0, 0, 0, 0, 39, 0, 0, 0, 2] @ as_bytes ''insert'' @ [0, 6, 0, 0, 0] @ as_bytes ''actor'' @ [0, 2]
     @ as_bytes ''$db'' @ [0, 7, 0, 0, 0] @ as_bytes ''monila'' @ [0, 0])"
  by code_simp

lemma compressed_tests: "compressed_noop_roundtrip_through_wrap_parse_unwrap c" "compressed_full_frame_roundtrip_through_framing c crc"
  "compressed_nested_is_rejected c" "compressed_oversized_uncompressed_size_is_rejected c" "compressed_tampered_uncompressed_size_is_caught c"
  "compressed_parse_rejects_unknown_opcode_and_compressor"
  by code_simp+

lemma compressed_disabled: "compressed_disabled_compressor_is_rejected c"
proof -
  have "case msg_body of Ok body \<Rightarrow> i32_try_from (length body) \<noteq> None | _ \<Rightarrow> False" by code_simp
  then obtain body n where "msg_body = Ok body" "i32_try_from (length body) = Some n" by (auto split: result.splits)
  then show ?thesis
    unfolding compressed_disabled_compressor_is_rejected_def \<open>msg_body = Ok body\<close>
    by (simp add: op_compressed_wrap_def compress_def ok_or_def)
qed

section \<open>Built-in replies\<close>

text \<open>The reply to \<open>hello\<close> at the time \<open>now\<close>, which the test compares with the clock it reads afterwards.\<close>

definition response_hello_reply_fields :: "system_time \<Rightarrow> bool" where
  "response_hello_reply_fields now \<longleftrightarrow> unwrap_then (handshake_reply now [] 48000000 False) (\<lambda>msg.
     unwrap_then (shallow (sec_body (msg_sections msg))) (\<lambda>doc.
       document_get doc ''ok'' = Some (B_Double F64_ONE)
       \<and> document_get doc ''isWritablePrimary'' = Some (B_Bool True)
       \<and> document_get doc ''ismaster'' = None
       \<and> document_get doc ''helloOk'' = Some (B_Bool True)
       \<and> document_get doc ''maxBsonObjectSize'' = Some (B_Int32 16777216)
       \<and> document_get doc ''maxMessageSizeBytes'' = Some (B_Int32 48000000)
       \<and> document_get doc ''maxWriteBatchSize'' = Some (B_Int32 100000)
       \<and> document_get doc ''logicalSessionTimeoutMinutes'' = Some (B_Int32 30)
       \<and> document_get doc ''connectionId'' = Some (B_Int32 1)
       \<and> document_get doc ''minWireVersion'' = Some (B_Int32 0)
       \<and> document_get doc ''maxWireVersion'' = Some (B_Int32 21)
       \<and> document_get doc ''readOnly'' = Some (B_Bool False)
       \<and> (case document_get doc ''localTime'' of Some (B_DateTime ms) \<Rightarrow> date_time_of now = (Ok ms :: (error, i64) result) | _ \<Rightarrow> False)
       \<and> document_get doc ''compression'' = None
       \<and> msg_flags msg = 0 \<and> msg_checksum msg = None))"

definition response_legacy_is_master_reply_uses_legacy_key :: "system_time \<Rightarrow> bool" where
  "response_legacy_is_master_reply_uses_legacy_key now \<longleftrightarrow> unwrap_then (handshake_reply now [] 48000000 True) (\<lambda>msg.
     unwrap_then (shallow (sec_body (msg_sections msg))) (\<lambda>doc.
       document_get doc ''ismaster'' = Some (B_Bool True) \<and> document_get doc ''isWritablePrimary'' = None))"

definition response_compression_array_lists_names_in_preference_order :: "system_time \<Rightarrow> bool" where
  "response_compression_array_lists_names_in_preference_order now \<longleftrightarrow>
     unwrap_then (handshake_reply now [Zlib, Snappy, Zstd, Noop] 48000000 False) (\<lambda>msg.
     unwrap_then (shallow (sec_body (msg_sections msg))) (\<lambda>doc.
       case document_get doc ''compression'' of
         Some (B_Array names) \<Rightarrow> names = [B_String ''zlib'', B_String ''snappy'', B_String ''zstd'', B_String ''noop'']
       | _ \<Rightarrow> False))"

definition response_ping_reply_is_ok_only :: bool where
  "response_ping_reply_is_ok_only \<longleftrightarrow> unwrap_then ping_reply (\<lambda>msg.
     unwrap_then (shallow (sec_body (msg_sections msg))) (\<lambda>doc.
       document_len doc = 1 \<and> document_get doc ''ok'' = Some (B_Double F64_ONE)))"

lemma response_ping: "response_ping_reply_is_ok_only"
  by code_simp

lemma handshake_reply_document:
  assumes "date_time_of now = (Ok ms :: (error, i64) result)" "length xs \<le> 1000"
  obtains raw where "handshake_reply now xs max_len legacy
      = Ok \<lparr>msg_flags = 0, msg_sections = \<lparr>sec_body = raw, sec_sequences = []\<rparr>, msg_checksum = None\<rparr>"
    and "shallow raw = Ok (handshake_document ms xs max_len legacy)"
proof (rule that)
  show "handshake_reply now xs max_len legacy = Ok \<lparr>msg_flags = 0, msg_sections =
      \<lparr>sec_body = doc_bytes (handshake_document ms xs max_len legacy), sec_sequences = []\<rparr>, msg_checksum = None\<rparr>"
    by (rule handshake_reply_ok [OF assms, THEN conjunct1])
  show "shallow (doc_bytes (handshake_document ms xs max_len legacy)) = Ok (handshake_document ms xs max_len legacy)"
    by (subst shallow_eq_deep, rule handshake_reply_ok [OF assms, THEN conjunct2, THEN conjunct2])
qed

lemma response_tests:
  assumes "date_time_of now = (Ok ms :: (error, i64) result)"
  shows "response_hello_reply_fields now" "response_legacy_is_master_reply_uses_legacy_key now"
    "response_compression_array_lists_names_in_preference_order now"
proof -
  note doc = handshake_document_def document_get_def document_add_def document_new_def array_push_def array_new_def
  obtain raw where "handshake_reply now [] 48000000 False
      = Ok \<lparr>msg_flags = 0, msg_sections = \<lparr>sec_body = raw, sec_sequences = []\<rparr>, msg_checksum = None\<rparr>"
    "shallow raw = Ok (handshake_document ms [] 48000000 False)"
    by (rule handshake_reply_document [OF assms, of "[]" 48000000 False]) simp_all
  with assms show "response_hello_reply_fields now" by (simp add: response_hello_reply_fields_def doc)
  obtain raw where "handshake_reply now [] 48000000 True
      = Ok \<lparr>msg_flags = 0, msg_sections = \<lparr>sec_body = raw, sec_sequences = []\<rparr>, msg_checksum = None\<rparr>"
    "shallow raw = Ok (handshake_document ms [] 48000000 True)"
    by (rule handshake_reply_document [OF assms, of "[]" 48000000 True]) simp_all
  then show "response_legacy_is_master_reply_uses_legacy_key now"
    by (simp add: response_legacy_is_master_reply_uses_legacy_key_def doc)
  obtain raw where "handshake_reply now [Zlib, Snappy, Zstd, Noop] 48000000 False
      = Ok \<lparr>msg_flags = 0, msg_sections = \<lparr>sec_body = raw, sec_sequences = []\<rparr>, msg_checksum = None\<rparr>"
    "shallow raw = Ok (handshake_document ms [Zlib, Snappy, Zstd, Noop] 48000000 False)"
    by (rule handshake_reply_document [OF assms, of "[Zlib, Snappy, Zstd, Noop]" 48000000 False]) simp_all
  then show "response_compression_array_lists_names_in_preference_order now"
    by (simp add: response_compression_array_lists_names_in_preference_order_def doc)
qed

end
