(* ===== verification/Tests_Msg.thy ===== *)
theory Tests_Msg
  imports Tests_Base
begin

text \<open>
  The tests of \<open>messages/op_msg.rs\<close>, but for the two that try every prefix of a message with a document
  sequence: that parsing neither panics nor accepts more than it should there is a theorem of \<open>Op_Msg\<close>.
\<close>

section \<open>Round trips\<close>

text \<open>Encodes \<open>msg\<close>, compares the length with \<open>body_len\<close>, and parses it back.\<close>

definition msg_roundtrips :: "op_msg \<Rightarrow> bool" where
  "msg_roundtrips msg \<longleftrightarrow> unwrap_then (op_msg_encode_body msg []) (\<lambda>body.
     op_msg_body_len msg = length body \<and> op_msg_parse_body body = Ok msg)"

definition msg_roundtrip_single_section :: bool where
  "msg_roundtrip_single_section \<longleftrightarrow> unwrap_then (document_encode [(''hello'', B_String ''world'')]) (\<lambda>raw.
     unwrap_then (op_msg_new MORE_TO_COME raw []) (\<lambda>msg. msg_roundtrips msg \<and> sec_body (msg_sections msg) = raw))"

definition msg_roundtrip_multi_section :: bool where
  "msg_roundtrip_multi_section \<longleftrightarrow>
     unwrap_then (document_encode [(''insert'', B_String ''actor''), (''$db'', B_String ''monila'')]) (\<lambda>raw.
     unwrap_then (document_encode [(''name'', B_String ''n1'')]) (\<lambda>a.
     unwrap_then (document_encode [(''name'', B_String ''n2'')]) (\<lambda>b.
     unwrap_then (op_msg_new 0 raw [\<lparr>seq_identifier = ''documents'', seq_documents = [a, b]\<rparr>]) (\<lambda>msg.
       op_msg_body_len msg = 4 + 1 + length (sec_body (msg_sections msg)) + 1 + 4 + length ''documents'' + 1
         + 2 * (4 + 1 + length ''name'' + 1 + 4 + 3 + 1)
       \<and> msg_roundtrips msg))))"

definition msg_zero_document_sequence_is_allowed :: bool where
  "msg_zero_document_sequence_is_allowed \<longleftrightarrow> unwrap_then (document_encode [(''insert'', B_String ''c'')]) (\<lambda>raw.
     unwrap_then (op_msg_new 0 raw [\<lparr>seq_identifier = ''documents'', seq_documents = []\<rparr>]) (\<lambda>msg.
     unwrap_then (op_msg_encode_body msg []) (\<lambda>body.
     unwrap_then (op_msg_parse_body body) (\<lambda>parsed. parsed = msg
       \<and> map seq_documents (sec_sequences (msg_sections parsed)) = [[]]))))"

definition msg_more_to_come_roundtrip :: bool where
  "msg_more_to_come_roundtrip \<longleftrightarrow> unwrap_then (document_encode [(''ping'', B_Int32 1)]) (\<lambda>raw.
     unwrap_then (op_msg_new MORE_TO_COME raw []) (\<lambda>msg.
     unwrap_then (op_msg_encode_body msg []) (\<lambda>body.
     unwrap_then (op_msg_parse_body body) (\<lambda>parsed. msg_flags parsed = MORE_TO_COME \<and> parsed = msg))))"

definition msg_new_strips_checksum_flag :: bool where
  "msg_new_strips_checksum_flag \<longleftrightarrow> unwrap_then (document_encode [(''ping'', B_Int32 1)]) (\<lambda>raw.
     unwrap_then (op_msg_new (CHECKSUM_PRESENT OR MORE_TO_COME) raw []) (\<lambda>msg.
       msg_flags msg = MORE_TO_COME \<and> msg_checksum msg = None))"

definition msg_checksum_roundtrip_and_body_len :: bool where
  "msg_checksum_roundtrip_and_body_len \<longleftrightarrow> unwrap_then (document_encode [(''hello'', B_Int32 1)]) (\<lambda>raw.
     let body = put_u32_le 0xdeadbeef (put_bytes raw (put_u8 0 (put_u32_le CHECKSUM_PRESENT []))) in
     unwrap_then (op_msg_parse_body body) (\<lambda>parsed.
       msg_flags parsed = CHECKSUM_PRESENT \<and> msg_checksum parsed = Some 0xdeadbeef \<and> op_msg_body_len parsed = length body
       \<and> op_msg_encode_body parsed [] = Ok body))"

definition msg_sections_fill_the_body_exactly :: bool where
  "msg_sections_fill_the_body_exactly \<longleftrightarrow> unwrap_then (document_encode [(''insert'', B_String ''actor'')]) (\<lambda>raw.
     unwrap_then (document_encode [(''a'', B_Int32 1)]) (\<lambda>a.
     unwrap_then (op_msg_new 0 raw [\<lparr>seq_identifier = ''documents'', seq_documents = [a]\<rparr>]) (\<lambda>msg.
       op_msg_body_len msg = 4 + sections_size (msg_sections msg) \<and> msg_roundtrips msg)))"

lemma msg_roundtrip_tests: "msg_roundtrip_single_section" "msg_zero_document_sequence_is_allowed"
  "msg_more_to_come_roundtrip" "msg_new_strips_checksum_flag" "msg_checksum_roundtrip_and_body_len" "msg_sections_fill_the_body_exactly"
  by code_simp+

lemma msg_roundtrip_multi: "msg_roundtrip_multi_section"
  by code_simp

section \<open>Rejected messages\<close>

definition msg_parse_rejects_two_kind0_sections :: bool where
  "msg_parse_rejects_two_kind0_sections \<longleftrightarrow> unwrap_then (document_encode [(''hello'', B_Int32 1)]) (\<lambda>doc.
     op_msg_parse_body (put_bytes doc (put_u8 0 (put_bytes doc (put_u8 0 (put_u32_le 0 [])))))
       = Err (PE_InvalidOpMsg ''multiple kind 0 sections''))"

definition msg_parse_rejects_kind0_after_kind1 :: bool where
  "msg_parse_rejects_kind0_after_kind1 \<longleftrightarrow> unwrap_then (document_encode [(''hello'', B_Int32 1)]) (\<lambda>doc.
     let buf = put_u32_le (of_nat (4 + length ''documents'' + 1 + length doc)) (put_u8 1 (put_u32_le 0 []));
         buf = put_bytes doc (put_u8 0 (put_bytes (as_bytes ''documents'') buf)) in
     op_msg_parse_body (put_bytes doc (put_u8 0 buf)) = Err (PE_InvalidOpMsg ''kind 0 section must be the first section''))"

definition msg_unknown_kind_case :: "bytes \<Rightarrow> u8 \<Rightarrow> bool" where
  "msg_unknown_kind_case doc kind \<longleftrightarrow>
     op_msg_parse_body (put_bytes doc (put_u8 kind (put_u32_le 0 []))) = Err (PE_InvalidOpMsg ''unknown section kind'')"

definition msg_parse_rejects_unknown_section_kinds :: bool where
  "msg_parse_rejects_unknown_section_kinds \<longleftrightarrow> unwrap_then (document_encode [(''hello'', B_Int32 1)]) (\<lambda>doc.
     list_all (msg_unknown_kind_case doc) [2, 3, 7, 255])"

definition msg_parse_rejects_empty_identifier :: bool where
  "msg_parse_rejects_empty_identifier \<longleftrightarrow> unwrap_then (document_encode [(''hello'', B_Int32 1)]) (\<lambda>doc.
     let buf = put_u32_le (4 + 1 + 5) (put_u8 1 (put_bytes doc (put_u8 0 (put_u32_le 0 [])))) in
     op_msg_parse_body (put_bytes [5, 0, 0, 0, 0] (put_u8 0 buf)) = Err (PE_InvalidOpMsg ''kind 1 section has no identifier''))"

definition msg_sections_new_rejects_empty_and_nul_identifiers :: bool where
  "msg_sections_new_rejects_empty_and_nul_identifiers \<longleftrightarrow> unwrap_then (document_encode [(''hello'', B_Int32 1)]) (\<lambda>doc.
     sections_new doc [\<lparr>seq_identifier = [], seq_documents = []\<rparr>] = Err (PE_InvalidOpMsg ''kind 1 section has no identifier'')
     \<and> sections_new doc [\<lparr>seq_identifier = ''a'' @ [NUL] @ ''b'', seq_documents = []\<rparr>]
         = Err (PE_InvalidOpMsg ''kind 1 identifier contains NUL''))"

definition msg_identifier_must_not_duplicate_a_body_field :: bool where
  "msg_identifier_must_not_duplicate_a_body_field \<longleftrightarrow>
     unwrap_then (document_encode [(''insert'', B_String ''actor''), (''documents'', B_Null)]) (\<lambda>body.
     unwrap_then (document_encode [(''a'', B_Int32 1)]) (\<lambda>a.
     sections_new body [\<lparr>seq_identifier = ''documents'', seq_documents = [a]\<rparr>]
       = Err (PE_InvalidOpMsg ''kind 1 identifier duplicates a body field'')))"

definition msg_short_case :: "nat \<Rightarrow> bool" where
  "msg_short_case n \<longleftrightarrow> op_msg_parse_body (replicate n 0) = Err (PE_InvalidOpMsg ''body too short for OP_MSG'')"

definition msg_body_too_short_errors :: bool where
  "msg_body_too_short_errors \<longleftrightarrow> list_all msg_short_case [0..<6]"

definition msg_flags_parse_rejects_unknown_required_bits :: bool where
  "msg_flags_parse_rejects_unknown_required_bits \<longleftrightarrow>
     msg_flags_parse 0x8000 = Err (PE_InvalidOpMsg ''unknown required flag bits'')
     \<and> msg_flags_parse 0x30303030 = Err (PE_InvalidOpMsg ''unknown required flag bits'')
     \<and> msg_flags_parse (MORE_TO_COME OR 0x10) = Err (PE_InvalidOpMsg ''unknown required flag bits'')"

definition msg_flags_parse_clears_unknown_optional_bits :: bool where
  "msg_flags_parse_clears_unknown_optional_bits \<longleftrightarrow> msg_flags_parse 0x20000 = Ok 0
     \<and> msg_flags_parse (EXHAUST_ALLOWED OR 0x20000) = Ok EXHAUST_ALLOWED"

definition msg_short_checksummed_case :: "nat \<Rightarrow> bool" where
  "msg_short_checksummed_case body_len \<longleftrightarrow> is_err (op_msg_parse_body ([0x01, 0x00, 0x00, 0x00] @ replicate (body_len - 4) 0xAB))"

definition msg_short_checksummed_bodies_error_instead_of_panicking :: bool where
  "msg_short_checksummed_bodies_error_instead_of_panicking \<longleftrightarrow> list_all msg_short_checksummed_case [5..<10]"

definition msg_non_utf8_section_identifier_is_rejected :: bool where
  "msg_non_utf8_section_identifier_is_rejected \<longleftrightarrow> unwrap_then (document_encode [(''insert'', B_String ''actor'')]) (\<lambda>body_doc.
     unwrap_then (document_encode [(''x'', B_Int32 1)]) (\<lambda>x.
     let body = put_u8 1 (put_bytes body_doc (put_u8 0 (put_u32_le 0 [])));
         size_at = length body;
         body = put_u32_le 0 body @ as_bytes ''doc'' @ [0xff] @ x;
         sec_size = of_nat (length body - size_at);
         body = take size_at body @ to_le32 sec_size @ drop (size_at + 4) body in
     op_msg_parse_body body = Err (PE_InvalidOpMsg ''invalid UTF-8 in section identifier'')))"

lemma msg_rejection_tests: "msg_parse_rejects_two_kind0_sections" "msg_parse_rejects_unknown_section_kinds"
  "msg_parse_rejects_empty_identifier" "msg_sections_new_rejects_empty_and_nul_identifiers"
  "msg_identifier_must_not_duplicate_a_body_field" "msg_body_too_short_errors" "msg_flags_parse_rejects_unknown_required_bits"
  "msg_flags_parse_clears_unknown_optional_bits" "msg_short_checksummed_bodies_error_instead_of_panicking"
  "msg_non_utf8_section_identifier_is_rejected"
  by code_simp+

lemma msg_section_order: "msg_parse_rejects_kind0_after_kind1"
  by code_simp

end
