(* ===== verification/Tests_Framing.thy ===== *)
theory Tests_Framing
  imports Tests_Base
begin

text \<open>
  The tests of \<open>framing.rs\<close> and \<open>test_client.rs\<close>, but for those that read recorded traffic from files. CRC-32C
  is a parameter of the model; where a test asserts that corruption is noticed, it runs with a checksum that
  adds up the bytes.
\<close>

section \<open>Lengths and broken frames\<close>

definition framing_body_parse_error_consumes_the_frame :: "(bytes \<Rightarrow> u32) \<Rightarrow> bool" where
  "framing_body_parse_error_consumes_the_frame crc \<longleftrightarrow>
     parse_message crc (to_le32 21 @ to_le32 1 @ to_le32 0 @ to_le32 2004 @ [0, 0, 0, 0, 0]) MAX_MSG_LEN
       = (Err (PE_InvalidBody ''empty fullCollectionName''), [])"

definition framing_absurd_length_fails_fast_without_the_body :: "(bytes \<Rightarrow> u32) \<Rightarrow> bool" where
  "framing_absurd_length_fails_fast_without_the_body crc \<longleftrightarrow>
     (case fst (parse_message crc (to_le32 (MAX_MSG_LEN + 1) @ to_le32 0 @ to_le32 0 @ to_le32 2004) MAX_MSG_LEN) of
        Err (PE_MessageTooLarge _ _) \<Rightarrow> True | _ \<Rightarrow> False)"

definition framing_negative_length_is_a_protocol_error :: "(bytes \<Rightarrow> u32) \<Rightarrow> bool" where
  "framing_negative_length_is_a_protocol_error crc \<longleftrightarrow>
     (case fst (parse_message crc (to_le32 (- 1) @ replicate 12 0) MAX_MSG_LEN) of Err (PE_InvalidHeader _) \<Rightarrow> True | _ \<Rightarrow> False)"

definition framing_short_checksummed_frame_is_rejected_not_panicked :: "(bytes \<Rightarrow> u32) \<Rightarrow> bool" where
  "framing_short_checksummed_frame_is_rejected_not_panicked crc \<longleftrightarrow>
     (let fr = to_le32 22 @ to_le32 1 @ to_le32 0 @ to_le32 2013 @ [0x01, 0x00, 0x00, 0x00] @ [0x00] @ [0xAB] in
      length fr = 22
      \<and> (case fst (parse_message crc fr MAX_MSG_LEN) of Err (PE_InvalidOpMsg _) \<Rightarrow> True | _ \<Rightarrow> False))"

lemma framing_length_tests: "framing_body_parse_error_consumes_the_frame crc" "framing_absurd_length_fails_fast_without_the_body crc"
  "framing_negative_length_is_a_protocol_error crc" "framing_short_checksummed_frame_is_rejected_not_panicked crc"
  by code_simp+

section \<open>Frames without a checksum\<close>

definition framing_encode_sets_message_length_and_roundtrips :: "(bytes \<Rightarrow> u32) \<Rightarrow> bool" where
  "framing_encode_sets_message_length_and_roundtrips crc \<longleftrightarrow> unwrap_then (document_encode [(''isMaster'', B_Int32 1)]) (\<lambda>raw.
     let q = op_query_handshake raw; body = MB_Query q in
     case encode_message crc (header_new 42 0 Query) body False [] of
       (Ok _, h, out) \<Rightarrow> message_length h = of_nat (16 + message_body_len body)
         \<and> from_le32 (take 4 out) = message_length h
         \<and> (case fst (parse_message crc out MAX_MSG_LEN) of
              Ok (Some (h2, MB_Query q2)) \<Rightarrow> request_id h2 = 42 \<and> message_length h2 = message_length h \<and> q2 = q
            | _ \<Rightarrow> False)
     | _ \<Rightarrow> False)"

definition framing_trailing_bytes_after_op_query_selector_are_rejected_end_to_end :: "(bytes \<Rightarrow> u32) \<Rightarrow> bool" where
  "framing_trailing_bytes_after_op_query_selector_are_rejected_end_to_end crc \<longleftrightarrow>
     unwrap_then (document_encode document_new) (\<lambda>empty.
     unwrap_then (document_encode [(''isMaster'', B_Bool True)]) (\<lambda>raw.
     unwrap_then (document_encode [(''_id'', B_Int32 1)]) (\<lambda>selector.
     let q = (op_query_handshake empty)\<lparr>full_collection_name := ''admin.$cmd'', query_doc := raw, return_fields_selector := Some selector\<rparr> in
     case encode_message crc (header_new 1 0 Query) (MB_Query q) False [] of
       (Ok _, h, out) \<Rightarrow>
         (let out = out @ [0x05, 0x00, 0x00, 0x00, 0x00]; grown = message_length h + 5; out = to_le32 grown @ drop 4 out in
          fst (parse_message crc out MAX_MSG_LEN) = Err (PE_InvalidBody ''trailing bytes after returnFieldsSelector''))
     | _ \<Rightarrow> False)))"

definition client_handshake_frame_roundtrips_through_framing :: "(bytes \<Rightarrow> u32) \<Rightarrow> bool" where
  "client_handshake_frame_roundtrips_through_framing crc \<longleftrightarrow> unwrap_then (document_encode [(''isMaster'', B_Int32 1)]) (\<lambda>request.
     case frame_bytes crc 5 0 (MB_Query (op_query_handshake request)) False of
       Ok fr \<Rightarrow>
         (case fst (parse_message crc fr MAX_MSG_LEN) of
            Ok (Some (h, MB_Query query)) \<Rightarrow> request_id h = 5 \<and> response_to h = 0
              \<and> full_collection_name query = ''admin.$cmd'' \<and> number_to_return query = - 1 \<and> query_doc query = request
          | _ \<Rightarrow> False)
     | _ \<Rightarrow> False)"

lemma framing_plain_tests: "framing_encode_sets_message_length_and_roundtrips crc"
  "framing_trailing_bytes_after_op_query_selector_are_rejected_end_to_end crc"
  "client_handshake_frame_roundtrips_through_framing crc"
  by code_simp+

section \<open>Checksummed frames\<close>

definition byte_sum :: "bytes \<Rightarrow> u32" where
  "byte_sum b = fold (\<lambda>x s. ucast x + s) b 0"

definition checksummed_msg :: "(protocol_error, header \<times> message_body) result" where
  "checksummed_msg = andthen (map_err PE_Bson (document_encode [(''ping'', B_Int32 1)])) (\<lambda>doc.
     andthen (op_msg_new MORE_TO_COME doc []) (\<lambda>msg. Ok (header_new 7 0 Msg, MB_Msg msg)))"

text \<open>The frame the tests corrupt and cut up, after \<open>encode_message(..., true, ...)\<close>.\<close>

definition checksummed_frame :: "(bytes \<Rightarrow> u32) \<Rightarrow> (protocol_error, header \<times> bytes) result" where
  "checksummed_frame crc = andthen checksummed_msg (\<lambda>(h, body).
     case encode_message crc h body True [] of (r, h, out) \<Rightarrow> map_ok (\<lambda>_. (h, out)) r)"

definition framing_checksum_encoding_roundtrips :: "(bytes \<Rightarrow> u32) \<Rightarrow> bool" where
  "framing_checksum_encoding_roundtrips crc \<longleftrightarrow> unwrap_then (checksummed_frame crc) (\<lambda>(h, out).
     let expected = crc (take (length out - 4) out) in
     unat (message_length h) = length out \<and> from_le32 (take 4 out) = message_length h
     \<and> from_le32 (drop (length out - 4) out) = expected
     \<and> (case parse_message crc out MAX_MSG_LEN of
          (Ok (Some (h2, MB_Msg msg)), rest) \<Rightarrow> rest = [] \<and> message_length h2 = message_length h
            \<and> msg_flags msg = (CHECKSUM_PRESENT OR MORE_TO_COME) \<and> msg_checksum msg = Some expected
            \<and> document_encode [(''ping'', B_Int32 1)] = Ok (sec_body (msg_sections msg))
        | _ \<Rightarrow> False))"

definition framing_corrupt_trailer_byte_fails_checksum :: "(bytes \<Rightarrow> u32) \<Rightarrow> bool" where
  "framing_corrupt_trailer_byte_fails_checksum crc \<longleftrightarrow> unwrap_then (checksummed_frame crc) (\<lambda>(_, out).
     let expected = from_le32 (drop (length out - 4) out); last = length out - 1; out = out[last := out ! last XOR 0x01] in
     case fst (parse_message crc out MAX_MSG_LEN) of
       Err (PE_ChecksumMismatch e c) \<Rightarrow> e \<noteq> expected \<and> c = expected | _ \<Rightarrow> False)"

definition framing_corrupt_body_byte_fails_checksum :: "(bytes \<Rightarrow> u32) \<Rightarrow> bool" where
  "framing_corrupt_body_byte_fails_checksum crc \<longleftrightarrow> unwrap_then (checksummed_frame crc) (\<lambda>(_, out).
     let expected = from_le32 (drop (length out - 4) out); mid = length out - 5; out = out[mid := out ! mid XOR 0x80] in
     case fst (parse_message crc out MAX_MSG_LEN) of
       Err (PE_ChecksumMismatch e c) \<Rightarrow> e = expected \<and> c \<noteq> expected | _ \<Rightarrow> False)"

text \<open>The loop of the test: append a chunk, parse, and keep the last message that came out.\<close>

fun framing_feed ::
    "(bytes \<Rightarrow> u32) \<Rightarrow> bytes list \<Rightarrow> bytes \<Rightarrow> (header \<times> message_body) option
     \<Rightarrow> (protocol_error, (header \<times> message_body) option \<times> bytes) result" where
  "framing_feed crc [] buf parsed = Ok (parsed, buf)"
| "framing_feed crc (b # bs) buf parsed =
     (case parse_message crc (buf @ b) MAX_MSG_LEN of
        (Ok (Some msg), buf) \<Rightarrow> framing_feed crc bs buf (Some msg)
      | (Ok None, buf) \<Rightarrow> framing_feed crc bs buf parsed
      | (Err e, _) \<Rightarrow> Err e
      | (Panic, _) \<Rightarrow> Panic)"

definition framing_checksummed_frames_feed_incrementally :: "(bytes \<Rightarrow> u32) \<Rightarrow> bool" where
  "framing_checksummed_frames_feed_incrementally crc \<longleftrightarrow> unwrap_then (checksummed_frame crc) (\<lambda>(_, frame).
     case framing_feed crc (chunks 5 frame) [] None of
       Ok (Some (h, MB_Msg m), buf) \<Rightarrow> op_code h = Msg \<and> msg_checksum m \<noteq> None \<and> buf = []
     | _ \<Rightarrow> False)"

definition framing_non_msg_bodies_take_the_trailer_without_flag_patch :: "(bytes \<Rightarrow> u32) \<Rightarrow> bool" where
  "framing_non_msg_bodies_take_the_trailer_without_flag_patch crc \<longleftrightarrow>
     (case encode_message crc (header_new 1 0 Reply)
         (MB_Reply \<lparr>response_flags = 0, cursor_id = 0, starting_from = 0, number_returned = 0, documents = []\<rparr>) True [] of
        (Ok _, h, out) \<Rightarrow> unat (message_length h) = length out
          \<and> from_le32 (drop (length out - 4) out) = crc (take (length out - 4) out)
      | _ \<Rightarrow> False)"

definition client_checksummed_frame_roundtrips_through_framing :: "(bytes \<Rightarrow> u32) \<Rightarrow> bool" where
  "client_checksummed_frame_roundtrips_through_framing crc \<longleftrightarrow> unwrap_then (document_encode [(''ping'', B_Int32 1)]) (\<lambda>raw.
     unwrap_then (op_msg_new 0 raw []) (\<lambda>msg.
     case frame_bytes crc 9 0 (MB_Msg msg) True of
       Ok fr \<Rightarrow>
         (case fst (parse_message crc fr MAX_MSG_LEN) of
            Ok (Some (h, MB_Msg msg)) \<Rightarrow> request_id h = 9 \<and> flags_contain (msg_flags msg) CHECKSUM_PRESENT
              \<and> msg_checksum msg = Some (crc (take (length fr - 4) fr)) \<and> sec_body (msg_sections msg) = raw
          | _ \<Rightarrow> False)
     | _ \<Rightarrow> False))"

lemma checksummed_frame_value:
  "checksummed_frame byte_sum = Ok (\<lparr>message_length = 40, request_id = 7, response_to = 0, op_code = Msg\<rparr>,
     [40, 0, 0, 0, 7, 0, 0, 0, 0, 0, 0, 0, 221, 7, 0, 0, 3, 0, 0, 0, 0, 15,
      0, 0, 0, 16, 112, 105, 110, 103, 0, 1, 0, 0, 0, 0, 228, 2, 0, 0])"
  by code_simp

lemma framing_checksum_tests: "framing_checksum_encoding_roundtrips byte_sum" "framing_corrupt_trailer_byte_fails_checksum byte_sum"
  "framing_corrupt_body_byte_fails_checksum byte_sum"
  unfolding framing_checksum_encoding_roundtrips_def framing_corrupt_trailer_byte_fails_checksum_def
    framing_corrupt_body_byte_fails_checksum_def checksummed_frame_value
  by code_simp+

lemma framing_feed_test: "framing_checksummed_frames_feed_incrementally byte_sum"
  unfolding framing_checksummed_frames_feed_incrementally_def checksummed_frame_value
  by code_simp

lemma framing_trailer_tests: "framing_non_msg_bodies_take_the_trailer_without_flag_patch byte_sum"
  "client_checksummed_frame_roundtrips_through_framing byte_sum"
  by code_simp+

end
