(* ===== verification/Tests_Api.thy ===== *)
theory Tests_Api
  imports Tests_Base
begin

text \<open>
  The tests of \<open>api/mod.rs\<close> and \<open>api/auth.rs\<close> that need neither a socket nor a cryptographic library, and
  those of \<open>auth/scram.rs\<close> whose messages do not depend on a digest. The full exchanges of the SCRAM
  tests hold for every lawful library, by the completeness of the exchange.
\<close>

section \<open>Negotiation and error replies\<close>

definition api_negotiate_intersects_in_server_preference_order :: bool where
  "api_negotiate_intersects_in_server_preference_order \<longleftrightarrow>
     (let configured = [Zlib, Snappy, Zstd]; requested = [''zstd'', ''snappy'', ''noop''] in
      negotiate configured (Some requested) = [Snappy, Zstd] \<and> negotiate configured None = [] \<and> negotiate [] (Some requested) = [])"

definition api_requested_compressors_reads_the_handshake_field :: bool where
  "api_requested_compressors_reads_the_handshake_field \<longleftrightarrow>
     unwrap_then (document_encode [(''hello'', B_Int32 1), (''compression'', B_Array [B_String ''snappy'', B_Int32 1, B_String ''zlib''])]) (\<lambda>body.
       requested_compressors body = (Ok (Some [''snappy'', ''zlib'']) :: (error, string list option) result))
     \<and> unwrap_then (document_encode [(''hello'', B_Int32 1)]) (\<lambda>body.
       requested_compressors body = (Ok None :: (error, string list option) result))
     \<and> unwrap_then (document_encode [(''hello'', B_Int32 1), (''compression'', B_Null)]) (\<lambda>body.
       requested_compressors body = (Ok None :: (error, string list option) result))"

definition api_command_errors_become_op_msg_error_bodies :: bool where
  "api_command_errors_become_op_msg_error_bodies \<longleftrightarrow>
     (let err = error_command 59 ''CommandNotFound'' ''no such command'' in
      unwrap_then (document_encode [(''ping'', B_Int32 1)]) (\<lambda>raw. unwrap_then (op_msg_reply 0 raw) (\<lambda>request.
      case error_reply err (MB_Msg request) :: (error, message_body option) result of
        Ok (Some (MB_Msg m)) \<Rightarrow> msg_flags m = 0 \<and> unwrap_then (shallow (sec_body (msg_sections m))) (\<lambda>doc.
          document_get doc ''ok'' = Some (B_Double F64_ZERO) \<and> document_get doc ''errmsg'' = Some (B_String ''no such command'')
          \<and> document_get doc ''code'' = Some (B_Int32 59) \<and> document_get doc ''codeName'' = Some (B_String ''CommandNotFound''))
      | _ \<Rightarrow> False)))"

definition api_query_errors_become_op_reply_query_failures :: bool where
  "api_query_errors_become_op_reply_query_failures \<longleftrightarrow>
     (let err = error_command 59 ''CommandNotFound'' ''OP_QUERY only supports hello/isMaster'' in
      unwrap_then (document_encode [(''find'', B_String ''x'')]) (\<lambda>raw.
      case error_reply err (MB_Query (op_query_handshake raw)) :: (error, message_body option) result of
        Ok (Some (MB_Reply r)) \<Rightarrow> response_flags r AND 2 = 2 \<and> number_returned r = 1
          \<and> (case documents r of d # _ \<Rightarrow> unwrap_then (shallow d) (\<lambda>doc.
               document_get doc ''ok'' = Some (B_Double F64_ZERO) \<and> document_get doc ''code'' = Some (B_Int32 59)) | [] \<Rightarrow> False)
      | _ \<Rightarrow> False))"

definition api_protocol_errors_have_no_reply :: bool where
  "api_protocol_errors_have_no_reply \<longleftrightarrow>
     unwrap_then (document_encode [(''ping'', B_Int32 1)]) (\<lambda>raw. unwrap_then (op_msg_reply 0 raw) (\<lambda>request.
       error_reply (Protocol (PE_ChecksumMismatch 1 2)) (MB_Msg request) = (Ok None :: (error, message_body option) result)))"

lemma api_negotiation_tests: "api_negotiate_intersects_in_server_preference_order"
  "api_requested_compressors_reads_the_handshake_field" "api_protocol_errors_have_no_reply"
  by code_simp+

lemma api_error_reply_tests: "api_command_errors_become_op_msg_error_bodies" "api_query_errors_become_op_reply_query_failures"
proof -
  have document: "\<exists>d. to_error_response_doc (CommandError 59 ''CommandNotFound'' what) = Some d
      \<and> document_get d ''ok'' = Some (B_Double 0) \<and> document_get d ''errmsg'' = Some (B_String what)
      \<and> document_get d ''code'' = Some (B_Int32 59) \<and> document_get d ''codeName'' = Some (B_String ''CommandNotFound'')" for what
    by (simp add: to_error_response_doc_def document_add_def document_new_def document_get_def Let_def)
  have ping: "document_encode [(''ping'', B_Int32 1)] = Ok [15, 0, 0, 0, 16, 112, 105, 110, 103, 0, 1, 0, 0, 0, 0]"
    "document_encode [(''find'', B_String ''x'')] = Ok [17, 0, 0, 0, 2, 102, 105, 110, 100, 0, 2, 0, 0, 0, 120, 0, 0]"
    by code_simp+
  obtain d where d: "to_error_response_doc (CommandError 59 ''CommandNotFound'' ''no such command'') = Some d"
    and get: "document_get d ''ok'' = Some (B_Double 0)" "document_get d ''errmsg'' = Some (B_String ''no such command'')"
      "document_get d ''code'' = Some (B_Int32 59)" "document_get d ''codeName'' = Some (B_String ''CommandNotFound'')"
    using document by blast
  from error_document_round_trip [OF d] have "document_encode d = Ok (doc_bytes d)" "shallow (doc_bytes d) = Ok d"
    by (simp_all add: eval_simps)
  then show "api_command_errors_become_op_msg_error_bodies"
    by (simp add: api_command_errors_become_op_msg_error_bodies_def ping error_reply_def error_command_def d get op_msg_reply_def
        op_msg_new_def sections_new_def to_option_def Let_def del: bson_bytes.simps)
  obtain d where d: "to_error_response_doc (CommandError 59 ''CommandNotFound'' ''OP_QUERY only supports hello/isMaster'') = Some d"
    and get: "document_get d ''ok'' = Some (B_Double 0)" "document_get d ''code'' = Some (B_Int32 59)"
    using document by blast
  from error_document_round_trip [OF d] have "document_encode d = Ok (doc_bytes d)" "shallow (doc_bytes d) = Ok d"
    by (simp_all add: eval_simps)
  then show "api_query_errors_become_op_reply_query_failures"
    by (simp add: api_query_errors_become_op_reply_query_failures_def ping error_reply_def error_command_def d get
        query_handshake_reply_def to_option_def Let_def del: bson_bytes.simps)
qed

section \<open>SASL commands\<close>

definition forward_probe :: handler where
  "forward_probe e ctx cmd = (map_ok ReplyMsg ping_reply, ctx)"

definition store :: "crypto \<Rightarrow> memory_credential_source" where
  "store c = memory_insert c Sha1 ''grace'' ''hopper'' (memory_insert c Sha256 ''ada'' ''lovelace'' Map.empty)"

definition bridge :: "crypto \<Rightarrow> memory_credential_source \<Rightarrow> handler" where
  "bridge c users = scram_bridge c (memory_lookup users) forward_probe"

definition sasl_document :: "string \<Rightarrow> string option \<Rightarrow> string \<Rightarrow> document" where
  "sasl_document name mechanism payload =
     (let d = document_add name (B_Int32 1) document_new;
          d = (case mechanism of Some m \<Rightarrow> document_add ''mechanism'' (B_String m) d | None \<Rightarrow> d);
          d = document_add ''payload'' (B_Binary \<lparr>bin_subtype = Generic, bin_bytes = as_bytes payload\<rparr>) d;
          d = document_add ''conversationId'' (B_Int32 1) d
      in document_add ''$db'' (B_String ''admin'') d)"

definition auth_command :: "string \<Rightarrow> document \<Rightarrow> (bson_error, command) result" where
  "auth_command name doc = map_ok (\<lambda>raw. \<lparr>cmd_name = name, cmd_body = raw, cmd_sequences = [], cmd_flags = 0\<rparr>) (document_encode doc)"

definition fails_authentication :: "(error, reply) result \<Rightarrow> bool" where
  "fails_authentication r \<longleftrightarrow> (case r of Err (CommandError code _ _) \<Rightarrow> code = AUTHENTICATION_FAILED | _ \<Rightarrow> False)"

text \<open>These tests run with the store above; what they assert holds with any.\<close>

definition auth_unsupported_mechanism_is_rejected :: "crypto \<Rightarrow> memory_credential_source \<Rightarrow> env \<Rightarrow> bool" where
  "auth_unsupported_mechanism_is_rejected c users e \<longleftrightarrow>
     unwrap_then (auth_command ''saslStart'' (sasl_document ''saslStart'' (Some ''SCRAM-SHA-3'') ''n,,n=ada,r=nonce'')) (\<lambda>cmd.
     fails_authentication (fst (bridge c users e connection_info_new cmd)))"

definition auth_sasl_continue_without_start_is_rejected :: "crypto \<Rightarrow> memory_credential_source \<Rightarrow> env \<Rightarrow> bool" where
  "auth_sasl_continue_without_start_is_rejected c users e \<longleftrightarrow>
     unwrap_then (auth_command ''saslContinue'' (sasl_document ''saslContinue'' None ''c=biws,r=x,p=AAAA'')) (\<lambda>cmd.
     fails_authentication (fst (bridge c users e connection_info_new cmd)))"

definition auth_missing_or_wrong_typed_fields_are_rejected :: "crypto \<Rightarrow> memory_credential_source \<Rightarrow> env \<Rightarrow> bool" where
  "auth_missing_or_wrong_typed_fields_are_rejected c users e \<longleftrightarrow>
     unwrap_then (auth_command ''saslStart'' [(''saslStart'', B_Int32 1), (''mechanism'', B_String ''SCRAM-SHA-256'')]) (\<lambda>cmd.
     case bridge c users e connection_info_new cmd of (r, ctx) \<Rightarrow> fails_authentication r
     \<and> unwrap_then (auth_command ''saslStart'' [(''saslStart'', B_Int32 1), (''payload'', B_String ''n,,n=ada,r=nonce'')]) (\<lambda>cmd.
       fails_authentication (fst (bridge c users e ctx cmd))))"

definition auth_other_commands_are_forwarded_to_the_inner_handler :: "crypto \<Rightarrow> memory_credential_source \<Rightarrow> env \<Rightarrow> bool" where
  "auth_other_commands_are_forwarded_to_the_inner_handler c users e \<longleftrightarrow>
     unwrap_then (document_encode [(''ping'', B_Int32 1), (''$db'', B_String ''admin'')]) (\<lambda>raw.
     unwrap_then (from_bytes raw) (\<lambda>raw.
     case fst (bridge c users e connection_info_new \<lparr>cmd_name = ''ping'', cmd_body = raw, cmd_sequences = [], cmd_flags = 0\<rparr>) of
       Ok (ReplyMsg _) \<Rightarrow> True | _ \<Rightarrow> False))"

definition auth_username_escaping_is_undone :: bool where
  "auth_username_escaping_is_undone \<longleftrightarrow>
     parse_client_first_username ''n,,n=co=3Dmma=2Cuser,r=nonce'' = Some ''co=mma,user''
     \<and> parse_client_first_username ''n,,n=plain,r=x'' = Some ''plain''
     \<and> parse_client_first_username ''n,,r=noname'' = None \<and> parse_client_first_username [] = None"

definition auth_memory_store_derives_mechanism_appropriate_credentials :: "crypto \<Rightarrow> bool" where
  "auth_memory_store_derives_mechanism_appropriate_credentials c \<longleftrightarrow>
     memory_lookup (store c) Sha1 ''grace''
       = Some (derive c Sha1 (mongo_sha1_password c ''grace'' ''hopper'') (map of_nat [0..<16]) (default_iterations Sha1))
     \<and> memory_lookup (store c) Sha256 ''grace'' = None"

lemma auth_tests: "auth_unsupported_mechanism_is_rejected c users e" "auth_sasl_continue_without_start_is_rejected c users e"
  "auth_missing_or_wrong_typed_fields_are_rejected c users e" "auth_other_commands_are_forwarded_to_the_inner_handler c users e"
  "auth_username_escaping_is_undone"
  by code_simp+

lemma auth_store: "auth_memory_store_derives_mechanism_appropriate_credentials c"
  by (simp add: auth_memory_store_derives_mechanism_appropriate_credentials_def store_def memory_insert_def memory_lookup_def Let_def)

section \<open>SCRAM exchanges\<close>

text \<open>\<open>run_exchange\<close>: a failed assertion of the helper is a panic, an error of either side is returned.\<close>

definition scram_run_exchange ::
    "crypto \<Rightarrow> scram_client \<Rightarrow> scram_server \<Rightarrow> string \<Rightarrow> stored_credentials \<Rightarrow> (auth_error, unit) result" where
  "scram_run_exchange c client server user creds =
     (case client_first_message client of (r, client) \<Rightarrow> andthen r (\<lambda>client_first.
      case handle_client_first c client_first user creds server of (r, server) \<Rightarrow> andthen r (\<lambda>server_first.
      case receive_server_first c server_first client of (r, client) \<Rightarrow> andthen r (\<lambda>_.
      case client_final_message c client of (r, client) \<Rightarrow> andthen r (\<lambda>client_final.
      case handle_client_final c client_final server of (r, server) \<Rightarrow> andthen r (\<lambda>server_final.
      if sv_username server \<noteq> user then Panic
      else case receive_server_final c server_final client of (r, client) \<Rightarrow> andthen r (\<lambda>_.
      if fst (handle_client_final c client_final server) \<noteq> Err AE_State
         \<or> fst (receive_server_final c server_final client) \<noteq> Err AE_State then Panic
      else Ok ())))))))"

definition scram_salt :: bytes where
  "scram_salt = as_bytes ''0123456789abcdef''"

definition scram_full_roundtrip_sha1 :: "crypto \<Rightarrow> bytes \<Rightarrow> bytes \<Rightarrow> bool" where
  "scram_full_roundtrip_sha1 c client_random server_random \<longleftrightarrow>
     (let creds = derive c Sha1 (mongo_sha1_password c ''bob'' ''s3cret'') scram_salt (default_iterations Sha1) in
      unwrap_then (scram_client_new c client_random Sha1 ''bob'' ''s3cret'') (\<lambda>client.
      scram_run_exchange c client (scram_server_new c server_random Sha1) ''bob'' creds = Ok ()))"

definition scram_full_roundtrip_sha256 :: "crypto \<Rightarrow> bytes \<Rightarrow> bytes \<Rightarrow> bool" where
  "scram_full_roundtrip_sha256 c client_random server_random \<longleftrightarrow>
     (let creds = derive c Sha256 ''pencil'' scram_salt 4096 in
      unwrap_then (scram_client_new c client_random Sha256 ''user'' ''pencil'') (\<lambda>client.
      scram_run_exchange c client (scram_server_new c server_random Sha256) ''user'' creds = Ok ()))"

lemma scram_run_exchange_ok:
  assumes "crypto_ok c" "nonce_ok cn" "nonce_ok sn" "it \<noteq> 0" "it \<le> 1000000"
  shows "scram_run_exchange c (client_with_nonce m user pw cn) (server_with_nonce m sn) user (derive c m pw salt it) = Ok ()"
proof -
  from scram_exchange [OF assms, of m user pw salt] obtain pf sg c1 c2 c3 c4 s1 s2 where
    "client_first_message (client_with_nonce m user pw cn) = (Ok (''n,,'' @ first_bare user cn), c1)"
    "handle_client_first c (''n,,'' @ first_bare user cn) user (derive c m pw salt it) (server_with_nonce m sn)
       = (Ok (first_reply c (cn @ sn) (derive c m pw salt it)), s1)"
    "receive_server_first c (first_reply c (cn @ sn) (derive c m pw salt it)) c1 = (Ok (), c2)"
    "client_final_message c c2 = (Ok (final_without_proof (cn @ sn) @ '',p='' @ b64_encode c pf), c3)"
    "handle_client_final c (final_without_proof (cn @ sn) @ '',p='' @ b64_encode c pf) s1 = (Ok (''v='' @ b64_encode c sg), s2)"
    "receive_server_final c (''v='' @ b64_encode c sg) c3 = (Ok (), c4)"
    "cl_state c4 = C_Done" "sv_state s2 = S_Done" "sv_username s2 = user"
    by blast
  then show ?thesis
    by (simp add: scram_run_exchange_def handle_client_final_def [of c _ s2] receive_server_final_def [of c _ c4])
qed

text \<open>The exchanges succeed with any lawful library and any random bytes whose base64 text is a usable nonce.\<close>

lemma scram_roundtrips:
  assumes "crypto_ok c" "nonce_ok (generate_nonce c client_random)" "nonce_ok (generate_nonce c server_random)"
  shows "scram_full_roundtrip_sha1 c client_random server_random" "scram_full_roundtrip_sha256 c client_random server_random"
  by (simp_all add: scram_full_roundtrip_sha1_def scram_full_roundtrip_sha256_def scram_client_new_def scram_server_new_def
      effective_password_def scram_run_exchange_ok [OF assms] eval_simps)

definition scram_gs2_channel_binding_rejected_by_server :: "crypto \<Rightarrow> bool" where
  "scram_gs2_channel_binding_rejected_by_server c \<longleftrightarrow>
     (let creds = derive c Sha256 ''user'' scram_salt 4096; server = server_with_nonce Sha256 ''servernonce1234567'' in
      fst (handle_client_first c ''y,,n=user,r=nonce123'' ''user'' creds server)
        = Err (AE_InvalidMessage ''channel binding is not supported'')
      \<and> fst (handle_client_first c ''p=tls-server-end-point,,n=user,r=nonce123'' ''user'' creds server)
        = Err (AE_InvalidMessage ''channel binding is not supported'')
      \<and> fst (handle_client_first c ''gibberish'' ''user'' creds server) = Err (AE_InvalidMessage ''invalid GS2 header''))"

definition scram_client_first_username_is_escaped :: "crypto \<Rightarrow> bool" where
  "scram_client_first_username_is_escaped c \<longleftrightarrow>
     fst (client_first_message (client_with_nonce Sha256 ''co=mma,user'' (effective_password c Sha256 ''co=mma,user'' ''p'') ''nonce12345678''))
       = Ok ''n,,n=co=3Dmma=2Cuser,r=nonce12345678''"

lemma scram_message_tests: "scram_gs2_channel_binding_rejected_by_server c" "scram_client_first_username_is_escaped c"
  by code_simp+

end
