(* ===== verification/Spec2Isabelle.thy ===== *)
theory Spec2Isabelle
  imports Login Tests_Common Tests_Document Tests_Decode Tests_Encode Tests_Wire Tests_Body Tests_Msg Tests_Framing Tests_Api
begin

text \<open>
  A verification library for mongowire, the MongoDB wire protocol in Rust: BSON, the protocol messages,
  their framing, authentication, and the embeddable server on top.

  \<^bold>\<open>The program and its parts.\<close>  A connection carries frames: a 16-byte header and a body chosen by an
  opcode, with an optional CRC-32C trailer on OP_MSG and an optional compressed envelope.  Bodies carry
  BSON documents.  \<open>mongo_common\<close> holds byte readers and writers, BSON scalars and their conversions, and
  PLAIN and SCRAM; \<open>wirebson\<close> holds documents and their decoder and encoder; \<open>mongowire\<close> holds the messages,
  the framing, the codec and the server.  Bytes from the socket pass through framing, body parsing and BSON
  decoding up to a command handler, and its replies travel back down the same path.

  \<^bold>\<open>The theories\<close>, from the bottom up; paths are under \<open>src/\<close>.

  \<^item> \<open>Prelude\<close>: outcomes (\<open>Ok\<close>, \<open>Err\<close>, \<open>Panic\<close>) and their combinators, little-endian words, byte strings and
    UTF-8, decimal rendering; the collections \<open>outcome_simps\<close>, \<open>panic_free\<close>, \<open>wire_simps\<close>, \<open>eval_simps\<close>.
  \<^item> \<open>Protocol_IO\<close> (\<open>mongo_common/src/io.rs\<close>): readers and writers; the locale \<open>fixed_field\<close> of fixed-width fields,
    interpreted for each width.
  \<^item> \<open>Bson_Scalar\<close> (\<open>mongo_common/src/bson/scalar.rs\<close>): scalar values, parsing, encoding, object ids.
  \<^item> \<open>Bson_Value\<close> (\<open>wirebson/src/value.rs\<close>, \<open>document.rs\<close>, \<open>array.rs\<close>): values and the document operations.
  \<^item> \<open>Bson_Decode\<close> (\<open>raw.rs\<close>, \<open>raw_value.rs\<close>, \<open>decode.rs\<close>): raw documents, the field scanner, lazy lookup, recursive decoding.
  \<^item> \<open>Bson_Encode\<close> (\<open>encode.rs\<close>): the encoder, the canonical layout, round trips.
  \<^item> \<open>Bson_Convert\<close> (\<open>convert.rs\<close> of both crates): integers, booleans, strings, times; \<open>Bson_From\<close>: the \<open>From\<close> and \<open>TryFrom\<close>
    conversions, of floats, \<open>uuid\<close>, decimals and JSON too.
  \<^item> \<open>Bson_Macros\<close> (\<open>wirebson/src/macros.rs\<close>): the literal macros as functions on their token lists.
  \<^item> \<open>Log_Date\<close>, \<open>Log_Text\<close>, \<open>Bson_Log\<close> (the second half of \<open>encode.rs\<close>): calendar dates, base64, quoting and the shortest decimal
    of a double; the log rendering of values and the \<open>Display\<close> of documents.
  \<^item> \<open>Wire_Header\<close> (\<open>mongowire/src/messages/header.rs\<close>, \<open>error.rs\<close>): errors, opcodes, the header.
  \<^item> \<open>Op_Msg\<close>, \<open>Op_Query\<close>, \<open>Op_Reply\<close>, \<open>Compression\<close>, \<open>Op_Compressed\<close>: the message bodies.  The locale \<open>message\<close>
    states what framing needs of a body (encoding appends \<open>body_len\<close> bytes that parse back; parsing accounts for
    every byte); each body and the union \<open>message_body\<close> interpret it.
  \<^item> \<open>Framing\<close> (\<open>framing.rs\<close>) and \<open>Codec\<close> (\<open>codec.rs\<close>): frames over a buffer, and streams of frames.
  \<^item> \<open>Rust_Str\<close>, \<open>Auth_Plain\<close>, \<open>Scram\<close> (\<open>mongo_common/src/auth/\<close>): string functions, PLAIN, the SCRAM state machines.
  \<^item> \<open>Api_Base\<close> (\<open>mongowire/src/api/client_info.rs\<close>, \<open>handler.rs\<close>, \<open>response.rs\<close>): connections, commands, replies, and the
    locales \<open>command_handler\<close> (a handler does not panic and returns what can be sent) and its extension
    \<open>quiet_handler\<close> (it leaves request ids and the checksum setting alone).
  \<^item> \<open>Api_Auth\<close> (\<open>api/auth.rs\<close>): \<open>saslStart\<close>, \<open>saslContinue\<close>, the credential store; \<open>Login\<close>: a login end to end.
  \<^item> \<open>Server\<close> (\<open>api/mod.rs\<close>): negotiation, built-in commands, sending, \<open>process_socket\<close>.
  \<^item> \<open>Demo_Server\<close> (\<open>examples/mongowire-server/src/main.rs\<close>): the example handler, interpreting \<open>quiet_handler\<close> alone and
    under the built-in commands and the bridge, and concrete runs of the server.
  \<^item> \<open>Test_Client\<close> (\<open>mongowire/src/test_client.rs\<close>): the client side of a connection, composed with the server.
  \<^item> \<open>Serve\<close> (\<open>serve\<close> of \<open>api/mod.rs\<close>, \<open>main\<close> and \<open>parse_args\<close> of the example): the accept loop with a task per
    connection.  Tasks interleave in any order, bytes arrive in chunks of any size, and a connection may end or fail
    while others go on; the inductive relation \<open>served\<close> gives the reachable states.
  \<^item> \<open>Fuzz_Targets\<close> (\<open>fuzz/fuzz_targets/\<close>): the fuzz entry points, whose assertions never fail.
  \<^item> \<open>Tests_Base\<close> and \<open>Tests_Common\<close>, \<open>Tests_Document\<close>, \<open>Tests_Decode\<close>, \<open>Tests_Encode\<close>, \<open>Tests_Wire\<close>, \<open>Tests_Body\<close>,
    \<open>Tests_Msg\<close>, \<open>Tests_Framing\<close>, \<open>Tests_Api\<close>: the unit tests of the repository, run on the model.  Each is a boolean
    definition that evaluates to \<open>True\<close>, so the definitions above answer as the code's own tests demand.

  \<^bold>\<open>How code becomes definitions.\<close>  Fallible code returns an outcome; a Rust panic (index or slice out of range,
  a failing assertion, overflow in a build with overflow checks) is the outcome \<open>Panic\<close>, so that its absence is a
  theorem.  Mutable arguments are returned beside the outcome, also on errors.  Machine integers are words; signed
  ones are read with \<open>sint\<close>.  A \<open>String\<close> is a list of characters standing for its bytes, with well-formed UTF-8 as
  \<open>wf_str\<close>; a double is its bit pattern.  Loops are recursive functions with termination proofs; only the search for
  the decimal exponent of a double counts its steps, from a start and with a bound that cover every double.
  An iterator adaptor or match arm that the code writes inline may be a definition of its own, mapped to its lines.

  \<^bold>\<open>Parameters.\<close>  CRC-32C is an argument \<open>crc\<close>; the snap, flate2 and zstd crates are the record \<open>codecs\<close>; hash, HMAC,
  PBKDF2, MD5 and base64 are the record \<open>crypto\<close>, of which \<open>crypto_ok\<close> states lengths and that base64 decoding undoes
  encoding; the clock, random bytes and the object id counter are arguments (\<open>env\<close>).  The table of printable
  characters behind Rust's \<open>escape_debug\<close> is an argument \<open>shown\<close>; rounding to \<open>f32\<close> and the \<open>uuid\<close>, \<open>bson\<close> decimal and
  \<open>serde_json\<close> crates are arguments of the conversions.  The server loop receives the
  items \<open>Framed\<close> yields, each with the draws of its iteration and whether its write to the socket fails.

  \<^bold>\<open>What is shown.\<close>  Reading: no byte string panics any parser, and what a parser accepts accounts for its bytes.
  Writing: what the library writes, its own reader reads back, from single scalars to streams of frames, with and
  without checksums and compression.  Lazy and eager BSON access agree.  Lengths, flags, counts and sizes are
  bounded as the wire format demands.  Authentication: an exchange with the right password completes, on both
  machines and through the BSON commands; the server accepts only honest proofs up to digest collisions, the client
  only honest servers, replays fail, and the connection marks a user authenticated only after a proof.  Serving:
  no frames crash a connection, the bytes written are whole frames answering requests in order and at most once,
  handshakes negotiate the agreed compressors, and command errors reach the client; the test client reads every
  reply, however the socket chops the bytes.  With many clients at once, each one's exchange is a run of
  \<open>process_socket\<close> on what it sent, whatever the others do, and in every reachable state a connection
  carries an authenticated user only where a proof against that user's credentials was accepted.  Logging: dates are the civil calendar, numbers denote the double they
  came from and no shorter decimal does, quoting is undone, and a log line stays one line except for a regex.

  \<^bold>\<open>Bounds.\<close>  Messages are at most 48,000,000 bytes, documents nest at most 20 levels, both as in the code.  Size
  hypotheses of the server properties (at most 1000 configured compressors, error texts of at most 16 MB, login
  names and nonces of at most a million bytes) keep the replies below the message limit.  The calendar is exact for
  days below \<open>2 ^ 61\<close> in size, far beyond what 64-bit milliseconds reach.  The exponent search of a double starts at
  \<open>10 ^ 309\<close>, above the largest double, and takes at most 1400 steps, more than the distance to the smallest.  The
  document fuzz target is stated for inputs of at most 200,000,000 bytes, so that no length field overflows.

  \<^bold>\<open>Not modelled.\<close>  The async runtime and the sockets behind it, of which only the order of events and the bytes are
  seen; what the example server prints; module declarations, re-exports and \<open>Debug\<close> and \<open>Display\<close> of errors other than
  \<open>AuthError\<close>, which only produce text for a log.  Of the tests, those that need real digests, compression or CRC-32C
  values, a socket or the clock, recorded dumps from files, the identity of pointers into a buffer, or a parse of every
  prefix of a message; for the last the theorems that no input panics a parser stand in.
\<close>

end
